(* ===== verification/Prelude.thy ===== *)
theory Prelude
  imports
    Main
    "HOL-Library.Word"
    "HOL-Library.Multiset"
    "HOL-Library.AList"
    "HOL-Library.List_Lexorder"
    "HOL-Library.Char_ord"
    "HOL-Library.Product_Lexorder"
    "HOL-Library.Monad_Syntax"
begin

text \<open>
  Vocabulary shared by every component of the development: how the Go values of the
  program are represented, the outcome of a Go call, Go maps and slices, and the
  generic lemmas about them.

  \<^item> \<open>uint32\<close> and \<open>uint64\<close> are machine words, so \<open>+\<close> wraps and \<open><\<close> is unsigned;
    \<open>int64\<close> (all clocks) is \<open>int\<close> with the wrap-around written out by \<open>wrap64\<close>, and
    \<open>int32\<close> conversions use \<open>wrap32\<close>.
  \<^item> Strings are lists of bytes; the order on them is Go's byte-wise lexicographic order.
  \<^item> A call that mutates a component takes its state and returns the new one. A call
    that can panic (an index out of range, \<open>log.Panicf\<close>) returns an \<open>option\<close>, with
    \<open>None\<close> for the panic; an \<open>error\<close> result is a value of a sum type, \<open>Inl\<close> for the error.
  \<^item> A Go map is an association list with distinct keys. Iteration order over a Go map is
    not determined by the language, so a definition that iterates takes the order as an
    argument.
\<close>

section \<open>Named collections\<close>

named_theorems int64_simps \<open>wrap-around of int64 values inside their range\<close>
named_theorems gomap_simps \<open>lookup, store and delete on Go maps\<close>
named_theorems job_simps \<open>reading a field of a job after a write\<close>

section \<open>Machine integers\<close>

type_synonym uint32 = "32 word"
type_synonym uint64 = "64 word"
type_synonym int64 = int
type_synonym bytes = string

definition wrap64 :: "int \<Rightarrow> int" where
  "wrap64 x = (x + 2 ^ 63) mod 2 ^ 64 - 2 ^ 63"

definition wrap32 :: "int \<Rightarrow> int" where
  "wrap32 x = (x + 2 ^ 31) mod 2 ^ 32 - 2 ^ 31"

definition maxTime :: int64 where
  "maxTime = 2 ^ 63 - 1"

definition in_int64 :: "int \<Rightarrow> bool" where
  "in_int64 x \<longleftrightarrow> - (2 ^ 63) \<le> x \<and> x < 2 ^ 63"

definition in_int32 :: "int \<Rightarrow> bool" where
  "in_int32 x \<longleftrightarrow> - (2 ^ 31) \<le> x \<and> x < 2 ^ 31"

lemma wrap64_range: "in_int64 (wrap64 x)"
  by (simp add: in_int64_def wrap64_def)

lemma wrap64_id [int64_simps]: "in_int64 x \<Longrightarrow> wrap64 x = x"
  by (simp add: in_int64_def wrap64_def)

lemma wrap64_le_maxTime [simp]: "wrap64 x \<le> maxTime"
  using wrap64_range [of x] by (simp add: in_int64_def maxTime_def)

lemma wrap32_range: "in_int32 (wrap32 x)"
  by (simp add: in_int32_def wrap32_def)

lemma wrap32_id [int64_simps]: "in_int32 x \<Longrightarrow> wrap32 x = x"
  by (simp add: in_int32_def wrap32_def)

section \<open>Go maps\<close>

type_synonym ('k, 'v) gomap = "('k \<times> 'v) list"

abbreviation mget :: "('k, 'v) gomap \<Rightarrow> 'k \<Rightarrow> 'v option" where
  "mget m k \<equiv> map_of m k"

abbreviation mput :: "('k, 'v) gomap \<Rightarrow> 'k \<Rightarrow> 'v \<Rightarrow> ('k, 'v) gomap" where
  "mput m k v \<equiv> AList.update k v m"

abbreviation mdel :: "('k, 'v) gomap \<Rightarrow> 'k \<Rightarrow> ('k, 'v) gomap" where
  "mdel m k \<equiv> AList.delete k m"

abbreviation mkeys :: "('k, 'v) gomap \<Rightarrow> 'k list" where
  "mkeys m \<equiv> map fst m"

definition mwf :: "('k, 'v) gomap \<Rightarrow> bool" where
  "mwf m \<longleftrightarrow> distinct (mkeys m)"

lemma mget_mput [gomap_simps, simp]:
  "mget (mput m k v) k' = (if k' = k then Some v else mget m k')"
  by (simp add: update_conv')

lemma mget_mdel [gomap_simps, simp]:
  "mget (mdel m k) k' = (if k' = k then None else mget m k')"
  by (simp add: delete_conv')

lemma mwf_Nil [simp]: "mwf []"
  by (simp add: mwf_def)

lemma mwf_mput [simp]: "mwf m \<Longrightarrow> mwf (mput m k v)"
  by (simp add: mwf_def distinct_update)

lemma mwf_mdel [simp]: "mwf m \<Longrightarrow> mwf (mdel m k)"
  by (simp add: mwf_def distinct_delete)

lemma mget_mkeys: "mget m k \<noteq> None \<longleftrightarrow> k \<in> set (mkeys m)"
  by (metis map_of_eq_None_iff list.set_map)

lemma mget_Some_in: "mget m k = Some v \<Longrightarrow> k \<in> set (mkeys m)"
  using mget_mkeys [of m k] by auto

lemma set_mput_new: "k \<notin> fst ` set m \<Longrightarrow> set (mput m k v) = insert (k, v) (set m)"
  by (induction m) auto

lemma set_mdel: "set (mdel m k) = {p \<in> set m. fst p \<noteq> k}"
  by (auto simp: AList.delete_eq)

section \<open>Outcomes\<close>

text \<open>
  A call that changes a state \<open>'s\<close>, may panic and may return an error. \<open>and_then\<close> is the
  idiom \<^verbatim>\<open>if err != nil { return err }\<close>: a panic or an error ends the caller too,
  with the state reached so far.
\<close>

type_synonym ('s, 'e, 'a) outcome = "('s \<times> ('e + 'a)) option"

fun and_then :: "('s, 'e, 'a) outcome \<Rightarrow> ('s \<Rightarrow> 'a \<Rightarrow> ('s, 'e, 'b) outcome) \<Rightarrow> ('s, 'e, 'b) outcome" where
  "and_then None k = None"
| "and_then (Some (s, Inl e)) k = Some (s, Inl e)"
| "and_then (Some (s, Inr a)) k = k s a"

lemma and_then_SomeE:
  assumes "and_then r k = Some (s', x)"
  obtains (error) e where "r = Some (s', Inl e)" and "x = Inl e"
    | (ok) s a where "r = Some (s, Inr a)" and "k s a = Some (s', x)"
  using assms by (cases "(r, k)" rule: and_then.cases) auto

section \<open>Slices\<close>

text \<open>Exchanging two elements of a slice, \<^verbatim>\<open>s[i], s[j] = s[j], s[i]\<close>.\<close>

definition list_swap :: "'a list \<Rightarrow> nat \<Rightarrow> nat \<Rightarrow> 'a list" where
  "list_swap xs i j = xs[i := xs ! j, j := xs ! i]"

lemma length_list_swap [simp]: "length (list_swap xs i j) = length xs"
  by (simp add: list_swap_def)

lemma nth_list_swap [simp]:
  assumes "i < length xs" and "j < length xs" and "k < length xs"
  shows "list_swap xs i j ! k = (if k = i then xs ! j else if k = j then xs ! i else xs ! k)"
  using assms by (auto simp: list_swap_def nth_list_update)

lemma mset_list_swap [simp]:
  assumes "i < length xs" and "j < length xs"
  shows "mset (list_swap xs i j) = mset xs"
  using mset_swap [OF assms(2,1)] by (simp add: list_swap_def)

lemma set_list_swap [simp]:
  assumes "i < length xs" and "j < length xs"
  shows "set (list_swap xs i j) = set xs"
  using mset_list_swap [OF assms] mset_eq_setD by blast

lemma distinct_list_swap [simp]:
  assumes "i < length xs" and "j < length xs"
  shows "distinct (list_swap xs i j) = distinct xs"
  using mset_list_swap [OF assms] mset_eq_imp_distinct_iff by blast

lemma last_list_swap:
  assumes "i < length xs"
  shows "last (list_swap xs i (length xs - 1)) = xs ! i"
proof -
  have "list_swap xs i (length xs - 1) \<noteq> []" using assms by (auto simp: list_swap_def)
  then show ?thesis using assms by (simp add: last_conv_nth)
qed

lemma nth_mem_index:
  assumes "x \<in> set xs"
  obtains i where "i < length xs" and "xs ! i = x"
  using assms by (auto simp: in_set_conv_nth)

lemma mset_butlast_last:
  assumes "xs \<noteq> []"
  shows "mset xs = add_mset (last xs) (mset (butlast xs))"
proof -
  have "mset xs = mset (butlast xs @ [last xs])" using assms by simp
  then show ?thesis by simp
qed

end
