(* ===== verification/Job.thy ===== *)
theory Job
  imports Prelude
begin

text \<open>
  The data of package \<^verbatim>\<open>state\<close>: error values (\<^verbatim>\<open>state/errors.go\<close>), job states
  and jobs (\<^verbatim>\<open>state/state.go\<close>), reservations, and the second implementation of the
  \<^verbatim>\<open>Job\<close> interface, \<^verbatim>\<open>wrapJob\<close> over a protobuf message (\<^verbatim>\<open>store/snapshot.go\<close>),
  which is what a restored job is. The interface type \<open>Job\<close> is the tagged union of its two
  implementations and its methods dispatch on the tag. The locale \<open>job_contract\<close> is what
  the job state machine relies on: every update writes exactly its field of the observable
  \<open>view\<close> of the job. Both implementations and the interface type satisfy it.
\<close>

section \<open>Errors\<close>

text \<open>\<open>Wrapped e\<close> is \<^verbatim>\<open>fmt.Errorf("... %w", e)\<close>: it is not equal to \<open>e\<close>.\<close>

datatype error =
    ErrInvalidIndex | ErrMismatchJobEntry | ErrEntryExists | ErrEntryMissing
  | ErrContainerEmpty | ErrInvalidJobTransition | ErrInvalidOperation
  | ErrUnauthorizedOperation | ErrCancel | ErrNoReservationFound
  | ErrInvalidResvTimeout | ErrClientIsWaitingForReservation
  | Wrapped error

section \<open>Job states\<close>

datatype JobState = Initial | Ready | Reserved | Buried | Delayed | Deleted

fun JobState_iota :: "JobState \<Rightarrow> nat" where
  "JobState_iota Initial = 0"
| "JobState_iota Ready = 1"
| "JobState_iota Reserved = 2"
| "JobState_iota Buried = 3"
| "JobState_iota Delayed = 4"
| "JobState_iota Deleted = 5"

definition JobState_name :: string where
  "JobState_name = ''InitialReadyReservedBuriedDelayedDeleted''"

definition JobState_index :: "nat list" where
  "JobState_index = [0, 7, 12, 20, 26, 33, 40]"

definition JobState_String :: "JobState \<Rightarrow> string" where
  "JobState_String i =
     (let lo = JobState_index ! JobState_iota i; hi = JobState_index ! (JobState_iota i + 1)
      in take (hi - lo) (drop lo JobState_name))"

section \<open>Jobs\<close>

type_synonym JobID = uint64
type_synonym TubeName = string
type_synonym ClientID = string

record localJob =
  job_id :: uint64
  priority :: uint32
  delay :: int64
  ttr :: int64
  bodySize :: int64
  body :: bytes
  tubeName :: TubeName
  createdAt :: int64
  readyAt :: int64
  state :: JobState
  expiresAt :: int64
  reservedBy :: ClientID
  buriedAt :: int64
  reserveCount :: uint32
  timeoutCount :: uint32
  releaseCount :: uint32
  buryCount :: uint32
  kickCount :: uint32

text \<open>
  The protobuf message of a job. Its job states are numbered as \<^verbatim>\<open>JobState\<close> is, so the
  conversions between the two enumerations are the identity.
\<close>

record JobProto =
  jp_Id :: int64
  jp_Priority :: uint32
  jp_Delay :: int64
  jp_Ttr :: int
  jp_TubeName :: string
  jp_CreatedAt :: int64
  jp_ReadyAt :: int64
  jp_ExpiresAt :: int64
  jp_State :: JobState
  jp_ReservedBy :: string
  jp_BodySize :: int
  jp_Body :: bytes
  jp_BuriedAt :: int64
  jp_ReserveCount :: uint32
  jp_TimeoutCount :: uint32
  jp_ReleaseCount :: uint32
  jp_BuryCount :: uint32
  jp_KickCount :: uint32

text \<open>The \<^verbatim>\<open>Job\<close> interface: a \<^verbatim>\<open>*localJob\<close> or a \<^verbatim>\<open>*wrapJob\<close>.\<close>

datatype Job = LocalJob localJob | WrapJob JobProto

subsection \<open>The methods of \<^verbatim>\<open>localJob\<close>\<close>

definition localJob_ID :: "localJob \<Rightarrow> JobID" where
  "localJob_ID j = job_id j"

definition localJob_Priority :: "localJob \<Rightarrow> uint32" where
  "localJob_Priority j = priority j"

definition localJob_Delay :: "localJob \<Rightarrow> int64" where
  "localJob_Delay j = delay j"

definition localJob_TTR :: "localJob \<Rightarrow> int64" where
  "localJob_TTR j = ttr j"

definition localJob_BodySize :: "localJob \<Rightarrow> int64" where
  "localJob_BodySize j = bodySize j"

definition localJob_Body :: "localJob \<Rightarrow> bytes" where
  "localJob_Body j = body j"

definition localJob_TubeName :: "localJob \<Rightarrow> TubeName" where
  "localJob_TubeName j = tubeName j"

definition localJob_CreatedAt :: "localJob \<Rightarrow> int64" where
  "localJob_CreatedAt j = createdAt j"

definition localJob_ReadyAt :: "localJob \<Rightarrow> int64" where
  "localJob_ReadyAt j = readyAt j"

definition localJob_State :: "localJob \<Rightarrow> JobState" where
  "localJob_State j = state j"

definition localJob_ExpiresAt :: "localJob \<Rightarrow> int64" where
  "localJob_ExpiresAt j = expiresAt j"

definition localJob_ReservedBy :: "localJob \<Rightarrow> ClientID" where
  "localJob_ReservedBy j = reservedBy j"

definition localJob_BuriedAt :: "localJob \<Rightarrow> int64" where
  "localJob_BuriedAt j = buriedAt j"

definition localJob_ReserveCount :: "localJob \<Rightarrow> uint32" where
  "localJob_ReserveCount j = reserveCount j"

definition localJob_TimeoutCount :: "localJob \<Rightarrow> uint32" where
  "localJob_TimeoutCount j = timeoutCount j"

definition localJob_ReleaseCount :: "localJob \<Rightarrow> uint32" where
  "localJob_ReleaseCount j = releaseCount j"

definition localJob_BuryCount :: "localJob \<Rightarrow> uint32" where
  "localJob_BuryCount j = buryCount j"

definition localJob_KickCount :: "localJob \<Rightarrow> uint32" where
  "localJob_KickCount j = kickCount j"

definition localJob_UpdatePriority :: "uint32 \<Rightarrow> localJob \<Rightarrow> localJob" where
  "localJob_UpdatePriority newPriority j = j\<lparr>priority := newPriority\<rparr>"

definition localJob_UpdateDelay :: "int64 \<Rightarrow> localJob \<Rightarrow> localJob" where
  "localJob_UpdateDelay newDelay j = j\<lparr>delay := newDelay\<rparr>"

definition localJob_UpdateReadyAt :: "int64 \<Rightarrow> localJob \<Rightarrow> localJob" where
  "localJob_UpdateReadyAt nowSeconds j = j\<lparr>readyAt := wrap64 (nowSeconds + delay j)\<rparr>"

definition localJob_UpdateState :: "JobState \<Rightarrow> localJob \<Rightarrow> localJob" where
  "localJob_UpdateState newState j =
     (let j = (if state j = Buried then j\<lparr>buriedAt := 0\<rparr> else j) in j\<lparr>state := newState\<rparr>)"

definition localJob_UpdateReservedBy :: "ClientID \<Rightarrow> localJob \<Rightarrow> localJob" where
  "localJob_UpdateReservedBy clientID j = j\<lparr>reservedBy := clientID\<rparr>"

definition localJob_UpdateReservation :: "int64 \<Rightarrow> localJob \<Rightarrow> localJob" where
  "localJob_UpdateReservation nowSeconds j = j\<lparr>expiresAt := wrap64 (nowSeconds + ttr j)\<rparr>"

definition localJob_ResetBuriedAt :: "localJob \<Rightarrow> localJob" where
  "localJob_ResetBuriedAt j = j\<lparr>buriedAt := 0\<rparr>"

definition localJob_UpdateBuriedAt :: "int64 \<Rightarrow> localJob \<Rightarrow> localJob" where
  "localJob_UpdateBuriedAt nowSeconds j = j\<lparr>buriedAt := nowSeconds\<rparr>"

definition localJob_IncReserveCount :: "localJob \<Rightarrow> localJob" where
  "localJob_IncReserveCount j = j\<lparr>reserveCount := reserveCount j + 1\<rparr>"

definition localJob_IncTimeoutCount :: "localJob \<Rightarrow> localJob" where
  "localJob_IncTimeoutCount j = j\<lparr>timeoutCount := timeoutCount j + 1\<rparr>"

definition localJob_IncReleaseCount :: "localJob \<Rightarrow> localJob" where
  "localJob_IncReleaseCount j = j\<lparr>releaseCount := releaseCount j + 1\<rparr>"

definition localJob_IncBuryCount :: "localJob \<Rightarrow> localJob" where
  "localJob_IncBuryCount j = j\<lparr>buryCount := buryCount j + 1\<rparr>"

definition localJob_IncKickCount :: "localJob \<Rightarrow> localJob" where
  "localJob_IncKickCount j = j\<lparr>kickCount := kickCount j + 1\<rparr>"

subsection \<open>The methods of \<^verbatim>\<open>wrapJob\<close>\<close>

definition wrapJob_ID :: "JobProto \<Rightarrow> JobID" where
  "wrapJob_ID j = word_of_int (jp_Id j)"

definition wrapJob_Priority :: "JobProto \<Rightarrow> uint32" where
  "wrapJob_Priority j = jp_Priority j"

definition wrapJob_Delay :: "JobProto \<Rightarrow> int64" where
  "wrapJob_Delay j = jp_Delay j"

definition wrapJob_TTR :: "JobProto \<Rightarrow> int64" where
  "wrapJob_TTR j = jp_Ttr j"

definition wrapJob_BodySize :: "JobProto \<Rightarrow> int64" where
  "wrapJob_BodySize j = jp_BodySize j"

definition wrapJob_Body :: "JobProto \<Rightarrow> bytes" where
  "wrapJob_Body j = jp_Body j"

definition wrapJob_TubeName :: "JobProto \<Rightarrow> TubeName" where
  "wrapJob_TubeName j = jp_TubeName j"

definition wrapJob_CreatedAt :: "JobProto \<Rightarrow> int64" where
  "wrapJob_CreatedAt j = jp_CreatedAt j"

definition wrapJob_ReadyAt :: "JobProto \<Rightarrow> int64" where
  "wrapJob_ReadyAt j = jp_ReadyAt j"

definition wrapJob_State :: "JobProto \<Rightarrow> JobState" where
  "wrapJob_State j = jp_State j"

definition wrapJob_ExpiresAt :: "JobProto \<Rightarrow> int64" where
  "wrapJob_ExpiresAt j = jp_ExpiresAt j"

definition wrapJob_ReservedBy :: "JobProto \<Rightarrow> ClientID" where
  "wrapJob_ReservedBy j = jp_ReservedBy j"

definition wrapJob_BuriedAt :: "JobProto \<Rightarrow> int64" where
  "wrapJob_BuriedAt j = jp_BuriedAt j"

definition wrapJob_ReserveCount :: "JobProto \<Rightarrow> uint32" where
  "wrapJob_ReserveCount j = jp_ReserveCount j"

definition wrapJob_TimeoutCount :: "JobProto \<Rightarrow> uint32" where
  "wrapJob_TimeoutCount j = jp_TimeoutCount j"

definition wrapJob_ReleaseCount :: "JobProto \<Rightarrow> uint32" where
  "wrapJob_ReleaseCount j = jp_ReleaseCount j"

definition wrapJob_BuryCount :: "JobProto \<Rightarrow> uint32" where
  "wrapJob_BuryCount j = jp_BuryCount j"

definition wrapJob_KickCount :: "JobProto \<Rightarrow> uint32" where
  "wrapJob_KickCount j = jp_KickCount j"

definition wrapJob_UpdatePriority :: "uint32 \<Rightarrow> JobProto \<Rightarrow> JobProto" where
  "wrapJob_UpdatePriority newPriority j = j\<lparr>jp_Priority := newPriority\<rparr>"

definition wrapJob_UpdateDelay :: "int64 \<Rightarrow> JobProto \<Rightarrow> JobProto" where
  "wrapJob_UpdateDelay newDelay j = j\<lparr>jp_Delay := newDelay\<rparr>"

definition wrapJob_UpdateReadyAt :: "int64 \<Rightarrow> JobProto \<Rightarrow> JobProto" where
  "wrapJob_UpdateReadyAt nowSeconds j = j\<lparr>jp_ReadyAt := wrap64 (nowSeconds + jp_Delay j)\<rparr>"

definition wrapJob_UpdateState :: "JobState \<Rightarrow> JobProto \<Rightarrow> JobProto" where
  "wrapJob_UpdateState newState j = j\<lparr>jp_State := newState\<rparr>"

definition wrapJob_UpdateReservedBy :: "ClientID \<Rightarrow> JobProto \<Rightarrow> JobProto" where
  "wrapJob_UpdateReservedBy clientID j = j\<lparr>jp_ReservedBy := clientID\<rparr>"

definition wrapJob_UpdateReservation :: "int64 \<Rightarrow> JobProto \<Rightarrow> JobProto" where
  "wrapJob_UpdateReservation nowSeconds j = j\<lparr>jp_ExpiresAt := wrap64 (nowSeconds + jp_Ttr j)\<rparr>"

definition wrapJob_ResetBuriedAt :: "JobProto \<Rightarrow> JobProto" where
  "wrapJob_ResetBuriedAt j = j\<lparr>jp_BuriedAt := 0\<rparr>"

definition wrapJob_UpdateBuriedAt :: "int64 \<Rightarrow> JobProto \<Rightarrow> JobProto" where
  "wrapJob_UpdateBuriedAt nowSeconds j = j\<lparr>jp_BuriedAt := nowSeconds\<rparr>"

definition wrapJob_IncReserveCount :: "JobProto \<Rightarrow> JobProto" where
  "wrapJob_IncReserveCount j = j\<lparr>jp_ReserveCount := jp_ReserveCount j + 1\<rparr>"

definition wrapJob_IncTimeoutCount :: "JobProto \<Rightarrow> JobProto" where
  "wrapJob_IncTimeoutCount j = j\<lparr>jp_TimeoutCount := jp_TimeoutCount j + 1\<rparr>"

definition wrapJob_IncReleaseCount :: "JobProto \<Rightarrow> JobProto" where
  "wrapJob_IncReleaseCount j = j\<lparr>jp_ReleaseCount := jp_ReleaseCount j + 1\<rparr>"

definition wrapJob_IncBuryCount :: "JobProto \<Rightarrow> JobProto" where
  "wrapJob_IncBuryCount j = j\<lparr>jp_BuryCount := jp_BuryCount j + 1\<rparr>"

definition wrapJob_IncKickCount :: "JobProto \<Rightarrow> JobProto" where
  "wrapJob_IncKickCount j = j\<lparr>jp_KickCount := jp_KickCount j + 1\<rparr>"

subsection \<open>Dynamic dispatch\<close>

fun ID :: "Job \<Rightarrow> JobID" where
  "ID (LocalJob j) = localJob_ID j"
| "ID (WrapJob j) = wrapJob_ID j"

fun Priority :: "Job \<Rightarrow> uint32" where
  "Priority (LocalJob j) = localJob_Priority j"
| "Priority (WrapJob j) = wrapJob_Priority j"

fun Delay :: "Job \<Rightarrow> int64" where
  "Delay (LocalJob j) = localJob_Delay j"
| "Delay (WrapJob j) = wrapJob_Delay j"

fun TTR :: "Job \<Rightarrow> int64" where
  "TTR (LocalJob j) = localJob_TTR j"
| "TTR (WrapJob j) = wrapJob_TTR j"

fun BodySize :: "Job \<Rightarrow> int64" where
  "BodySize (LocalJob j) = localJob_BodySize j"
| "BodySize (WrapJob j) = wrapJob_BodySize j"

fun Body :: "Job \<Rightarrow> bytes" where
  "Body (LocalJob j) = localJob_Body j"
| "Body (WrapJob j) = wrapJob_Body j"

fun TubeName :: "Job \<Rightarrow> TubeName" where
  "TubeName (LocalJob j) = localJob_TubeName j"
| "TubeName (WrapJob j) = wrapJob_TubeName j"

fun CreatedAt :: "Job \<Rightarrow> int64" where
  "CreatedAt (LocalJob j) = localJob_CreatedAt j"
| "CreatedAt (WrapJob j) = wrapJob_CreatedAt j"

fun ReadyAt :: "Job \<Rightarrow> int64" where
  "ReadyAt (LocalJob j) = localJob_ReadyAt j"
| "ReadyAt (WrapJob j) = wrapJob_ReadyAt j"

fun State :: "Job \<Rightarrow> JobState" where
  "State (LocalJob j) = localJob_State j"
| "State (WrapJob j) = wrapJob_State j"

fun ExpiresAt :: "Job \<Rightarrow> int64" where
  "ExpiresAt (LocalJob j) = localJob_ExpiresAt j"
| "ExpiresAt (WrapJob j) = wrapJob_ExpiresAt j"

fun ReservedBy :: "Job \<Rightarrow> ClientID" where
  "ReservedBy (LocalJob j) = localJob_ReservedBy j"
| "ReservedBy (WrapJob j) = wrapJob_ReservedBy j"

fun BuriedAt :: "Job \<Rightarrow> int64" where
  "BuriedAt (LocalJob j) = localJob_BuriedAt j"
| "BuriedAt (WrapJob j) = wrapJob_BuriedAt j"

fun ReserveCount :: "Job \<Rightarrow> uint32" where
  "ReserveCount (LocalJob j) = localJob_ReserveCount j"
| "ReserveCount (WrapJob j) = wrapJob_ReserveCount j"

fun TimeoutCount :: "Job \<Rightarrow> uint32" where
  "TimeoutCount (LocalJob j) = localJob_TimeoutCount j"
| "TimeoutCount (WrapJob j) = wrapJob_TimeoutCount j"

fun ReleaseCount :: "Job \<Rightarrow> uint32" where
  "ReleaseCount (LocalJob j) = localJob_ReleaseCount j"
| "ReleaseCount (WrapJob j) = wrapJob_ReleaseCount j"

fun BuryCount :: "Job \<Rightarrow> uint32" where
  "BuryCount (LocalJob j) = localJob_BuryCount j"
| "BuryCount (WrapJob j) = wrapJob_BuryCount j"

fun KickCount :: "Job \<Rightarrow> uint32" where
  "KickCount (LocalJob j) = localJob_KickCount j"
| "KickCount (WrapJob j) = wrapJob_KickCount j"

fun UpdatePriority :: "uint32 \<Rightarrow> Job \<Rightarrow> Job" where
  "UpdatePriority newPriority (LocalJob j) = LocalJob (localJob_UpdatePriority newPriority j)"
| "UpdatePriority newPriority (WrapJob j) = WrapJob (wrapJob_UpdatePriority newPriority j)"

fun UpdateDelay :: "int64 \<Rightarrow> Job \<Rightarrow> Job" where
  "UpdateDelay newDelay (LocalJob j) = LocalJob (localJob_UpdateDelay newDelay j)"
| "UpdateDelay newDelay (WrapJob j) = WrapJob (wrapJob_UpdateDelay newDelay j)"

fun UpdateReadyAt :: "int64 \<Rightarrow> Job \<Rightarrow> Job" where
  "UpdateReadyAt nowSeconds (LocalJob j) = LocalJob (localJob_UpdateReadyAt nowSeconds j)"
| "UpdateReadyAt nowSeconds (WrapJob j) = WrapJob (wrapJob_UpdateReadyAt nowSeconds j)"

fun UpdateState :: "JobState \<Rightarrow> Job \<Rightarrow> Job" where
  "UpdateState newState (LocalJob j) = LocalJob (localJob_UpdateState newState j)"
| "UpdateState newState (WrapJob j) = WrapJob (wrapJob_UpdateState newState j)"

fun UpdateReservedBy :: "ClientID \<Rightarrow> Job \<Rightarrow> Job" where
  "UpdateReservedBy clientID (LocalJob j) = LocalJob (localJob_UpdateReservedBy clientID j)"
| "UpdateReservedBy clientID (WrapJob j) = WrapJob (wrapJob_UpdateReservedBy clientID j)"

fun UpdateReservation :: "int64 \<Rightarrow> Job \<Rightarrow> Job" where
  "UpdateReservation nowSeconds (LocalJob j) = LocalJob (localJob_UpdateReservation nowSeconds j)"
| "UpdateReservation nowSeconds (WrapJob j) = WrapJob (wrapJob_UpdateReservation nowSeconds j)"

fun ResetBuriedAt :: "Job \<Rightarrow> Job" where
  "ResetBuriedAt (LocalJob j) = LocalJob (localJob_ResetBuriedAt j)"
| "ResetBuriedAt (WrapJob j) = WrapJob (wrapJob_ResetBuriedAt j)"

fun UpdateBuriedAt :: "int64 \<Rightarrow> Job \<Rightarrow> Job" where
  "UpdateBuriedAt nowSeconds (LocalJob j) = LocalJob (localJob_UpdateBuriedAt nowSeconds j)"
| "UpdateBuriedAt nowSeconds (WrapJob j) = WrapJob (wrapJob_UpdateBuriedAt nowSeconds j)"

fun IncReserveCount :: "Job \<Rightarrow> Job" where
  "IncReserveCount (LocalJob j) = LocalJob (localJob_IncReserveCount j)"
| "IncReserveCount (WrapJob j) = WrapJob (wrapJob_IncReserveCount j)"

fun IncTimeoutCount :: "Job \<Rightarrow> Job" where
  "IncTimeoutCount (LocalJob j) = LocalJob (localJob_IncTimeoutCount j)"
| "IncTimeoutCount (WrapJob j) = WrapJob (wrapJob_IncTimeoutCount j)"

fun IncReleaseCount :: "Job \<Rightarrow> Job" where
  "IncReleaseCount (LocalJob j) = LocalJob (localJob_IncReleaseCount j)"
| "IncReleaseCount (WrapJob j) = WrapJob (wrapJob_IncReleaseCount j)"

fun IncBuryCount :: "Job \<Rightarrow> Job" where
  "IncBuryCount (LocalJob j) = LocalJob (localJob_IncBuryCount j)"
| "IncBuryCount (WrapJob j) = WrapJob (wrapJob_IncBuryCount j)"

fun IncKickCount :: "Job \<Rightarrow> Job" where
  "IncKickCount (LocalJob j) = LocalJob (localJob_IncKickCount j)"
| "IncKickCount (WrapJob j) = WrapJob (wrapJob_IncKickCount j)"

section \<open>The contract of the interface\<close>

text \<open>The fields a job shows through its getters.\<close>

definition wrapJob_view :: "JobProto \<Rightarrow> localJob" where
  "wrapJob_view j = \<lparr>job_id = wrapJob_ID j,
     priority = wrapJob_Priority j,
     delay = wrapJob_Delay j,
     ttr = wrapJob_TTR j,
     bodySize = wrapJob_BodySize j,
     body = wrapJob_Body j,
     tubeName = wrapJob_TubeName j,
     createdAt = wrapJob_CreatedAt j,
     readyAt = wrapJob_ReadyAt j,
     state = wrapJob_State j,
     expiresAt = wrapJob_ExpiresAt j,
     reservedBy = wrapJob_ReservedBy j,
     buriedAt = wrapJob_BuriedAt j,
     reserveCount = wrapJob_ReserveCount j,
     timeoutCount = wrapJob_TimeoutCount j,
     releaseCount = wrapJob_ReleaseCount j,
     buryCount = wrapJob_BuryCount j,
     kickCount = wrapJob_KickCount j\<rparr>"

fun view :: "Job \<Rightarrow> localJob" where
  "view (LocalJob j) = j"
| "view (WrapJob j) = wrapJob_view j"

text \<open>
  \<open>clears j\<close>: whether \<^verbatim>\<open>UpdateState\<close> clears the burial time when the job leaves the
  buried state. A \<^verbatim>\<open>localJob\<close> does, a \<^verbatim>\<open>wrapJob\<close> does not.
\<close>

locale job_contract =
  fixes view :: "'j \<Rightarrow> localJob"
    and clears :: "'j \<Rightarrow> bool"
    and UpdatePriority :: "uint32 \<Rightarrow> 'j \<Rightarrow> 'j"
    and UpdateDelay :: "int64 \<Rightarrow> 'j \<Rightarrow> 'j"
    and UpdateReadyAt :: "int64 \<Rightarrow> 'j \<Rightarrow> 'j"
    and UpdateState :: "JobState \<Rightarrow> 'j \<Rightarrow> 'j"
    and UpdateReservedBy :: "ClientID \<Rightarrow> 'j \<Rightarrow> 'j"
    and UpdateReservation :: "int64 \<Rightarrow> 'j \<Rightarrow> 'j"
    and ResetBuriedAt :: "'j \<Rightarrow> 'j"
    and UpdateBuriedAt :: "int64 \<Rightarrow> 'j \<Rightarrow> 'j"
    and IncReserveCount :: "'j \<Rightarrow> 'j"
    and IncTimeoutCount :: "'j \<Rightarrow> 'j"
    and IncReleaseCount :: "'j \<Rightarrow> 'j"
    and IncBuryCount :: "'j \<Rightarrow> 'j"
    and IncKickCount :: "'j \<Rightarrow> 'j"
  assumes view_UpdatePriority: "view (UpdatePriority newPriority j) = view j\<lparr>priority := newPriority\<rparr>"
    and view_UpdateDelay: "view (UpdateDelay newDelay j) = view j\<lparr>delay := newDelay\<rparr>"
    and view_UpdateReadyAt: "view (UpdateReadyAt nowSeconds j) = view j\<lparr>readyAt := wrap64 (nowSeconds + delay (view j))\<rparr>"
    and view_UpdateState: "view (UpdateState newState j) = view j\<lparr>state := newState, buriedAt :=
          (if state (view j) = Buried \<and> clears j then 0 else buriedAt (view j))\<rparr>"
    and view_UpdateReservedBy: "view (UpdateReservedBy clientID j) = view j\<lparr>reservedBy := clientID\<rparr>"
    and view_UpdateReservation: "view (UpdateReservation nowSeconds j) = view j\<lparr>expiresAt := wrap64 (nowSeconds + ttr (view j))\<rparr>"
    and view_ResetBuriedAt: "view (ResetBuriedAt j) = view j\<lparr>buriedAt := 0\<rparr>"
    and view_UpdateBuriedAt: "view (UpdateBuriedAt nowSeconds j) = view j\<lparr>buriedAt := nowSeconds\<rparr>"
    and view_IncReserveCount: "view (IncReserveCount j) = view j\<lparr>reserveCount := reserveCount (view j) + 1\<rparr>"
    and view_IncTimeoutCount: "view (IncTimeoutCount j) = view j\<lparr>timeoutCount := timeoutCount (view j) + 1\<rparr>"
    and view_IncReleaseCount: "view (IncReleaseCount j) = view j\<lparr>releaseCount := releaseCount (view j) + 1\<rparr>"
    and view_IncBuryCount: "view (IncBuryCount j) = view j\<lparr>buryCount := buryCount (view j) + 1\<rparr>"
    and view_IncKickCount: "view (IncKickCount j) = view j\<lparr>kickCount := kickCount (view j) + 1\<rparr>"
begin

text \<open>
  The identity of a job, its tube, its body and its creation time never change, whatever
  is called on it.
\<close>

abbreviation fixed_part :: "localJob \<Rightarrow> uint64 \<times> TubeName \<times> bytes \<times> int64 \<times> int64 \<times> int64" where
  "fixed_part v \<equiv> (job_id v, tubeName v, body v, bodySize v, ttr v, createdAt v)"

lemmas view_laws =
  view_UpdatePriority view_UpdateDelay view_UpdateReadyAt
  view_UpdateState view_UpdateReservedBy view_UpdateReservation
  view_ResetBuriedAt view_UpdateBuriedAt view_IncReserveCount
  view_IncTimeoutCount view_IncReleaseCount view_IncBuryCount
  view_IncKickCount

lemma fixed_part_kept:
  "fixed_part (view (UpdatePriority newPriority j)) = fixed_part (view j)"
  "fixed_part (view (UpdateDelay newDelay j)) = fixed_part (view j)"
  "fixed_part (view (UpdateReadyAt nowSeconds j)) = fixed_part (view j)"
  "fixed_part (view (UpdateState newState j)) = fixed_part (view j)"
  "fixed_part (view (UpdateReservedBy clientID j)) = fixed_part (view j)"
  "fixed_part (view (UpdateReservation nowSeconds j)) = fixed_part (view j)"
  "fixed_part (view (ResetBuriedAt j)) = fixed_part (view j)"
  "fixed_part (view (UpdateBuriedAt nowSeconds j)) = fixed_part (view j)"
  "fixed_part (view (IncReserveCount j)) = fixed_part (view j)"
  "fixed_part (view (IncTimeoutCount j)) = fixed_part (view j)"
  "fixed_part (view (IncReleaseCount j)) = fixed_part (view j)"
  "fixed_part (view (IncBuryCount j)) = fixed_part (view j)"
  "fixed_part (view (IncKickCount j)) = fixed_part (view j)"
  by (simp_all add: view_laws)

end

lemmas localJob_defs =
  localJob_ID_def localJob_Priority_def localJob_Delay_def
  localJob_TTR_def localJob_BodySize_def localJob_Body_def
  localJob_TubeName_def localJob_CreatedAt_def localJob_ReadyAt_def
  localJob_State_def localJob_ExpiresAt_def localJob_ReservedBy_def
  localJob_BuriedAt_def localJob_ReserveCount_def localJob_TimeoutCount_def
  localJob_ReleaseCount_def localJob_BuryCount_def localJob_KickCount_def
  localJob_UpdatePriority_def localJob_UpdateDelay_def localJob_UpdateReadyAt_def
  localJob_UpdateState_def localJob_UpdateReservedBy_def localJob_UpdateReservation_def
  localJob_ResetBuriedAt_def localJob_UpdateBuriedAt_def localJob_IncReserveCount_def
  localJob_IncTimeoutCount_def localJob_IncReleaseCount_def localJob_IncBuryCount_def
  localJob_IncKickCount_def

lemmas wrapJob_defs =
  wrapJob_ID_def wrapJob_Priority_def wrapJob_Delay_def
  wrapJob_TTR_def wrapJob_BodySize_def wrapJob_Body_def
  wrapJob_TubeName_def wrapJob_CreatedAt_def wrapJob_ReadyAt_def
  wrapJob_State_def wrapJob_ExpiresAt_def wrapJob_ReservedBy_def
  wrapJob_BuriedAt_def wrapJob_ReserveCount_def wrapJob_TimeoutCount_def
  wrapJob_ReleaseCount_def wrapJob_BuryCount_def wrapJob_KickCount_def
  wrapJob_UpdatePriority_def wrapJob_UpdateDelay_def wrapJob_UpdateReadyAt_def
  wrapJob_UpdateState_def wrapJob_UpdateReservedBy_def wrapJob_UpdateReservation_def
  wrapJob_ResetBuriedAt_def wrapJob_UpdateBuriedAt_def wrapJob_IncReserveCount_def
  wrapJob_IncTimeoutCount_def wrapJob_IncReleaseCount_def wrapJob_IncBuryCount_def
  wrapJob_IncKickCount_def wrapJob_view_def

interpretation local_job: job_contract "\<lambda>j. j" "\<lambda>_. True"
  localJob_UpdatePriority localJob_UpdateDelay localJob_UpdateReadyAt localJob_UpdateState
  localJob_UpdateReservedBy localJob_UpdateReservation localJob_ResetBuriedAt localJob_UpdateBuriedAt
  localJob_IncReserveCount localJob_IncTimeoutCount localJob_IncReleaseCount localJob_IncBuryCount
  localJob_IncKickCount
  by unfold_locales (simp_all add: localJob_defs Let_def)

interpretation wrap_job: job_contract wrapJob_view "\<lambda>_. False"
  wrapJob_UpdatePriority wrapJob_UpdateDelay wrapJob_UpdateReadyAt wrapJob_UpdateState
  wrapJob_UpdateReservedBy wrapJob_UpdateReservation wrapJob_ResetBuriedAt wrapJob_UpdateBuriedAt
  wrapJob_IncReserveCount wrapJob_IncTimeoutCount wrapJob_IncReleaseCount wrapJob_IncBuryCount
  wrapJob_IncKickCount
  by unfold_locales (simp_all add: wrapJob_defs)

fun is_local :: "Job \<Rightarrow> bool" where
  "is_local (LocalJob _) = True"
| "is_local (WrapJob _) = False"

lemma view_dispatch:
  "view (UpdatePriority newPriority j) = view j\<lparr>priority := newPriority\<rparr>"
  "view (UpdateDelay newDelay j) = view j\<lparr>delay := newDelay\<rparr>"
  "view (UpdateReadyAt nowSeconds j) = view j\<lparr>readyAt := wrap64 (nowSeconds + delay (view j))\<rparr>"
  "view (UpdateState newState j) = view j\<lparr>state := newState, buriedAt :=
          (if state (view j) = Buried \<and> is_local j then 0 else buriedAt (view j))\<rparr>"
  "view (UpdateReservedBy clientID j) = view j\<lparr>reservedBy := clientID\<rparr>"
  "view (UpdateReservation nowSeconds j) = view j\<lparr>expiresAt := wrap64 (nowSeconds + ttr (view j))\<rparr>"
  "view (ResetBuriedAt j) = view j\<lparr>buriedAt := 0\<rparr>"
  "view (UpdateBuriedAt nowSeconds j) = view j\<lparr>buriedAt := nowSeconds\<rparr>"
  "view (IncReserveCount j) = view j\<lparr>reserveCount := reserveCount (view j) + 1\<rparr>"
  "view (IncTimeoutCount j) = view j\<lparr>timeoutCount := timeoutCount (view j) + 1\<rparr>"
  "view (IncReleaseCount j) = view j\<lparr>releaseCount := releaseCount (view j) + 1\<rparr>"
  "view (IncBuryCount j) = view j\<lparr>buryCount := buryCount (view j) + 1\<rparr>"
  "view (IncKickCount j) = view j\<lparr>kickCount := kickCount (view j) + 1\<rparr>"
  by (cases j; simp add: local_job.view_laws wrap_job.view_laws)+

interpretation job: job_contract view is_local
  UpdatePriority UpdateDelay UpdateReadyAt UpdateState
  UpdateReservedBy UpdateReservation ResetBuriedAt UpdateBuriedAt
  IncReserveCount IncTimeoutCount IncReleaseCount IncBuryCount
  IncKickCount
  by unfold_locales (rule view_dispatch)+

text \<open>Every getter reads its field of the view.\<close>

lemma getter_view [job_simps]:
  "ID j = job_id (view j)"
  "Priority j = priority (view j)"
  "Delay j = delay (view j)"
  "TTR j = ttr (view j)"
  "BodySize j = bodySize (view j)"
  "Body j = body (view j)"
  "TubeName j = tubeName (view j)"
  "CreatedAt j = createdAt (view j)"
  "ReadyAt j = readyAt (view j)"
  "State j = state (view j)"
  "ExpiresAt j = expiresAt (view j)"
  "ReservedBy j = reservedBy (view j)"
  "BuriedAt j = buriedAt (view j)"
  "ReserveCount j = reserveCount (view j)"
  "TimeoutCount j = timeoutCount (view j)"
  "ReleaseCount j = releaseCount (view j)"
  "BuryCount j = buryCount (view j)"
  "KickCount j = kickCount (view j)"
  by (cases j; simp add: localJob_defs wrapJob_defs)+

lemmas view_simps [job_simps] = job.view_laws

section \<open>Statistics and reservations\<close>

datatype yaml_value = YStr string | YInt int

definition to_lower_char :: "char \<Rightarrow> char" where
  "to_lower_char c =
     (if CHR ''A'' \<le> c \<and> c \<le> CHR ''Z'' then char_of (of_char c + (32 :: nat)) else c)"

definition ToLower :: "string \<Rightarrow> string" where
  "ToLower s = map to_lower_char s"

definition GetStatistics :: "int64 \<Rightarrow> Job \<Rightarrow> (string, yaml_value) gomap" where
  "GetStatistics nowSecs j =
     (let jobState = JobState_String (State j);
          age = wrap64 (nowSecs - CreatedAt j);
          timeLeft = 0;
          timeLeft =
            (if State j = Delayed
             then (let t = wrap64 (ReadyAt j - nowSecs) in if t < 0 then 0 else t)
             else timeLeft);
          timeLeft =
            (if State j = Reserved
             then (let t = wrap64 (ExpiresAt j - nowSecs) in if t < 0 then 0 else t)
             else timeLeft)
      in [(''id'', YInt (uint (ID j))),
          (''tube'', YStr (TubeName j)),
          (''state'', YStr (ToLower jobState)),
          (''pri'', YInt (uint (Priority j))),
          (''age'', YInt age),
          (''delay'', YInt (Delay j)),
          (''ttr'', YInt (TTR j)),
          (''time-left'', YInt timeLeft),
          (''file'', YInt 0),
          (''reserves'', YInt (uint (ReserveCount j))),
          (''timeouts'', YInt (uint (TimeoutCount j))),
          (''releases'', YInt (uint (ReleaseCount j))),
          (''buries'', YInt (uint (BuryCount j))),
          (''kicks'', YInt (uint (KickCount j)))])"

datatype ReservationStatus = Unknown | Queued | DeadlineSoon | Matched | Timeout | Error

record Reservation =
  rv_RequestId :: string
  rv_ClientId :: ClientID
  rv_JobId :: JobID
  rv_Status :: ReservationStatus
  rv_BodySize :: int64
  rv_Body :: "bytes option"
  rv_Error :: "error option"

lemma JobState_String_eq:
  "map JobState_String [Initial, Ready, Reserved, Buried, Delayed, Deleted] =
     [''Initial'', ''Ready'', ''Reserved'', ''Buried'', ''Delayed'', ''Deleted'']"
  by (simp add: JobState_String_def JobState_index_def JobState_name_def)

section \<open>Properties\<close>

text \<open>
  C29: a job restored from a snapshot answers like the job it was taken from: whatever update is
  called on it, its getters afterwards read what they would read had the same update been
  called on a local job with the same fields; leaving the buried state is the exception,
  where the restored job keeps its burial time.
\<close>

theorem wrapJob_like_localJob:
  "wrapJob_view (wrapJob_UpdatePriority p j) = localJob_UpdatePriority p (wrapJob_view j) \<and>
   wrapJob_view (wrapJob_UpdateDelay d j) = localJob_UpdateDelay d (wrapJob_view j) \<and>
   wrapJob_view (wrapJob_UpdateReadyAt now j) = localJob_UpdateReadyAt now (wrapJob_view j) \<and>
   wrapJob_view (wrapJob_UpdateState st j) =
      (if wrapJob_State j = Buried then wrapJob_view j\<lparr>state := st\<rparr> else localJob_UpdateState st (wrapJob_view j)) \<and>
   wrapJob_view (wrapJob_UpdateReservedBy c j) = localJob_UpdateReservedBy c (wrapJob_view j) \<and>
   wrapJob_view (wrapJob_UpdateReservation now j) = localJob_UpdateReservation now (wrapJob_view j) \<and>
   wrapJob_view (wrapJob_ResetBuriedAt j) = localJob_ResetBuriedAt (wrapJob_view j) \<and>
   wrapJob_view (wrapJob_UpdateBuriedAt now j) = localJob_UpdateBuriedAt now (wrapJob_view j) \<and>
   wrapJob_view (wrapJob_IncReserveCount j) = localJob_IncReserveCount (wrapJob_view j) \<and>
   wrapJob_view (wrapJob_IncTimeoutCount j) = localJob_IncTimeoutCount (wrapJob_view j) \<and>
   wrapJob_view (wrapJob_IncReleaseCount j) = localJob_IncReleaseCount (wrapJob_view j) \<and>
   wrapJob_view (wrapJob_IncBuryCount j) = localJob_IncBuryCount (wrapJob_view j) \<and>
   wrapJob_view (wrapJob_IncKickCount j) = localJob_IncKickCount (wrapJob_view j)"
  by (intro conjI; simp add: local_job.view_laws wrap_job.view_laws) (simp_all add: wrapJob_view_def)

end
