(* ===== verification/Memory.thy ===== *)
theory Memory
  imports Job
begin

text \<open>
  The Go objects that components share by pointer, as an explicit store. A reference is a
  number; the store holds the jobs, the heap entries of jobs (\<^verbatim>\<open>JobEntry\<close>) and the
  client entries (\<^verbatim>\<open>ClientResvEntry\<close>), and the next free reference. An object that
  was never allocated reads as the zero value of its type.
\<close>

type_synonym ref = nat

text \<open>\<^verbatim>\<open>JobEntry\<close>: an entry of a job heap, embedding a job, with its index in the heap.\<close>

record JobEntry =
  je_Job :: ref
  je_index :: int

record ClientResvEntry =
  CliID :: ClientID
  WatchedTubes :: "TubeName list"
  ResvDeadlineAt :: int64
  IsWaitingForResv :: bool
  TickAt :: int64
  ReqID :: string
  HeapIndex :: int

record mem =
  m_jobs :: "ref \<Rightarrow> Job"
  m_entries :: "ref \<Rightarrow> JobEntry"
  m_clients :: "ref \<Rightarrow> ClientResvEntry"
  m_next :: ref

definition zero_job :: Job where
  "zero_job = LocalJob \<lparr>job_id = 0, priority = 0, delay = 0, ttr = 0, bodySize = 0, body = [],
     tubeName = [], createdAt = 0, readyAt = 0, state = Initial, expiresAt = 0,
     reservedBy = [], buriedAt = 0, reserveCount = 0, timeoutCount = 0, releaseCount = 0,
     buryCount = 0, kickCount = 0\<rparr>"

definition zero_client :: ClientResvEntry where
  "zero_client = \<lparr>CliID = [], WatchedTubes = [], ResvDeadlineAt = 0, IsWaitingForResv = False,
     TickAt = 0, ReqID = [], HeapIndex = 0\<rparr>"

definition empty_mem :: mem where
  "empty_mem = \<lparr>m_jobs = (\<lambda>_. zero_job), m_entries = (\<lambda>_. \<lparr>je_Job = 0, je_index = 0\<rparr>),
     m_clients = (\<lambda>_. zero_client), m_next = 0\<rparr>"

definition new_job :: "mem \<Rightarrow> Job \<Rightarrow> mem \<times> ref" where
  "new_job m j =
     (m\<lparr>m_jobs := (m_jobs m)(m_next m := j), m_next := Suc (m_next m)\<rparr>, m_next m)"

definition new_entry :: "mem \<Rightarrow> JobEntry \<Rightarrow> mem \<times> ref" where
  "new_entry m e =
     (m\<lparr>m_entries := (m_entries m)(m_next m := e), m_next := Suc (m_next m)\<rparr>, m_next m)"

definition new_client :: "mem \<Rightarrow> ClientResvEntry \<Rightarrow> mem \<times> ref" where
  "new_client m c =
     (m\<lparr>m_clients := (m_clients m)(m_next m := c), m_next := Suc (m_next m)\<rparr>, m_next m)"

definition upd_job :: "mem \<Rightarrow> ref \<Rightarrow> (Job \<Rightarrow> Job) \<Rightarrow> mem" where
  "upd_job m r f = m\<lparr>m_jobs := (m_jobs m)(r := f (m_jobs m r))\<rparr>"

definition upd_client :: "mem \<Rightarrow> ref \<Rightarrow> (ClientResvEntry \<Rightarrow> ClientResvEntry) \<Rightarrow> mem" where
  "upd_client m r f = m\<lparr>m_clients := (m_clients m)(r := f (m_clients m r))\<rparr>"

definition set_index :: "mem \<Rightarrow> ref \<Rightarrow> int \<Rightarrow> mem" where
  "set_index m r i = m\<lparr>m_entries := (m_entries m)(r := (m_entries m r)\<lparr>je_index := i\<rparr>)\<rparr>"

text \<open>The job an entry embeds.\<close>

definition job_of :: "mem \<Rightarrow> ref \<Rightarrow> Job" where
  "job_of m e = m_jobs m (je_Job (m_entries m e))"

lemmas mem_defs = new_job_def new_entry_def new_client_def upd_job_def upd_client_def
  set_index_def job_of_def

end
