(* ===== verification/Go_Heap.thy ===== *)
theory Go_Heap
  imports Prelude
begin

text \<open>
  Go's \<^verbatim>\<open>container/heap\<close>, the binary heap that \<^verbatim>\<open>state/job_heap.go\<close> and
  \<^verbatim>\<open>state/client_resv.go\<close> are built on, over an arbitrary implementation of
  \<^verbatim>\<open>heap.Interface\<close> with state type \<open>'s\<close> and element type \<open>'x\<close>. The locale
  \<open>heap_interface\<close> states what an implementation promises (its slice of elements, that
  \<open>Swap\<close>, \<open>Push\<close> and \<open>Pop\<close> act on that slice, that \<open>Less\<close> compares a key) and proves, once
  for every implementation, that \<open>Push\<close>, \<open>Pop\<close>, \<open>Remove\<close>, \<open>Fix\<close> and \<open>Init\<close> keep the
  elements and the order of the heap.
\<close>

section \<open>The library's functions\<close>

record ('s, 'x) heap_Interface =
  Len :: "'s \<Rightarrow> nat"
  Less :: "'s \<Rightarrow> nat \<Rightarrow> nat \<Rightarrow> bool"
  Swap :: "'s \<Rightarrow> nat \<Rightarrow> nat \<Rightarrow> 's"
  Push :: "'s \<Rightarrow> 'x \<Rightarrow> 's"
  Pop :: "'s \<Rightarrow> 's \<times> 'x"

function heap_up :: "('s, 'x) heap_Interface \<Rightarrow> 's \<Rightarrow> nat \<Rightarrow> 's" where
  "heap_up h s j =
     (let i = (j - 1) div 2
      in if i = j \<or> \<not> Less h s j i then s else heap_up h (Swap h s i j) i)"
  by pat_completeness auto
termination
  by (relation "measure (\<lambda>(h, s, j). j)") auto

declare heap_up.simps [simp del]

function heap_down ::
    "('s, 'x) heap_Interface \<Rightarrow> 's \<Rightarrow> nat \<Rightarrow> nat \<Rightarrow> 's \<times> nat" where
  "heap_down h s i n =
     (let j1 = 2 * i + 1
      in if n \<le> j1 then (s, i)
         else
           (let j = (if j1 + 1 < n \<and> Less h s (j1 + 1) j1 then j1 + 1 else j1)
            in if \<not> Less h s j i then (s, i) else heap_down h (Swap h s i j) j n))"
  by pat_completeness auto
termination
  by (relation "measure (\<lambda>(h, s, i, n). n - i)") auto

declare heap_down.simps [simp del]

definition heap_Push :: "('s, 'x) heap_Interface \<Rightarrow> 's \<Rightarrow> 'x \<Rightarrow> 's" where
  "heap_Push h s x = (let s' = Push h s x in heap_up h s' (Len h s' - 1))"

definition heap_Pop :: "('s, 'x) heap_Interface \<Rightarrow> 's \<Rightarrow> 's \<times> 'x" where
  "heap_Pop h s =
     (let n = Len h s - 1;
          (s', _) = heap_down h (Swap h s 0 n) 0 n
      in Pop h s')"

text \<open>\<^verbatim>\<open>Fix\<close>: \<^verbatim>\<open>if !down(h, i, h.Len()) { up(h, i) }\<close>.\<close>

definition heap_down_or_up :: "('s, 'x) heap_Interface \<Rightarrow> 's \<Rightarrow> nat \<Rightarrow> nat \<Rightarrow> 's" where
  "heap_down_or_up h s i n =
     (let (s', i') = heap_down h s i n in if i < i' then s' else heap_up h s' i)"

definition heap_Remove :: "('s, 'x) heap_Interface \<Rightarrow> 's \<Rightarrow> nat \<Rightarrow> 's \<times> 'x" where
  "heap_Remove h s i =
     (let n = Len h s - 1
      in Pop h (if n \<noteq> i then heap_down_or_up h (Swap h s i n) i n else s))"

definition heap_Fix :: "('s, 'x) heap_Interface \<Rightarrow> 's \<Rightarrow> nat \<Rightarrow> 's" where
  "heap_Fix h s i = heap_down_or_up h s i (Len h s)"

text \<open>\<^verbatim>\<open>for i := n/2 - 1; i >= 0; i-- { down(h, i, n) }\<close>; the argument is \<open>i + 1\<close>.\<close>

primrec heap_Init_loop :: "('s, 'x) heap_Interface \<Rightarrow> nat \<Rightarrow> 's \<Rightarrow> nat \<Rightarrow> 's" where
  "heap_Init_loop h n s 0 = s"
| "heap_Init_loop h n s (Suc i) = heap_Init_loop h n (fst (heap_down h s i n)) i"

definition heap_Init :: "('s, 'x) heap_Interface \<Rightarrow> 's \<Rightarrow> 's" where
  "heap_Init h s = (let n = Len h s in heap_Init_loop h n s (n div 2))"

section \<open>The heap order on a slice\<close>

definition parent :: "nat \<Rightarrow> nat" where
  "parent k = (k - 1) div 2"

text \<open>
  \<open>heap_ok f xs lo n A\<close>: in the first \<open>n\<close> elements every position outside \<open>A\<close> whose
  parent is at least \<open>lo\<close> has a key no smaller than its parent's.
\<close>

definition heap_ok :: "('x \<Rightarrow> 'k::linorder) \<Rightarrow> 'x list \<Rightarrow> nat \<Rightarrow> nat \<Rightarrow> nat set \<Rightarrow> bool" where
  "heap_ok f xs lo n A \<longleftrightarrow>
     (\<forall>k < n. 0 < k \<longrightarrow> lo \<le> parent k \<longrightarrow> k \<notin> A \<longrightarrow> f (xs ! parent k) \<le> f (xs ! k))"

definition heap_ordered :: "('x \<Rightarrow> 'k::linorder) \<Rightarrow> 'x list \<Rightarrow> bool" where
  "heap_ordered f xs \<longleftrightarrow> heap_ok f xs 0 (length xs) {}"

text \<open>The children of \<open>i\<close> are no smaller than the parent of \<open>i\<close>.\<close>

definition grand_ok :: "('x \<Rightarrow> 'k::linorder) \<Rightarrow> 'x list \<Rightarrow> nat \<Rightarrow> nat \<Rightarrow> nat \<Rightarrow> bool" where
  "grand_ok f xs lo n i \<longleftrightarrow>
     (0 < i \<longrightarrow> lo \<le> parent i \<longrightarrow>
        (\<forall>c < n. 0 < c \<longrightarrow> parent c = i \<longrightarrow> f (xs ! parent i) \<le> f (xs ! c)))"

abbreviation children :: "nat \<Rightarrow> nat set" where
  "children i \<equiv> {k. 0 < k \<and> parent k = i}"

lemma parent_less [simp]: "0 < k \<Longrightarrow> parent k < k"
  by (auto simp: parent_def)

lemma parent_0 [simp]: "parent 0 = 0"
  by (simp add: parent_def)

lemma parent_eq_self [simp]: "parent k = k \<longleftrightarrow> k = 0"
  by (auto simp: parent_def)

lemma parent_le_trans [simp]: "k < n \<Longrightarrow> parent k < n"
  by (auto simp: parent_def)

lemma parent_children [simp]: "parent (Suc (2 * i)) = i" "parent (Suc (Suc (2 * i))) = i"
  by (simp_all add: parent_def)

lemma parent_eq_iff: "0 < k \<Longrightarrow> parent k = i \<longleftrightarrow> k = 2 * i + 1 \<or> k = 2 * i + 2"
  by (auto simp: parent_def)

lemma heap_up_parent:
  "heap_up h s j =
     (if j = 0 \<or> \<not> Less h s j (parent j) then s
      else heap_up h (Swap h s (parent j) j) (parent j))"
  using parent_eq_self [of j] by (subst heap_up.simps) (auto simp: Let_def parent_def)

lemma heap_okD:
  "heap_ok f xs lo n A \<Longrightarrow> k < n \<Longrightarrow> 0 < k \<Longrightarrow> lo \<le> parent k \<Longrightarrow> k \<notin> A \<Longrightarrow>
   f (xs ! parent k) \<le> f (xs ! k)"
  by (simp add: heap_ok_def)

lemma heap_ok_cong:
  assumes "\<And>k. k < n \<Longrightarrow> f (xs ! k) = g (ys ! k)"
  shows "heap_ok f xs lo n A = heap_ok g ys lo n A"
proof -
  have "f (xs ! parent k) = g (ys ! parent k)" if "k < n" for k
    using assms parent_le_trans that by blast
  then show ?thesis using assms by (auto simp: heap_ok_def)
qed

lemma heap_ordered_cong:
  assumes "\<And>x. x \<in> set xs \<Longrightarrow> f x = g x"
  shows "heap_ordered f xs = heap_ordered g xs"
  unfolding heap_ordered_def by (rule heap_ok_cong) (simp add: assms)

text \<open>The root of a heap is a minimum.\<close>

lemma heap_ok_root_le:
  assumes "heap_ok f xs 0 n {}" and "k < n"
  shows "f (xs ! 0) \<le> f (xs ! k)"
  using assms(2)
proof (induction k rule: less_induct)
  case (less k)
  show ?case
  proof (cases "k = 0")
    case False
    then have "f (xs ! 0) \<le> f (xs ! parent k)"
      using less by (intro less.IH) auto
    also have "\<dots> \<le> f (xs ! k)"
      using assms(1) less.prems False by (intro heap_okD) auto
    finally show ?thesis .
  qed simp
qed

lemma heap_ordered_root_le:
  assumes "heap_ordered f xs" and "x \<in> set xs"
  shows "f (xs ! 0) \<le> f x"
  using assms heap_ok_root_le by (metis heap_ordered_def in_set_conv_nth)

lemma heap_ordered_Nil [simp]: "heap_ordered f []"
  by (simp add: heap_ordered_def heap_ok_def)

text \<open>One step of \<^verbatim>\<open>up\<close> and one step of \<^verbatim>\<open>down\<close>, on the slice.\<close>

lemma up_step:
  assumes n: "n \<le> length xs" and j: "j < n" "0 < j"
    and ok: "heap_ok f xs 0 n {j}" and gr: "grand_ok f xs 0 n j"
    and lt: "f (xs ! j) < f (xs ! parent j)"
  shows "heap_ok f (list_swap xs (parent j) j) 0 n {parent j}"
    and "grand_ok f (list_swap xs (parent j) j) 0 n (parent j)"
proof -
  let ?i = "parent j" and ?ys = "list_swap xs (parent j) j"
  have i: "?i < j" using j by auto
  have nth: "?ys ! k = (if k = ?i then xs ! j else if k = j then xs ! ?i else xs ! k)"
    if "k < n" for k
    using that n j i by (intro nth_list_swap) auto
  have old: "f (xs ! parent k) \<le> f (xs ! k)" if "k < n" "0 < k" "k \<noteq> j" for k
    using ok that by (auto intro: heap_okD)
  have oldg: "f (xs ! ?i) \<le> f (xs ! c)" if "c < n" "0 < c" "parent c = j" for c
    using gr that j by (auto simp: grand_ok_def)
  show "heap_ok f ?ys 0 n {?i}"
    unfolding heap_ok_def
  proof (intro allI impI)
    fix k assume k: "k < n" "0 < k" "k \<notin> {?i}"
    have p: "parent k < n" "parent k < k" using k by auto
    show "f (?ys ! parent k) \<le> f (?ys ! k)"
    proof (cases "k = j")
      case True
      then show ?thesis using nth k p i lt by auto
    next
      case kj: False
      show ?thesis
      proof (cases "parent k = ?i")
        case True
        then have "f (xs ! ?i) \<le> f (xs ! k)" using old [of k] k kj by simp
        then show ?thesis using nth k p kj lt True by auto
      next
        case False
        then show ?thesis using nth k p kj old oldg by auto
      qed
    qed
  qed
  show "grand_ok f ?ys 0 n ?i"
    unfolding grand_ok_def
  proof (intro impI allI)
    fix c assume i0: "0 < ?i" and c: "c < n" "0 < c" "parent c = ?i"
    have pi: "f (xs ! parent ?i) \<le> f (xs ! ?i)" using old [of ?i] i0 i j by auto
    have "parent ?i < ?i" using i0 by simp
    then have "parent ?i \<noteq> ?i" "parent ?i \<noteq> j" "parent ?i < n" using i j(1) by linarith+
    then have "?ys ! parent ?i = xs ! parent ?i" using nth by simp
    moreover have "f (xs ! ?i) \<le> f (?ys ! c)"
    proof (cases "c = j")
      case True
      then show ?thesis using nth c i by auto
    next
      case False
      then have "f (xs ! ?i) \<le> f (xs ! c)" using old [of c] c by simp
      moreover have "c \<noteq> ?i" using c i by auto
      ultimately show ?thesis using nth c False by simp
    qed
    ultimately show "f (?ys ! parent ?i) \<le> f (?ys ! c)" using pi by simp
  qed
qed

lemma down_step:
  assumes n: "n \<le> length xs" and j: "j < n" "0 < j" "parent j = i" and lo: "lo \<le> i"
    and ok: "heap_ok f xs lo n (insert i (children i))" and gr: "grand_ok f xs lo n i"
    and lt: "f (xs ! j) < f (xs ! i)"
    and least: "\<And>c. c < n \<Longrightarrow> 0 < c \<Longrightarrow> parent c = i \<Longrightarrow> f (xs ! j) \<le> f (xs ! c)"
  shows "heap_ok f (list_swap xs i j) lo n (children j)"
    and "grand_ok f (list_swap xs i j) lo n j"
proof -
  let ?ys = "list_swap xs i j"
  have i: "i < j" using j by auto
  have nth: "?ys ! k = (if k = i then xs ! j else if k = j then xs ! i else xs ! k)"
    if "k < n" for k
    using that n j i by (intro nth_list_swap) auto
  have old: "f (xs ! parent k) \<le> f (xs ! k)"
    if "k < n" "0 < k" "lo \<le> parent k" "k \<noteq> i" "parent k \<noteq> i" for k
    using ok that by (auto intro: heap_okD)
  show "heap_ok f ?ys lo n (children j)"
    unfolding heap_ok_def
  proof (intro allI impI)
    fix k assume k: "k < n" "0 < k" "lo \<le> parent k" "k \<notin> children j"
    have p: "parent k < n" "parent k < k" "parent k \<noteq> j" using k by auto
    consider "k = i" | "k = j" | "k \<noteq> i" "k \<noteq> j" "parent k = i"
      | "k \<noteq> i" "k \<noteq> j" "parent k \<noteq> i" by blast
    then show "f (?ys ! parent k) \<le> f (?ys ! k)"
    proof cases
      case 1
      then show ?thesis using gr k p nth [of k] nth [of "parent k"] j by (simp add: grand_ok_def)
    next
      case 2
      then show ?thesis using nth [of k] nth [of "parent k"] k p lt j i by simp
    next
      case 3
      then show ?thesis using nth [of k] nth [of "parent k"] k p least [of k] by simp
    next
      case 4
      then show ?thesis using nth [of k] nth [of "parent k"] k p old [of k] by simp
    qed
  qed
  show "grand_ok f ?ys lo n j"
    unfolding grand_ok_def
  proof (intro impI allI)
    fix c assume c: "c < n" "0 < c" "parent c = j"
    have "j < c" using c parent_less [of c] by simp
    then have "c \<noteq> i" "c \<noteq> j" using i by auto
    moreover have "f (xs ! j) \<le> f (xs ! c)" using old [of c] c lo i \<open>c \<noteq> i\<close> by auto
    ultimately show "f (?ys ! parent j) \<le> f (?ys ! c)"
      using nth [of c] nth [of i] c j i by simp
  qed
qed

section \<open>Implementations of the interface\<close>

text \<open>
  \<open>elems\<close> is the implementation's slice, \<open>key\<close> what its \<open>Less\<close> compares, \<open>wf\<close> its own
  invariant, \<open>fresh\<close> what an element has to satisfy to be pushed and \<open>fr A s t\<close> that \<open>t\<close>
  differs from \<open>s\<close> only in its bookkeeping for the elements of \<open>A\<close>.
\<close>

locale heap_interface =
  fixes h :: "('s, 'x) heap_Interface"
    and elems :: "'s \<Rightarrow> 'x list"
    and key :: "'s \<Rightarrow> 'x \<Rightarrow> 'k::linorder"
    and wf :: "'s \<Rightarrow> bool"
    and fresh :: "'s \<Rightarrow> 'x \<Rightarrow> bool"
    and fr :: "'x set \<Rightarrow> 's \<Rightarrow> 's \<Rightarrow> bool"
  assumes Len_eq: "Len h s = length (elems s)"
    and Less_iff: "i < length (elems s) \<Longrightarrow> j < length (elems s) \<Longrightarrow>
          Less h s i j \<longleftrightarrow> key s (elems s ! i) < key s (elems s ! j)"
    and elems_Swap: "i < length (elems s) \<Longrightarrow> j < length (elems s) \<Longrightarrow>
          elems (Swap h s i j) = list_swap (elems s) i j"
    and wf_Swap: "i < length (elems s) \<Longrightarrow> j < length (elems s) \<Longrightarrow> wf s \<Longrightarrow> wf (Swap h s i j)"
    and key_Swap: "key (Swap h s i j) = key s"
    and fr_Swap: "i < length (elems s) \<Longrightarrow> j < length (elems s) \<Longrightarrow>
          fr (set (elems s)) s (Swap h s i j)"
    and elems_Push: "elems (Push h s x) = elems s @ [x]"
    and wf_Push: "wf s \<Longrightarrow> fresh s x \<Longrightarrow> wf (Push h s x)"
    and key_Push: "key (Push h s x) = key s"
    and fr_Push: "fr {x} s (Push h s x)"
    and Pop_last: "elems s \<noteq> [] \<Longrightarrow> snd (Pop h s) = last (elems s)"
    and elems_Pop: "elems s \<noteq> [] \<Longrightarrow> elems (fst (Pop h s)) = butlast (elems s)"
    and wf_Pop: "elems s \<noteq> [] \<Longrightarrow> wf s \<Longrightarrow> wf (fst (Pop h s))"
    and key_Pop: "elems s \<noteq> [] \<Longrightarrow> key (fst (Pop h s)) = key s"
    and fr_Pop: "elems s \<noteq> [] \<Longrightarrow> fr (set (elems s)) s (fst (Pop h s))"
    and fr_refl: "fr A s s"
    and fr_trans: "fr A s t \<Longrightarrow> fr A t u \<Longrightarrow> fr A s u"
    and fr_mono: "fr A s t \<Longrightarrow> A \<subseteq> B \<Longrightarrow> fr B s t"
begin

text \<open>What every rearrangement of the first \<open>n\<close> elements keeps.\<close>

definition rearranged :: "nat \<Rightarrow> 's \<Rightarrow> 's \<Rightarrow> bool" where
  "rearranged n s t \<longleftrightarrow>
     mset (elems t) = mset (elems s) \<and> key t = key s \<and> (wf s \<longrightarrow> wf t) \<and>
     fr (set (elems s)) s t \<and> drop n (elems t) = drop n (elems s)"

lemma rearranged_refl: "rearranged n s s"
  by (simp add: rearranged_def fr_refl)

lemma rearranged_trans: "rearranged n s t \<Longrightarrow> rearranged n t u \<Longrightarrow> rearranged n s u"
  unfolding rearranged_def by (metis fr_trans set_mset_mset)

lemma rearranged_length: "rearranged n s t \<Longrightarrow> length (elems t) = length (elems s)"
  unfolding rearranged_def using mset_eq_length by blast

lemma rearranged_Swap:
  assumes "n \<le> length (elems s)" and "i < n" and "j < n"
  shows "rearranged n s (Swap h s i j)"
proof -
  have "drop n (list_swap (elems s) i j) = drop n (elems s)"
    using assms by (simp add: list_swap_def)
  then show ?thesis
    using assms unfolding rearranged_def by (simp add: elems_Swap key_Swap wf_Swap fr_Swap)
qed

lemma heap_up_rearranged:
  assumes "n \<le> length (elems s)" and "j < n"
  shows "rearranged n s (heap_up h s j)"
  using assms
proof (induction j arbitrary: s rule: less_induct)
  case (less j)
  show ?case
  proof (cases "j = 0 \<or> \<not> Less h s j (parent j)")
    case True
    then show ?thesis by (subst heap_up_parent) (auto simp: rearranged_refl)
  next
    case False
    let ?t = "Swap h s (parent j) j"
    have sw: "rearranged n s ?t"
      using less.prems by (intro rearranged_Swap) auto
    then have "rearranged n ?t (heap_up h ?t (parent j))"
      using less.prems False by (intro less.IH) (auto simp: rearranged_length)
    with sw show ?thesis
      using False by (subst heap_up_parent) (auto intro: rearranged_trans)
  qed
qed

lemma heap_up_ok:
  assumes "n \<le> length (elems s)" and "j < n"
    and "heap_ok (key s) (elems s) 0 n {j}" and "grand_ok (key s) (elems s) 0 n j"
  shows "heap_ok (key s) (elems (heap_up h s j)) 0 n {}"
  using assms
proof (induction j arbitrary: s rule: less_induct)
  case (less j)
  show ?case
  proof (cases "j = 0 \<or> \<not> Less h s j (parent j)")
    case True
    then have "0 < j \<Longrightarrow> key s (elems s ! parent j) \<le> key s (elems s ! j)"
      using less.prems by (subst (asm) Less_iff) auto
    then have "heap_ok (key s) (elems s) 0 n {}"
      using less.prems(3) unfolding heap_ok_def by auto
    then show ?thesis using True by (subst heap_up_parent) auto
  next
    case False
    let ?t = "Swap h s (parent j) j"
    have j: "0 < j" "parent j < j" using False by auto
    have lt: "key s (elems s ! j) < key s (elems s ! parent j)"
      using False less.prems Less_iff by auto
    have t: "elems ?t = list_swap (elems s) (parent j) j" "key ?t = key s"
      using less.prems j by (auto simp: elems_Swap key_Swap)
    have "heap_ok (key ?t) (elems (heap_up h ?t (parent j))) 0 n {}"
      using less.prems j up_step [OF less.prems(1,2) j(1) less.prems(3,4) lt]
      by (intro less.IH) (auto simp: t)
    then show ?thesis using False by (subst heap_up_parent) (auto simp: t)
  qed
qed

text \<open>The child \<open>heap_down\<close> compares with: the smaller one.\<close>

definition child :: "'s \<Rightarrow> nat \<Rightarrow> nat \<Rightarrow> nat" where
  "child s i n =
     (if 2 * i + 1 + 1 < n \<and> Less h s (2 * i + 1 + 1) (2 * i + 1)
      then 2 * i + 1 + 1 else 2 * i + 1)"

lemma child_bounds:
  assumes "2 * i + 1 < n"
  shows "child s i n < n" "i < child s i n" "0 < child s i n" "parent (child s i n) = i"
  using assms by (auto simp: child_def)

lemma child_least:
  assumes n: "n \<le> length (elems s)" and c: "c < n" "0 < c" "parent c = i"
  shows "key s (elems s ! child s i n) \<le> key s (elems s ! c)"
proof -
  have cc: "c = 2 * i + 1 \<or> c = 2 * i + 1 + 1" using c parent_eq_iff by simp
  show ?thesis
  proof (cases "2 * i + 1 + 1 < n")
    case True
    then have "Less h s (2 * i + 1 + 1) (2 * i + 1) \<longleftrightarrow>
        key s (elems s ! (2 * i + 1 + 1)) < key s (elems s ! (2 * i + 1))"
      using n by (intro Less_iff) auto
    then show ?thesis using True cc unfolding child_def
      by (auto simp del: add_2_eq_Suc add_2_eq_Suc')
  next
    case False
    then have "c = 2 * i + 1" using cc c by auto
    with False show ?thesis by (simp add: child_def)
  qed
qed

lemma heap_down_child:
  "heap_down h s i n =
     (if n \<le> 2 * i + 1 \<or> \<not> Less h s (child s i n) i then (s, i)
      else heap_down h (Swap h s i (child s i n)) (child s i n) n)"
  unfolding child_def by (subst heap_down.simps) (simp only: Let_def, simp)

lemma heap_down_rearranged:
  assumes "n \<le> length (elems s)" and "i < n"
  shows "rearranged n s (fst (heap_down h s i n))"
  using assms
proof (induction "n - i" arbitrary: s i rule: less_induct)
  case less
  show ?case
  proof (cases "n \<le> 2 * i + 1 \<or> \<not> Less h s (child s i n) i")
    case True
    then show ?thesis by (subst heap_down_child) (simp add: rearranged_refl)
  next
    case False
    then have j: "child s i n < n" "i < child s i n" using child_bounds [of i n s] by auto
    let ?t = "Swap h s i (child s i n)"
    have sw: "rearranged n s ?t"
      using less.prems j by (intro rearranged_Swap) auto
    then have "rearranged n ?t (fst (heap_down h ?t (child s i n) n))"
      using less.prems j by (intro less.hyps) (auto simp: rearranged_length)
    with sw have "rearranged n s (fst (heap_down h ?t (child s i n) n))"
      by (rule rearranged_trans)
    then show ?thesis using False by (subst heap_down_child) simp
  qed
qed

text \<open>
  \<open>heap_down\<close> from a position whose children may be out of order: either nothing moved,
  and only the position itself may still be smaller than its parent, or everything is
  in order.
\<close>

lemma heap_down_ok:
  assumes "n \<le> length (elems s)" and "i < n" and "lo \<le> i"
    and "heap_ok (key s) (elems s) lo n (insert i (children i))"
    and "grand_ok (key s) (elems s) lo n i"
    and "heap_down h s i n = (t, i')"
  shows "(i' = i \<and> t = s \<and> heap_ok (key s) (elems s) lo n {i}) \<or>
         (i < i' \<and> heap_ok (key s) (elems t) lo n {})"
  using assms
proof (induction "n - i" arbitrary: s i rule: less_induct)
  case less
  let ?j = "child s i n"
  note least = child_least [OF less.prems(1)]
  show ?case
  proof (cases "n \<le> 2 * i + 1 \<or> \<not> Less h s ?j i")
    case True
    then have d: "t = s" "i' = i"
      using less.prems(6) by (simp_all add: heap_down_child [of s i n])
    have "key s (elems s ! i) \<le> key s (elems s ! c)"
      if c: "c < n" "0 < c" "parent c = i" for c
    proof -
      have "2 * i + 1 < n" using c parent_eq_iff [of c i] by auto
      then have "\<not> key s (elems s ! ?j) < key s (elems s ! i)"
        using True less.prems(1,2) child_bounds [of i n s]
        by (subst Less_iff [symmetric]) auto
      with least [OF c] show ?thesis by (meson leI order_trans)
    qed
    then have "heap_ok (key s) (elems s) lo n {i}"
      using less.prems(4) unfolding heap_ok_def by auto
    with d show ?thesis by simp
  next
    case False
    then have j: "?j < n" "i < ?j" "0 < ?j" "parent ?j = i"
      using child_bounds [of i n s] by auto
    let ?t = "Swap h s i ?j"
    have eq: "heap_down h ?t ?j n = (t, i')"
      using False less.prems(6) by (simp add: heap_down_child [of s i n])
    have lt: "key s (elems s ! ?j) < key s (elems s ! i)"
      using False less.prems(1,2) j by (subst Less_iff [symmetric]) auto
    have et: "elems ?t = list_swap (elems s) i ?j" "key ?t = key s"
      using less.prems(1,2) j by (auto simp: elems_Swap key_Swap)
    note step = down_step [OF less.prems(1) j(1,3,4) less.prems(3,4,5) lt least]
    have ok: "heap_ok (key ?t) (elems ?t) lo n (children ?j)"
      unfolding et by (rule step(1)) auto
    have gr: "grand_ok (key ?t) (elems ?t) lo n ?j"
      unfolding et by (rule step(2)) auto
    have "(i' = ?j \<and> t = ?t \<and> heap_ok (key ?t) (elems ?t) lo n {?j}) \<or>
         (?j < i' \<and> heap_ok (key ?t) (elems t) lo n {})"
    proof (rule less.hyps)
      show "n \<le> length (elems ?t)" using et less.prems(1) by simp
      show "heap_ok (key ?t) (elems ?t) lo n (insert ?j (children ?j))"
        using ok by (simp add: heap_ok_def)
    qed (use less.prems(2,3) j gr eq in auto)
    moreover have "heap_ok (key ?t) (elems ?t) lo n {}"
      if "heap_ok (key ?t) (elems ?t) lo n {?j}"
      using that ok j unfolding heap_ok_def by (metis (mono_tags, lifting) CollectD
        insertE less_irrefl)
    ultimately show ?thesis using j(2) et(2) by auto
  qed
qed

lemma down_or_up_rearranged:
  assumes "n \<le> length (elems s)" and "i < n"
  shows "rearranged n s (heap_down_or_up h s i n)"
proof -
  obtain t i' where d: "heap_down h s i n = (t, i')" by fastforce
  have t: "rearranged n s t" using heap_down_rearranged [OF assms] d by simp
  then have "rearranged n t (heap_up h t i)"
    using assms by (intro heap_up_rearranged) (auto simp: rearranged_length)
  with t d show ?thesis by (auto simp: heap_down_or_up_def intro: rearranged_trans)
qed

lemma down_or_up_ok:
  assumes "n \<le> length (elems s)" and "i < n"
    and "heap_ok (key s) (elems s) 0 n (insert i (children i))"
    and "grand_ok (key s) (elems s) 0 n i"
  shows "heap_ok (key s) (elems (heap_down_or_up h s i n)) 0 n {}"
proof -
  obtain t i' where d: "heap_down h s i n = (t, i')" by fastforce
  from heap_down_ok [OF assms(1,2) _ assms(3,4) d] show ?thesis
    using assms d heap_up_ok [of n s i] by (auto simp: heap_down_or_up_def)
qed

text \<open>Taking the last element away, after the first ones have been put in order.\<close>

lemma Pop_last_ok:
  assumes "elems s \<noteq> []" and "Pop h s = (t, x)"
    and "heap_ok (key s) (elems s) 0 (length (elems s) - 1) {}"
  shows "heap_ordered (key s) (elems t)"
proof -
  have "elems t = butlast (elems s)" using elems_Pop assms(1,2) by (metis fst_conv)
  moreover have "heap_ok (key s) (butlast (elems s)) 0 (length (elems s) - 1) {} =
      heap_ok (key s) (elems s) 0 (length (elems s) - 1) {}"
    by (rule heap_ok_cong) (simp add: nth_butlast)
  ultimately show ?thesis using assms(3) by (simp add: heap_ordered_def)
qed

text \<open>What removing the element \<open>x\<close> establishes.\<close>

definition removed :: "'s \<Rightarrow> 'x \<Rightarrow> 's \<Rightarrow> bool" where
  "removed s x t \<longleftrightarrow>
     mset (elems s) = add_mset x (mset (elems t)) \<and> key t = key s \<and> (wf s \<longrightarrow> wf t) \<and>
     fr (set (elems s)) s t \<and>
     (heap_ordered (key s) (elems s) \<longrightarrow> heap_ordered (key s) (elems t))"

lemma Pop_removed:
  assumes ne: "elems s \<noteq> []" and re: "rearranged n s t" and pop: "Pop h t = (u, x)"
    and ok: "heap_ordered (key s) (elems s) \<Longrightarrow>
          heap_ok (key s) (elems t) 0 (length (elems s) - 1) {}"
  shows "removed s x u" and "x = last (elems t)"
proof -
  have len: "length (elems t) = length (elems s)" using re by (rule rearranged_length)
  then have t: "elems t \<noteq> []" using ne by auto
  have u: "x = last (elems t)" "elems u = butlast (elems t)" "key u = key t"
      "wf t \<Longrightarrow> wf u" "fr (set (elems t)) t u"
    using Pop_last [OF t] elems_Pop [OF t] key_Pop [OF t] wf_Pop [OF t] fr_Pop [OF t] pop
    by simp_all
  then show "x = last (elems t)" by simp
  have k: "key t = key s" and m: "mset (elems t) = mset (elems s)"
    using re by (auto simp: rearranged_def)
  have "mset (elems s) = add_mset x (mset (elems u))"
    using mset_butlast_last [OF t] u(1,2) m by simp
  moreover have "fr (set (elems s)) s u"
    using re u(5) mset_eq_setD [OF m] by (auto simp: rearranged_def intro: fr_trans)
  moreover have "heap_ordered (key s) (elems s) \<longrightarrow> heap_ordered (key s) (elems u)"
    using Pop_last_ok [OF t pop] ok k len by auto
  ultimately show "removed s x u"
    using re u by (simp add: removed_def rearranged_def)
qed

lemma Swap_last_ok:
  assumes ord: "heap_ordered (key s) (elems s)" and i: "i < length (elems s) - 1"
  defines "n \<equiv> length (elems s) - 1"
  defines "t \<equiv> Swap h s i n"
  shows "heap_ok (key t) (elems t) 0 n (insert i (children i))"
    and "grand_ok (key t) (elems t) 0 n i"
proof -
  have et: "elems t = list_swap (elems s) i n" "key t = key s"
    unfolding t_def n_def using i by (auto simp: elems_Swap key_Swap)
  have nth: "elems t ! k = elems s ! k" if "k < n" "k \<noteq> i" for k
    using that i et unfolding n_def by (auto simp: nth_list_swap)
  have old: "key s (elems s ! parent k) \<le> key s (elems s ! k)" if "k < n" "0 < k" for k
    using that unfolding n_def
    by (intro heap_okD [OF ord [unfolded heap_ordered_def]]) auto
  show "heap_ok (key t) (elems t) 0 n (insert i (children i))"
    unfolding heap_ok_def
  proof (intro allI impI)
    fix k assume k: "k < n" "0 < k" "k \<notin> insert i (children i)"
    then show "key t (elems t ! parent k) \<le> key t (elems t ! k)"
      using nth [of k] nth [of "parent k"] old [of k] et by simp
  qed
  show "grand_ok (key t) (elems t) 0 n i"
    unfolding grand_ok_def
  proof (intro allI impI)
    fix c assume i0: "0 < i" and c: "c < n" "0 < c" "parent c = i"
    have "key s (elems s ! parent i) \<le> key s (elems s ! c)"
      using old [of i] old [of c] c i0 i unfolding n_def by auto
    moreover have "c \<noteq> i" using c parent_less [of c] by auto
    ultimately show "key t (elems t ! parent i) \<le> key t (elems t ! c)"
      using nth [of c] nth [of "parent i"] c i0 i et unfolding n_def
      by (metis less_irrefl parent_le_trans parent_less)
  qed
qed

theorem heap_Remove_correct:
  assumes i: "i < length (elems s)" and rem: "heap_Remove h s i = (t, x)"
  shows "removed s x t" and "x = elems s ! i"
proof -
  let ?n = "length (elems s) - 1"
  let ?u = "Swap h s i ?n"
  let ?v = "if ?n \<noteq> i then heap_down_or_up h ?u i ?n else s"
  have pop: "Pop h ?v = (t, x)" using rem unfolding heap_Remove_def Len_eq Let_def .
  have ne: "elems s \<noteq> []" using i by auto
  have "rearranged (length (elems s)) s ?v \<and> last (elems ?v) = elems s ! i \<and>
      (heap_ordered (key s) (elems s) \<longrightarrow> heap_ok (key s) (elems ?v) 0 ?n {})"
  proof (cases "?n = i")
    case True
    then show ?thesis using ne
      by (auto simp: rearranged_refl last_conv_nth heap_ordered_def heap_ok_def)
  next
    case False
    have u: "rearranged (length (elems s)) s ?u" "length (elems ?u) = length (elems s)"
      using i by (auto intro!: rearranged_Swap simp: elems_Swap)
    have v: "rearranged ?n ?u ?v" using u i False by (auto intro: down_or_up_rearranged)
    have "length (elems ?v) = length (elems s)"
      using rearranged_length [OF v] u by simp
    then have "rearranged (length (elems s)) ?u ?v" using v u by (simp add: rearranged_def)
    with u have r: "rearranged (length (elems s)) s ?v" by (blast intro: rearranged_trans)
    have "last (elems ?v) = last (elems ?u)"
      using v ne u i \<open>length (elems ?v) = _\<close> unfolding rearranged_def
      by (metis diff_less last_drop length_greater_0_conv less_numeral_extra(1))
    also have "\<dots> = elems s ! i" using last_list_swap [OF i] i by (simp add: elems_Swap)
    finally have l: "last (elems ?v) = elems s ! i" .
    have "heap_ok (key ?u) (elems (heap_down_or_up h ?u i ?n)) 0 ?n {}"
      if "heap_ordered (key s) (elems s)"
      using Swap_last_ok [OF that, of i] u i False by (intro down_or_up_ok) auto
    with r l show ?thesis using False by (simp add: key_Swap)
  qed
  with Pop_removed [OF ne _ pop] show "removed s x t" and "x = elems s ! i" by blast+
qed

theorem heap_Pop_correct:
  assumes ne: "elems s \<noteq> []" and pop: "heap_Pop h s = (t, x)"
  shows "removed s x t" and "x = elems s ! 0"
proof -
  let ?n = "length (elems s) - 1"
  let ?u = "Swap h s 0 ?n"
  let ?v = "fst (heap_down h ?u 0 ?n)"
  have pop: "Pop h ?v = (t, x)"
    using pop by (simp add: heap_Pop_def Len_eq Let_def case_prod_unfold)
  have u: "rearranged (length (elems s)) s ?u" "length (elems ?u) = length (elems s)"
    using ne by (auto intro!: rearranged_Swap simp: elems_Swap)
  have l: "last (elems ?u) = elems s ! 0"
    using last_list_swap [of 0 "elems s"] ne by (simp add: elems_Swap)
  have "rearranged (length (elems s)) s ?v \<and> last (elems ?v) = elems s ! 0 \<and>
      (heap_ordered (key s) (elems s) \<longrightarrow> heap_ok (key s) (elems ?v) 0 ?n {})"
  proof (cases "?n = 0")
    case True
    then have "?v = ?u" by (simp add: heap_down_child)
    then show ?thesis using u l True by (simp add: heap_ok_def)
  next
    case False
    have v: "rearranged ?n ?u ?v" using u False by (intro heap_down_rearranged) auto
    have lv: "length (elems ?v) = length (elems s)"
      using rearranged_length [OF v] u by simp
    then have "rearranged (length (elems s)) ?u ?v" using v u by (simp add: rearranged_def)
    with u have r: "rearranged (length (elems s)) s ?v" by (blast intro: rearranged_trans)
    have "last (elems ?v) = last (elems ?u)"
      using v ne u lv unfolding rearranged_def
      by (metis diff_less last_drop length_greater_0_conv less_numeral_extra(1))
    moreover have "heap_ok (key s) (elems ?v) 0 ?n {}" if "heap_ordered (key s) (elems s)"
    proof -
      obtain v i' where d: "heap_down h ?u 0 ?n = (v, i')" by fastforce
      note ok = Swap_last_ok [OF that, of 0]
      have "(i' = 0 \<and> v = ?u \<and> heap_ok (key ?u) (elems ?u) 0 ?n {0}) \<or>
         (0 < i' \<and> heap_ok (key ?u) (elems v) 0 ?n {})"
        using u False ok d by (intro heap_down_ok) auto
      then show ?thesis using d by (auto simp: key_Swap heap_ok_def)
    qed
    ultimately show ?thesis using r l by simp
  qed
  with Pop_removed [OF ne _ pop] show "removed s x t" and "x = elems s ! 0" by blast+
qed

theorem heap_Push_correct:
  assumes t: "t = heap_Push h s x"
  shows "mset (elems t) = add_mset x (mset (elems s))" and "key t = key s"
    and "wf s \<Longrightarrow> fresh s x \<Longrightarrow> wf t"
    and "fr (insert x (set (elems s))) s t"
    and "heap_ordered (key s) (elems s) \<Longrightarrow> heap_ordered (key s) (elems t)"
proof -
  let ?u = "Push h s x" and ?n = "length (elems s)"
  have t: "t = heap_up h ?u ?n" using t by (simp add: heap_Push_def Len_eq elems_Push Let_def)
  have r: "rearranged (Suc ?n) ?u t" unfolding t by (intro heap_up_rearranged) (auto simp: elems_Push)
  then show "mset (elems t) = add_mset x (mset (elems s))" and "key t = key s"
    and "wf s \<Longrightarrow> fresh s x \<Longrightarrow> wf t"
    by (auto simp: rearranged_def elems_Push key_Push wf_Push)
  have "fr (insert x (set (elems s))) s ?u" using fr_Push by (rule fr_mono) simp
  with r show "fr (insert x (set (elems s))) s t"
    by (auto simp: rearranged_def elems_Push intro: fr_trans)
  assume ord: "heap_ordered (key s) (elems s)"
  have "heap_ok (key ?u) (elems t) 0 (Suc ?n) {}"
    unfolding t
  proof (rule heap_up_ok)
    show "heap_ok (key ?u) (elems ?u) 0 (Suc ?n) {?n}"
      using ord unfolding heap_ordered_def heap_ok_def
      by (auto simp: elems_Push key_Push nth_append less_Suc_eq)
    show "grand_ok (key ?u) (elems ?u) 0 (Suc ?n) ?n"
      unfolding grand_ok_def by (metis less_Suc_eq_le parent_less not_less)
  qed (auto simp: elems_Push)
  then show "heap_ordered (key s) (elems t)"
    using rearranged_length [OF r] by (simp add: heap_ordered_def elems_Push key_Push)
qed

theorem heap_Fix_correct:
  assumes i: "i < length (elems s)"
  shows "rearranged (length (elems s)) s (heap_Fix h s i)"
    and "heap_ok (key s) (elems s) 0 (length (elems s)) (insert i (children i)) \<Longrightarrow>
         grand_ok (key s) (elems s) 0 (length (elems s)) i \<Longrightarrow>
         heap_ordered (key s) (elems (heap_Fix h s i))"
proof -
  show r: "rearranged (length (elems s)) s (heap_Fix h s i)"
    using i by (simp add: heap_Fix_def Len_eq down_or_up_rearranged)
  assume "heap_ok (key s) (elems s) 0 (length (elems s)) (insert i (children i))"
    and "grand_ok (key s) (elems s) 0 (length (elems s)) i"
  then show "heap_ordered (key s) (elems (heap_Fix h s i))"
    using i rearranged_length [OF r] down_or_up_ok [of "length (elems s)" s i]
    by (simp add: heap_ordered_def heap_Fix_def Len_eq)
qed

lemma heap_Init_loop_correct:
  assumes "n = length (elems s)" and "i \<le> n" and "heap_ok (key s) (elems s) i n {}"
  shows "rearranged n s (heap_Init_loop h n s i) \<and>
         heap_ok (key s) (elems (heap_Init_loop h n s i)) 0 n {}"
  using assms
proof (induction i arbitrary: s)
  case 0
  then show ?case by (simp add: rearranged_refl)
next
  case (Suc i)
  obtain t i' where d: "heap_down h s i n = (t, i')" by fastforce
  have r: "rearranged n s t" using heap_down_rearranged [of n s i] Suc.prems d by simp
  have "heap_ok (key s) (elems s) i n (insert i (children i))"
    using Suc.prems(3) unfolding heap_ok_def by (auto simp: Suc_le_eq le_neq_implies_less)
  moreover have "grand_ok (key s) (elems s) i n i"
    unfolding grand_ok_def by (metis not_less parent_less)
  ultimately have "(i' = i \<and> t = s \<and> heap_ok (key s) (elems s) i n {i}) \<or>
         (i < i' \<and> heap_ok (key s) (elems t) i n {})"
    using Suc.prems d by (intro heap_down_ok) auto
  moreover have "heap_ok (key s) (elems s) i n {i} \<Longrightarrow> heap_ok (key s) (elems s) i n {}"
    unfolding heap_ok_def by (metis not_less parent_less singletonD)
  ultimately have "heap_ok (key t) (elems t) i n {}"
    using r by (auto simp: rearranged_def)
  then have "rearranged n t (heap_Init_loop h n t i) \<and>
      heap_ok (key t) (elems (heap_Init_loop h n t i)) 0 n {}"
    using Suc.prems r by (intro Suc.IH) (auto simp: rearranged_length)
  moreover have "key t = key s" using r by (simp add: rearranged_def)
  ultimately show ?case using r d rearranged_trans [OF r] by simp
qed

theorem heap_Init_correct:
  shows "rearranged (length (elems s)) s (heap_Init h s)"
    and "heap_ordered (key s) (elems (heap_Init h s))"
proof -
  let ?n = "length (elems s)"
  have "heap_ok (key s) (elems s) (?n div 2) ?n {}"
    unfolding heap_ok_def parent_def by auto
  then have c: "rearranged ?n s (heap_Init h s) \<and>
      heap_ok (key s) (elems (heap_Init h s)) 0 ?n {}"
    unfolding heap_Init_def Len_eq Let_def by (intro heap_Init_loop_correct) auto
  then show "rearranged ?n s (heap_Init h s)" by simp
  with c show "heap_ordered (key s) (elems (heap_Init h s))"
    by (simp add: heap_ordered_def rearranged_length)
qed

end

end
