(* ===== verification/Job_Heap.thy ===== *)
theory Job_Heap
  imports Memory Go_Heap
begin

text \<open>
  \<^verbatim>\<open>state/job_heap.go\<close>: the four job heaps (by priority, by ready time, by reservation
  expiry, by burial time). A \<^verbatim>\<open>jobHeap\<close> is a slice of pointers to entries; each
  entry records its own index, which \<open>Swap\<close>, \<open>Push\<close> and \<open>Pop\<close> keep up to date through the
  shared pointer. The interpretation of \<open>heap_interface\<close> on these definitions gives the
  correctness of every operation: the entries kept, the indices right, the order right.
\<close>

section \<open>The heap and its order\<close>

text \<open>The closures the constructors install as \<^verbatim>\<open>lessFn\<close>.\<close>

datatype less_fn = ByPriority | ByReadyAt | ByExpiresAt | ByBuriedAt

record jobHeap =
  entries :: "ref list"
  lessFn :: less_fn

definition NewPriorityJobs :: jobHeap where
  "NewPriorityJobs = \<lparr>entries = [], lessFn = ByPriority\<rparr>"

definition NewDelayedJobs :: jobHeap where
  "NewDelayedJobs = \<lparr>entries = [], lessFn = ByReadyAt\<rparr>"

definition NewReservedJobs :: jobHeap where
  "NewReservedJobs = \<lparr>entries = [], lessFn = ByExpiresAt\<rparr>"

definition NewBuriedJobs :: jobHeap where
  "NewBuriedJobs = \<lparr>entries = [], lessFn = ByBuriedAt\<rparr>"

fun lessFn_apply :: "less_fn \<Rightarrow> Job \<Rightarrow> Job \<Rightarrow> bool" where
  "lessFn_apply ByPriority a b =
     (if Priority a = Priority b then ID a < ID b else Priority a < Priority b)"
| "lessFn_apply ByReadyAt a b =
     (if ReadyAt a = ReadyAt b then ID a < ID b else ReadyAt a < ReadyAt b)"
| "lessFn_apply ByExpiresAt a b =
     (if ExpiresAt a = ExpiresAt b then ID a < ID b else ExpiresAt a < ExpiresAt b)"
| "lessFn_apply ByBuriedAt a b =
     (if BuriedAt a = BuriedAt b then ID a < ID b else BuriedAt a < BuriedAt b)"

section \<open>The methods of \<^verbatim>\<open>heap.Interface\<close>\<close>

type_synonym job_heap_state = "mem \<times> jobHeap"

definition jobHeap_Len :: "job_heap_state \<Rightarrow> nat" where
  "jobHeap_Len s = (case s of (m, jh) \<Rightarrow> length (entries jh))"

definition jobHeap_Less :: "job_heap_state \<Rightarrow> nat \<Rightarrow> nat \<Rightarrow> bool" where
  "jobHeap_Less s i j =
     (case s of (m, jh) \<Rightarrow>
        lessFn_apply (lessFn jh) (job_of m (entries jh ! i)) (job_of m (entries jh ! j)))"

definition jobHeap_Swap :: "job_heap_state \<Rightarrow> nat \<Rightarrow> nat \<Rightarrow> job_heap_state" where
  "jobHeap_Swap s i j =
     (case s of (m, jh) \<Rightarrow>
        (let es = list_swap (entries jh) i j;
             m = set_index m (es ! i) (int i);
             m = set_index m (es ! j) (int j)
         in (m, jh\<lparr>entries := es\<rparr>)))"

definition jobHeap_Push :: "job_heap_state \<Rightarrow> ref \<Rightarrow> job_heap_state" where
  "jobHeap_Push s item =
     (case s of (m, jh) \<Rightarrow>
        (let n = jobHeap_Len s
         in (set_index m item (int n), jh\<lparr>entries := entries jh @ [item]\<rparr>)))"

definition jobHeap_Pop :: "job_heap_state \<Rightarrow> job_heap_state \<times> ref" where
  "jobHeap_Pop s =
     (case s of (m, jh) \<Rightarrow>
        (let old = entries jh; n = length old; item = old ! (n - 1)
         in ((set_index m item (-1), jh\<lparr>entries := take (n - 1) old\<rparr>), item)))"

definition jobHeap_Interface :: "(job_heap_state, ref) heap_Interface" where
  "jobHeap_Interface =
     \<lparr>Len = jobHeap_Len, Less = jobHeap_Less, Swap = jobHeap_Swap, Push = jobHeap_Push,
      Pop = jobHeap_Pop\<rparr>"

section \<open>The methods of \<^verbatim>\<open>JobHeap\<close>\<close>

definition jobHeap_Peek :: "jobHeap \<Rightarrow> ref option" where
  "jobHeap_Peek jh = (if length (entries jh) = 0 then None else Some (entries jh ! 0))"

definition jobHeap_Enqueue :: "job_heap_state \<Rightarrow> ref \<Rightarrow> job_heap_state \<times> ref" where
  "jobHeap_Enqueue s j =
     (case s of (m, jh) \<Rightarrow>
        (let (m, e) = new_entry m \<lparr>je_Job = j, je_index = 0\<rparr>
         in (heap_Push jobHeap_Interface (m, jh) e, e)))"

text \<open>\<^verbatim>\<open>heap.Pop\<close> on an empty slice panics.\<close>

definition jobHeap_Dequeue :: "job_heap_state \<Rightarrow> (job_heap_state \<times> ref) option" where
  "jobHeap_Dequeue s =
     (if jobHeap_Len s = 0 then None
      else (let (s', e) = heap_Pop jobHeap_Interface s
            in Some (s', je_Job (m_entries (fst s') e))))"

text \<open>An index out of the slice from below panics.\<close>

definition jobHeap_RemoveAt ::
    "job_heap_state \<Rightarrow> ref \<Rightarrow> (job_heap_state \<times> (error + ref)) option" where
  "jobHeap_RemoveAt s entry =
     (case s of (m, jh) \<Rightarrow>
        (let index = je_index (m_entries m entry)
         in if int (jobHeap_Len s) \<le> index then Some (s, Inl ErrInvalidIndex)
            else if index < 0 then None
            else if ID (job_of m entry) \<noteq> ID (job_of m (entries jh ! nat index))
            then Some (s, Inl ErrMismatchJobEntry)
            else (let (s', r) = heap_Remove jobHeap_Interface s (nat index)
                  in Some (s', Inr r))))"

definition jobHeap_JobCountByTube :: "job_heap_state \<Rightarrow> TubeName \<Rightarrow> uint64" where
  "jobHeap_JobCountByTube s t =
     (case s of (m, jh) \<Rightarrow>
        fold (\<lambda>e count. if TubeName (job_of m e) = t then count + 1 else count)
          (entries jh) 0)"

section \<open>The interface laws\<close>

text \<open>What \<^verbatim>\<open>lessFn\<close> compares.\<close>

fun job_key :: "less_fn \<Rightarrow> Job \<Rightarrow> int \<times> uint64" where
  "job_key ByPriority j = (uint (Priority j), ID j)"
| "job_key ByReadyAt j = (ReadyAt j, ID j)"
| "job_key ByExpiresAt j = (ExpiresAt j, ID j)"
| "job_key ByBuriedAt j = (BuriedAt j, ID j)"

definition jh_elems :: "job_heap_state \<Rightarrow> ref list" where
  "jh_elems s = entries (snd s)"

definition jh_key :: "job_heap_state \<Rightarrow> ref \<Rightarrow> int \<times> uint64" where
  "jh_key s e = job_key (lessFn (snd s)) (job_of (fst s) e)"

text \<open>No entry occurs twice, and every entry knows its index.\<close>

definition jh_wf :: "job_heap_state \<Rightarrow> bool" where
  "jh_wf s \<longleftrightarrow>
     distinct (jh_elems s) \<and>
     (\<forall>i < length (jh_elems s). je_index (m_entries (fst s) (jh_elems s ! i)) = int i)"

definition jh_fresh :: "job_heap_state \<Rightarrow> ref \<Rightarrow> bool" where
  "jh_fresh s e \<longleftrightarrow> e \<notin> set (jh_elems s)"

text \<open>Only indices of entries in \<open>A\<close> differ.\<close>

definition same_but_index :: "ref set \<Rightarrow> mem \<Rightarrow> mem \<Rightarrow> bool" where
  "same_but_index A m m' \<longleftrightarrow>
     m_jobs m' = m_jobs m \<and> m_clients m' = m_clients m \<and> m_next m' = m_next m \<and>
     (\<forall>e. je_Job (m_entries m' e) = je_Job (m_entries m e)) \<and>
     (\<forall>e. e \<notin> A \<longrightarrow> m_entries m' e = m_entries m e)"

definition jh_fr :: "ref set \<Rightarrow> job_heap_state \<Rightarrow> job_heap_state \<Rightarrow> bool" where
  "jh_fr A s t \<longleftrightarrow> same_but_index A (fst s) (fst t) \<and> lessFn (snd t) = lessFn (snd s)"

lemma lessFn_apply_key: "lessFn_apply l a b \<longleftrightarrow> job_key l a < job_key l b"
  by (cases l) (auto simp: word_less_def word_uint_eq_iff)

lemma same_but_index_set_index: "x \<in> A \<Longrightarrow> same_but_index A m (set_index m x i)"
  by (simp add: same_but_index_def set_index_def)

lemma same_but_index_refl: "same_but_index A m m"
  by (simp add: same_but_index_def)

lemma same_but_index_trans:
  "same_but_index A m1 m2 \<Longrightarrow> same_but_index A m2 m3 \<Longrightarrow> same_but_index A m1 m3"
  by (simp add: same_but_index_def)

lemma same_but_index_mono: "same_but_index A m m' \<Longrightarrow> A \<subseteq> B \<Longrightarrow> same_but_index B m m'"
  by (auto simp: same_but_index_def)

lemma same_but_index_job_of: "same_but_index A m m' \<Longrightarrow> job_of m' = job_of m"
  by (auto simp: same_but_index_def job_of_def)

lemmas jh_defs = jh_elems_def jh_key_def jh_wf_def jh_fresh_def jh_fr_def

lemmas jobHeap_method_defs = jobHeap_Len_def jobHeap_Less_def jobHeap_Swap_def jobHeap_Push_def
  jobHeap_Pop_def

lemma jobHeap_Interface_sel [simp]:
  "Len jobHeap_Interface = jobHeap_Len" "Less jobHeap_Interface = jobHeap_Less"
  "Swap jobHeap_Interface = jobHeap_Swap" "Push jobHeap_Interface = jobHeap_Push"
  "Pop jobHeap_Interface = jobHeap_Pop"
  by (simp_all add: jobHeap_Interface_def)

lemma set_index_job_of [simp]: "job_of (set_index m x i) = job_of m"
  by (auto simp: job_of_def set_index_def)

interpretation jh: heap_interface jobHeap_Interface jh_elems jh_key jh_wf jh_fresh jh_fr
proof (unfold_locales, goal_cases)
  case (4 i s j)
  then show ?case
    by (cases s) (auto simp: jobHeap_Swap_def jh_wf_def jh_elems_def Let_def set_index_def
        nth_eq_iff_index_eq)
next
  case (6 i s j)
  then have "list_swap (entries (snd s)) i j ! i \<in> set (entries (snd s))"
    and "list_swap (entries (snd s)) i j ! j \<in> set (entries (snd s))"
    by (auto simp: jh_elems_def)
  then show ?case
    by (cases s) (auto simp: jobHeap_Swap_def jh_defs Let_def
        intro!: same_but_index_trans [OF same_but_index_set_index same_but_index_set_index])
next
  case (8 s x)
  then show ?case
    by (cases s) (auto simp: jobHeap_Push_def jobHeap_Len_def jh_defs Let_def set_index_def
        nth_append less_Suc_eq in_set_conv_nth)
next
  case (13 s)
  then show ?case
    by (cases s) (auto simp: jobHeap_Pop_def jh_defs Let_def set_index_def nth_eq_iff_index_eq)
next
  case (15 s)
  then show ?case
    by (cases s) (auto simp: jobHeap_Pop_def jh_defs Let_def
        intro!: same_but_index_set_index)
next
  case (17 A s t u)
  then show ?case by (auto simp: jh_fr_def intro: same_but_index_trans)
next
  case (18 A s t B)
  then show ?case by (auto simp: jh_fr_def intro: same_but_index_mono)
qed (auto simp: jobHeap_method_defs jh_defs Let_def lessFn_apply_key last_conv_nth
      butlast_conv_take same_but_index_refl same_but_index_set_index split: prod.splits)

section \<open>What the methods do\<close>

text \<open>An entry of a well-formed heap is found at its own index.\<close>

lemma jh_wf_index:
  assumes "jh_wf (m, h)" and "e \<in> set (entries h)"
  obtains i where "i < length (entries h)" and "entries h ! i = e" and "je_index (m_entries m e) = int i"
  using assms by (auto simp: jh_defs in_set_conv_nth)

definition jh_ordered :: "job_heap_state \<Rightarrow> bool" where
  "jh_ordered s \<longleftrightarrow> heap_ordered (jh_key s) (jh_elems s)"

text \<open>
  \<open>jh_removed (m, h) e (m', h')\<close>: \<open>e\<close> left the heap and nothing else happened, but for the
  indices of the heap's entries.
\<close>

definition jh_removed :: "job_heap_state \<Rightarrow> ref \<Rightarrow> job_heap_state \<Rightarrow> bool" where
  "jh_removed s e t \<longleftrightarrow>
     mset (jh_elems s) = add_mset e (mset (jh_elems t)) \<and> jh_wf t \<and>
     jh_fr (set (jh_elems s)) s t \<and> (jh_ordered s \<longrightarrow> jh_ordered t)"

lemma jh_removedI: "jh_wf s \<Longrightarrow> jh.removed s e t \<Longrightarrow> jh_removed s e t"
  by (simp add: jh.removed_def jh_removed_def jh_ordered_def)

lemma jobHeap_RemoveAt_correct:
  assumes wf: "jh_wf (m, h)" and e: "e \<in> set (entries h)"
  shows "\<exists>t. jobHeap_RemoveAt (m, h) e = Some (t, Inr e) \<and> jh_removed (m, h) e t"
proof -
  obtain i where i: "i < length (entries h)" "entries h ! i = e" "je_index (m_entries m e) = int i"
    using jh_wf_index [OF wf e] .
  obtain t x where r: "heap_Remove jobHeap_Interface (m, h) i = (t, x)" by fastforce
  have "jh.removed (m, h) x t" and "x = e"
    using jh.heap_Remove_correct [OF _ r] i by (auto simp: jh_elems_def)
  then show ?thesis using i r wf
    by (simp add: jobHeap_RemoveAt_def jobHeap_Len_def jh_removedI)
qed

lemma jobHeap_Dequeue_correct:
  assumes wf: "jh_wf (m, h)" and ne: "entries h \<noteq> []"
  shows "\<exists>t. jobHeap_Dequeue (m, h) = Some (t, je_Job (m_entries m (entries h ! 0))) \<and>
             jh_removed (m, h) (entries h ! 0) t"
proof -
  obtain t x where r: "heap_Pop jobHeap_Interface (m, h) = (t, x)" by fastforce
  have "jh.removed (m, h) x t" and "x = entries h ! 0"
    using jh.heap_Pop_correct [OF _ r] ne by (auto simp: jh_elems_def)
  moreover from this have "je_Job (m_entries (fst t) x) = je_Job (m_entries m x)"
    by (auto simp: jh.removed_def jh_fr_def same_but_index_def)
  ultimately show ?thesis using r ne wf
    by (auto simp: jobHeap_Dequeue_def jobHeap_Len_def jh_removedI)
qed

text \<open>\<open>jh_inserted (m, h) r e (m', h')\<close>: a new entry \<open>e\<close> for the job \<open>r\<close> joined the heap.\<close>

definition jh_inserted :: "job_heap_state \<Rightarrow> ref \<Rightarrow> ref \<Rightarrow> job_heap_state \<Rightarrow> bool" where
  "jh_inserted s r e t \<longleftrightarrow>
     (case (s, t) of ((m, h), (m', h')) \<Rightarrow>
        e = m_next m \<and> m_next m' = Suc (m_next m) \<and>
        m_jobs m' = m_jobs m \<and> m_clients m' = m_clients m \<and>
        je_Job (m_entries m' e) = r \<and>
        (\<forall>x. x \<noteq> e \<longrightarrow> je_Job (m_entries m' x) = je_Job (m_entries m x)) \<and>
        (\<forall>x. x \<notin> insert e (set (entries h)) \<longrightarrow> m_entries m' x = m_entries m x) \<and>
        mset (entries h') = add_mset e (mset (entries h)) \<and> lessFn h' = lessFn h \<and>
        (jh_wf (m, h) \<longrightarrow> jh_wf (m', h')) \<and> (jh_ordered (m, h) \<longrightarrow> jh_ordered (m', h')))"

lemma jobHeap_Enqueue_correct:
  assumes enq: "jobHeap_Enqueue (m, h) r = (t, e)" and new: "m_next m \<notin> set (entries h)"
  shows "jh_inserted (m, h) r e t"
proof -
  define m1 where "m1 = fst (new_entry m \<lparr>je_Job = r, je_index = 0\<rparr>)"
  obtain m' h' where t: "t = (m', h')" by fastforce
  have e: "e = m_next m" and h': "(m', h') = heap_Push jobHeap_Interface (m1, h) e"
    using enq t by (auto simp: jobHeap_Enqueue_def m1_def new_entry_def)
  note push = jh.heap_Push_correct [OF h']
  have m1: "m_entries m1 = (m_entries m)(e := \<lparr>je_Job = r, je_index = 0\<rparr>)"
      "m_jobs m1 = m_jobs m" "m_clients m1 = m_clients m" "m_next m1 = Suc (m_next m)"
    by (simp_all add: m1_def new_entry_def e)
  have fr: "same_but_index (insert e (set (entries h))) m1 m'" "lessFn h' = lessFn h"
    using push(4) by (auto simp: jh_defs)
  have wf: "jh_wf (m', h')" if "jh_wf (m, h)"
  proof (rule push(3))
    have "entries h ! i \<noteq> e" if "i < length (entries h)" for i
      using new nth_mem [OF that] unfolding e by metis
    then show "jh_wf (m1, h)" using that m1 by (auto simp: jh_defs)
    show "jh_fresh (m1, h) e" using new e by (simp add: jh_defs)
  qed
  have ord: "jh_ordered (m', h')" if "jh_ordered (m, h)"
  proof -
    have "jh_key (m1, h) x = jh_key (m, h) x" if "x \<in> set (entries h)" for x
      using that new m1 e by (auto simp: jh_key_def job_of_def)
    then have "heap_ordered (jh_key (m1, h)) (entries h) = heap_ordered (jh_key (m, h)) (entries h)"
      by (intro heap_ordered_cong) auto
    then have "jh_ordered (m1, h)"
      using that by (simp add: jh_ordered_def jh_elems_def)
    then show ?thesis using push(2,5) by (simp add: jh_ordered_def)
  qed
  have "je_Job (m_entries m' x) = je_Job (m_entries m1 x)" for x
    using fr(1) by (simp add: same_but_index_def)
  then show ?thesis
    using wf ord fr push(1) m1 e t
    by (simp add: jh_inserted_def jh_elems_def same_but_index_def)
qed

text \<open>The root of a heap is a least entry.\<close>

lemma jobHeap_Peek_least:
  assumes "jh_ordered (m, h)" and "jobHeap_Peek h = Some e" and "x \<in> set (entries h)"
  shows "job_key (lessFn h) (job_of m e) \<le> job_key (lessFn h) (job_of m x)"
  using assms heap_ordered_root_le [of "jh_key (m, h)" "entries h" x]
  by (auto simp: jh_ordered_def jh_defs jobHeap_Peek_def split: if_splits)

lemma jobHeap_Peek_mem: "jobHeap_Peek h = Some e \<Longrightarrow> e \<in> set (entries h)"
  by (auto simp: jobHeap_Peek_def split: if_splits)

section \<open>Properties\<close>

text \<open>
  C26: \<^verbatim>\<open>RemoveAt\<close> on an entry of a well-formed job heap succeeds and removes exactly that
  entry; every remaining entry knows its new index, and if the heap was ordered it still is.
\<close>

theorem RemoveAt_removes:
  assumes "jh_wf (m, h)" and "e \<in> set (entries h)"
  shows "\<exists>m' h'. jobHeap_RemoveAt (m, h) e = Some ((m', h'), Inr e) \<and>
           mset (entries h) = add_mset e (mset (entries h')) \<and> jh_wf (m', h') \<and>
           (jh_ordered (m, h) \<longrightarrow> jh_ordered (m', h'))"
  using jobHeap_RemoveAt_correct [OF assms] by (auto simp: jh_removed_def jh_elems_def)

theorem RemoveAt_removes_witness:
  "jh_wf (empty_mem, \<lparr>entries = [7], lessFn = ByPriority\<rparr>) \<and> (7 :: nat) \<in> set (entries \<lparr>entries = [7], lessFn = ByPriority\<rparr>) \<and>
   (\<exists>m' h'. jobHeap_RemoveAt (empty_mem, \<lparr>entries = [7], lessFn = ByPriority\<rparr>) 7 = Some ((m', h'), Inr 7) \<and>
           mset (entries \<lparr>entries = [7], lessFn = ByPriority\<rparr>) = add_mset 7 (mset (entries h')) \<and> jh_wf (m', h') \<and>
           (jh_ordered (empty_mem, \<lparr>entries = [7], lessFn = ByPriority\<rparr>) \<longrightarrow> jh_ordered (m', h')))"
proof -
  have h: "jh_wf (empty_mem, \<lparr>entries = [7], lessFn = ByPriority\<rparr>)"
    "(7 :: nat) \<in> set (entries \<lparr>entries = [7], lessFn = ByPriority\<rparr>)"
    by (simp_all add: jh_defs empty_mem_def)
  show ?thesis using RemoveAt_removes [OF h] h by (intro conjI)
qed

text \<open>
  C27: \<^verbatim>\<open>Dequeue\<close> on an ordered heap with entries returns the job of an entry that comes first
  in the order of the heap (the priority, the burial time, the expiry or the ready time, with
  ties broken by the id), and leaves an ordered heap of the other entries.
\<close>

theorem Dequeue_takes_first:
  assumes "jh_wf (m, h)" and "jh_ordered (m, h)" and "entries h \<noteq> []"
  shows "\<exists>m' h' e. jobHeap_Dequeue (m, h) = Some ((m', h'), je_Job (m_entries m e)) \<and>
           mset (entries h) = add_mset e (mset (entries h')) \<and> jh_wf (m', h') \<and> jh_ordered (m', h') \<and>
           (\<forall>x \<in> set (entries h'). \<not> lessFn_apply (lessFn h) (job_of m x) (job_of m e))"
proof -
  obtain m' h' where d: "jobHeap_Dequeue (m, h) = Some ((m', h'), je_Job (m_entries m (entries h ! 0)))"
      "jh_removed (m, h) (entries h ! 0) (m', h')"
    using jobHeap_Dequeue_correct [OF assms(1,3)] by auto
  have "\<not> lessFn_apply (lessFn h) (job_of m x) (job_of m (entries h ! 0))" if "x \<in> set (entries h')" for x
  proof -
    have "set_mset (mset (entries h)) = insert (entries h ! 0) (set (entries h'))"
      using d(2) by (simp add: jh_removed_def jh_elems_def)
    with that have "x \<in> set (entries h)" by simp
    with jobHeap_Peek_least [OF assms(2), of "entries h ! 0" x] assms(3)
    show ?thesis by (simp add: lessFn_apply_key jobHeap_Peek_def jobHeap_Len_def not_less)
  qed
  with d assms(2) show ?thesis by (auto simp: jh_removed_def jh_elems_def)
qed

theorem Dequeue_takes_first_witness:
  "jh_wf (empty_mem, \<lparr>entries = [7], lessFn = ByExpiresAt\<rparr>) \<and> jh_ordered (empty_mem, \<lparr>entries = [7], lessFn = ByExpiresAt\<rparr>) \<and>
   entries \<lparr>entries = [7], lessFn = ByExpiresAt\<rparr> \<noteq> [] \<and>
   (\<exists>m' h' e. jobHeap_Dequeue (empty_mem, \<lparr>entries = [7], lessFn = ByExpiresAt\<rparr>) = Some ((m', h'), je_Job (m_entries empty_mem e)) \<and>
           mset (entries \<lparr>entries = [7], lessFn = ByExpiresAt\<rparr>) = add_mset e (mset (entries h')) \<and> jh_wf (m', h') \<and> jh_ordered (m', h') \<and>
           (\<forall>x \<in> set (entries h'). \<not> lessFn_apply (lessFn \<lparr>entries = [7], lessFn = ByExpiresAt\<rparr>) (job_of empty_mem x) (job_of empty_mem e)))"
proof -
  have h: "jh_wf (empty_mem, \<lparr>entries = [7], lessFn = ByExpiresAt\<rparr>)" "jh_ordered (empty_mem, \<lparr>entries = [7], lessFn = ByExpiresAt\<rparr>)"
    "entries \<lparr>entries = [7], lessFn = ByExpiresAt\<rparr> \<noteq> []"
    by (simp_all add: jh_defs empty_mem_def jh_ordered_def heap_ordered_def heap_ok_def)
  show ?thesis using Dequeue_takes_first [OF h] h by (intro conjI)
qed

end
