(* ===== verification/Client_Resv.thy ===== *)
theory Client_Resv
  imports Memory Go_Heap
begin

text \<open>
  \<^verbatim>\<open>state/client_resv.go\<close>: the heap of client entries ordered by the time they need
  processing, the queue of client entries indexed by client id, and the plain map of
  client entries. Entries are shared by pointer between the client index, the wait queues
  of the tubes and the heap; the heap writes its index into the shared entry.
\<close>

section \<open>The heap of client entries\<close>

type_synonym clientResvHeap = "ref list"
type_synonym client_heap_state = "mem \<times> clientResvHeap"

definition clientResvHeap_Len :: "client_heap_state \<Rightarrow> nat" where
  "clientResvHeap_Len s = (case s of (m, h) \<Rightarrow> length h)"

definition clientResvHeap_Less :: "client_heap_state \<Rightarrow> nat \<Rightarrow> nat \<Rightarrow> bool" where
  "clientResvHeap_Less s i j =
     (case s of (m, h) \<Rightarrow>
        (let a = m_clients m (h ! i); b = m_clients m (h ! j)
         in if TickAt a = TickAt b then CliID a < CliID b else TickAt a < TickAt b))"

definition set_heap_index :: "mem \<Rightarrow> ref \<Rightarrow> int \<Rightarrow> mem" where
  "set_heap_index m c i = upd_client m c (\<lambda>cli. cli\<lparr>HeapIndex := i\<rparr>)"

definition clientResvHeap_Swap :: "client_heap_state \<Rightarrow> nat \<Rightarrow> nat \<Rightarrow> client_heap_state" where
  "clientResvHeap_Swap s i j =
     (case s of (m, h) \<Rightarrow>
        (let h = list_swap h i j;
             m = set_heap_index m (h ! i) (int i);
             m = set_heap_index m (h ! j) (int j)
         in (m, h)))"

definition clientResvHeap_Push :: "client_heap_state \<Rightarrow> ref \<Rightarrow> client_heap_state" where
  "clientResvHeap_Push s item =
     (case s of (m, h) \<Rightarrow>
        (let n = clientResvHeap_Len s in (set_heap_index m item (int n), h @ [item])))"

definition clientResvHeap_Pop :: "client_heap_state \<Rightarrow> client_heap_state \<times> ref" where
  "clientResvHeap_Pop s =
     (case s of (m, old) \<Rightarrow>
        (let n = length old; item = old ! (n - 1)
         in ((set_heap_index m item (-1), take (n - 1) old), item)))"

definition clientResvHeap_Interface :: "(client_heap_state, ref) heap_Interface" where
  "clientResvHeap_Interface =
     \<lparr>Len = clientResvHeap_Len, Less = clientResvHeap_Less, Swap = clientResvHeap_Swap,
      Push = clientResvHeap_Push, Pop = clientResvHeap_Pop\<rparr>"

definition newClientResvHeap :: clientResvHeap where
  "newClientResvHeap = []"

definition initializeHeap :: "client_heap_state \<Rightarrow> client_heap_state" where
  "initializeHeap s = heap_Init clientResvHeap_Interface s"

definition clientResvHeap_Enqueue :: "client_heap_state \<Rightarrow> ref \<Rightarrow> client_heap_state" where
  "clientResvHeap_Enqueue s cli = heap_Push clientResvHeap_Interface s cli"

text \<open>\<^verbatim>\<open>heap.Pop\<close> on an empty slice panics.\<close>

definition clientResvHeap_Dequeue :: "client_heap_state \<Rightarrow> (client_heap_state \<times> ref) option" where
  "clientResvHeap_Dequeue s =
     (if clientResvHeap_Len s = 0 then None else Some (heap_Pop clientResvHeap_Interface s))"

definition clientResvHeap_Remove ::
    "client_heap_state \<Rightarrow> ref \<Rightarrow> (client_heap_state \<times> error option) option" where
  "clientResvHeap_Remove s cli =
     (case s of (m, h) \<Rightarrow>
        (let i = HeapIndex (m_clients m cli)
         in if int (clientResvHeap_Len s) \<le> i then Some (s, Some ErrInvalidIndex)
            else if i < 0 then None
            else if CliID (m_clients m cli) \<noteq> CliID (m_clients m (h ! nat i))
            then Some (s, Some ErrMismatchJobEntry)
            else Some (fst (heap_Remove clientResvHeap_Interface s (nat i)), None)))"

definition clientResvHeap_Peek :: "client_heap_state \<Rightarrow> ref option" where
  "clientResvHeap_Peek s =
     (case s of (m, h) \<Rightarrow> if clientResvHeap_Len s = 0 then None else Some (h ! 0))"

text \<open>
  \<^verbatim>\<open>heap.Fix\<close> at an index outside the slice panics, except that it does nothing at
  index 0 of an empty slice and at index -1.
\<close>

definition clientResvHeap_UpdateTickAt ::
    "client_heap_state \<Rightarrow> ref \<Rightarrow> int64 \<Rightarrow> client_heap_state option" where
  "clientResvHeap_UpdateTickAt s cli newTickAt =
     (case s of (m, h) \<Rightarrow>
        (let m = upd_client m cli (\<lambda>c. c\<lparr>TickAt := newTickAt\<rparr>);
             i = HeapIndex (m_clients m cli)
         in if 0 \<le> i \<and> i < int (length h)
            then Some (heap_Fix clientResvHeap_Interface (m, h) (nat i))
            else if i = -1 \<or> (i = 0 \<and> h = []) then Some (m, h)
            else None))"

section \<open>The queue of client entries\<close>

text \<open>
  Go's \<^verbatim>\<open>container/list\<close>: elements are pointers, so two elements with the same value
  are told apart; an element here carries a number that plays the role of its address.
\<close>

record Element =
  el_id :: nat
  el_Value :: ref

record GoList =
  l_items :: "Element list"
  l_next :: nat

definition list_New :: GoList where
  "list_New = \<lparr>l_items = [], l_next = 0\<rparr>"

definition list_PushBack :: "GoList \<Rightarrow> ref \<Rightarrow> GoList \<times> Element" where
  "list_PushBack l v =
     (let e = \<lparr>el_id = l_next l, el_Value = v\<rparr>
      in (l\<lparr>l_items := l_items l @ [e], l_next := Suc (l_next l)\<rparr>, e))"

definition list_Remove :: "GoList \<Rightarrow> Element \<Rightarrow> GoList" where
  "list_Remove l e = l\<lparr>l_items := filter (\<lambda>x. el_id x \<noteq> el_id e) (l_items l)\<rparr>"

record clientResvQueue =
  q_m :: "(ClientID, Element) gomap"
  q_l :: GoList

definition newClientResvQueue :: clientResvQueue where
  "newClientResvQueue = \<lparr>q_m = [], q_l = list_New\<rparr>"

definition clientResvQueue_Contains :: "mem \<Rightarrow> clientResvQueue \<Rightarrow> ref \<Rightarrow> bool" where
  "clientResvQueue_Contains m c entry = (mget (q_m c) (CliID (m_clients m entry)) \<noteq> None)"

definition clientResvQueue_Enqueue ::
    "mem \<Rightarrow> clientResvQueue \<Rightarrow> ref \<Rightarrow> clientResvQueue \<times> error option" where
  "clientResvQueue_Enqueue m c entry =
     (if clientResvQueue_Contains m c entry then (c, Some (Wrapped ErrEntryExists))
      else (let (l, elem) = list_PushBack (q_l c) entry
            in (c\<lparr>q_l := l, q_m := mput (q_m c) (CliID (m_clients m entry)) elem\<rparr>, None)))"

definition clientResvQueue_Find :: "clientResvQueue \<Rightarrow> ClientID \<Rightarrow> error + ref" where
  "clientResvQueue_Find c clientID =
     (case mget (q_m c) clientID of
        None \<Rightarrow> Inl ErrEntryMissing
      | Some elem \<Rightarrow> Inr (el_Value elem))"

definition clientResvQueue_Remove ::
    "mem \<Rightarrow> clientResvQueue \<Rightarrow> ref \<Rightarrow> clientResvQueue \<times> error option" where
  "clientResvQueue_Remove m c entry =
     (case mget (q_m c) (CliID (m_clients m entry)) of
        None \<Rightarrow> (c, Some ErrEntryMissing)
      | Some elem \<Rightarrow>
          (c\<lparr>q_l := list_Remove (q_l c) elem, q_m := mdel (q_m c) (CliID (m_clients m entry))\<rparr>,
           None))"

definition clientResvQueue_Len :: "clientResvQueue \<Rightarrow> nat" where
  "clientResvQueue_Len c = length (q_m c)"

definition clientResvQueue_Dequeue :: "clientResvQueue \<Rightarrow> error + ref" where
  "clientResvQueue_Dequeue c =
     (case l_items (q_l c) of
        [] \<Rightarrow> Inl ErrContainerEmpty
      | firstElem # _ \<Rightarrow> Inr (el_Value firstElem))"

text \<open>The entries sent on the channel: those with a heap index.\<close>

definition clientResvQueue_Entries :: "mem \<Rightarrow> clientResvQueue \<Rightarrow> ref list" where
  "clientResvQueue_Entries m c =
     filter (\<lambda>cli. \<not> HeapIndex (m_clients m cli) < 0) (map el_Value (l_items (q_l c)))"

section \<open>The map of client entries\<close>

type_synonym clientResvMap = "(ClientID, ref) gomap"

definition clientResvMap_Contains :: "clientResvMap \<Rightarrow> ClientID \<Rightarrow> bool" where
  "clientResvMap_Contains c i = (mget c i \<noteq> None)"

definition clientResvMap_Put :: "mem \<Rightarrow> clientResvMap \<Rightarrow> ref \<Rightarrow> clientResvMap \<times> error option" where
  "clientResvMap_Put m c entry =
     (if clientResvMap_Contains c (CliID (m_clients m entry))
      then (c, Some (Wrapped ErrEntryExists))
      else (mput c (CliID (m_clients m entry)) entry, None))"

definition clientResvMap_Get :: "clientResvMap \<Rightarrow> ClientID \<Rightarrow> error + ref" where
  "clientResvMap_Get c i =
     (case mget c i of None \<Rightarrow> Inl ErrEntryMissing | Some entry \<Rightarrow> Inr entry)"

definition clientResvMap_Remove :: "clientResvMap \<Rightarrow> ClientID \<Rightarrow> clientResvMap \<times> error option" where
  "clientResvMap_Remove c i =
     (if \<not> clientResvMap_Contains c i then (c, Some ErrEntryMissing) else (mdel c i, None))"

definition clientResvMap_AddOrUpdate ::
    "mem \<Rightarrow> clientResvMap \<Rightarrow> ClientID \<Rightarrow> TubeName list \<Rightarrow> string \<Rightarrow> int64 \<Rightarrow>
     (mem \<times> clientResvMap) \<times> (error + ref)" where
  "clientResvMap_AddOrUpdate m c i watchedTubes reqID resvDeadlineAt =
     (case mget c i of
        Some entry \<Rightarrow>
          ((upd_client m entry (\<lambda>e. e\<lparr>ReqID := reqID, ResvDeadlineAt := resvDeadlineAt\<rparr>), c),
           Inr entry)
      | None \<Rightarrow>
          (let (m, entry) = new_client m \<lparr>CliID = i, WatchedTubes = watchedTubes,
                 ResvDeadlineAt = resvDeadlineAt, IsWaitingForResv = True, TickAt = 0,
                 ReqID = reqID, HeapIndex = -1\<rparr>
           in case clientResvMap_Put m c entry of
                (c, Some err) \<Rightarrow> ((m, c), Inl err)
              | (c, None) \<Rightarrow> ((m, c), Inr entry)))"

section \<open>The heap satisfies the interface laws\<close>

definition ch_elems :: "client_heap_state \<Rightarrow> ref list" where
  "ch_elems s = snd s"

definition client_key :: "ClientResvEntry \<Rightarrow> int \<times> string" where
  "client_key c = (TickAt c, CliID c)"

definition ch_key :: "client_heap_state \<Rightarrow> ref \<Rightarrow> int \<times> string" where
  "ch_key s c = client_key (m_clients (fst s) c)"

text \<open>No entry occurs twice, and every entry knows its index.\<close>

definition ch_wf :: "client_heap_state \<Rightarrow> bool" where
  "ch_wf s \<longleftrightarrow>
     distinct (ch_elems s) \<and>
     (\<forall>i < length (ch_elems s). HeapIndex (m_clients (fst s) (ch_elems s ! i)) = int i)"

definition ch_fresh :: "client_heap_state \<Rightarrow> ref \<Rightarrow> bool" where
  "ch_fresh s c \<longleftrightarrow> c \<notin> set (ch_elems s)"

text \<open>Only heap indices of entries in \<open>A\<close> differ.\<close>

definition same_but_heap_index :: "ref set \<Rightarrow> mem \<Rightarrow> mem \<Rightarrow> bool" where
  "same_but_heap_index A m m' \<longleftrightarrow>
     m_jobs m' = m_jobs m \<and> m_entries m' = m_entries m \<and> m_next m' = m_next m \<and>
     (\<forall>c. \<exists>i. m_clients m' c = (m_clients m c)\<lparr>HeapIndex := i\<rparr>) \<and>
     (\<forall>c. c \<notin> A \<longrightarrow> m_clients m' c = m_clients m c)"

definition ch_fr :: "ref set \<Rightarrow> client_heap_state \<Rightarrow> client_heap_state \<Rightarrow> bool" where
  "ch_fr A s t \<longleftrightarrow> same_but_heap_index A (fst s) (fst t)"

lemma HeapIndex_same: "\<exists>i. c = (c :: ClientResvEntry)\<lparr>HeapIndex := i\<rparr>"
  by (rule exI [of _ "HeapIndex c"]) simp

lemma same_but_heap_index_set: "c \<in> A \<Longrightarrow> same_but_heap_index A m (set_heap_index m c i)"
  unfolding same_but_heap_index_def set_heap_index_def upd_client_def
  by (auto simp: HeapIndex_same)

lemma same_but_heap_index_refl: "same_but_heap_index A m m"
  unfolding same_but_heap_index_def by (auto simp: HeapIndex_same)

lemma same_but_heap_index_trans:
  assumes "same_but_heap_index A m1 m2" and "same_but_heap_index A m2 m3"
  shows "same_but_heap_index A m1 m3"
proof -
  have "\<exists>i. m_clients m3 c = (m_clients m1 c)\<lparr>HeapIndex := i\<rparr>" for c
  proof -
    obtain i j where "m_clients m2 c = (m_clients m1 c)\<lparr>HeapIndex := i\<rparr>"
      and "m_clients m3 c = (m_clients m2 c)\<lparr>HeapIndex := j\<rparr>"
      using assms unfolding same_but_heap_index_def by meson
    then show ?thesis by auto
  qed
  then show ?thesis using assms by (simp add: same_but_heap_index_def)
qed

lemma same_but_heap_index_mono:
  "same_but_heap_index A m m' \<Longrightarrow> A \<subseteq> B \<Longrightarrow> same_but_heap_index B m m'"
  by (auto simp: same_but_heap_index_def)

lemma same_but_heap_indexD:
  assumes "same_but_heap_index A m m'"
  shows "CliID (m_clients m' c) = CliID (m_clients m c)"
    and "WatchedTubes (m_clients m' c) = WatchedTubes (m_clients m c)"
    and "ResvDeadlineAt (m_clients m' c) = ResvDeadlineAt (m_clients m c)"
    and "IsWaitingForResv (m_clients m' c) = IsWaitingForResv (m_clients m c)"
    and "TickAt (m_clients m' c) = TickAt (m_clients m c)"
    and "ReqID (m_clients m' c) = ReqID (m_clients m c)"
    and "client_key (m_clients m' c) = client_key (m_clients m c)"
    and "m_jobs m' = m_jobs m" and "m_entries m' = m_entries m" and "m_next m' = m_next m"
    and "c \<notin> A \<Longrightarrow> m_clients m' c = m_clients m c"
proof -
  obtain i where "m_clients m' c = (m_clients m c)\<lparr>HeapIndex := i\<rparr>"
    using assms unfolding same_but_heap_index_def by meson
  then show "CliID (m_clients m' c) = CliID (m_clients m c)"
    and "WatchedTubes (m_clients m' c) = WatchedTubes (m_clients m c)"
    and "ResvDeadlineAt (m_clients m' c) = ResvDeadlineAt (m_clients m c)"
    and "IsWaitingForResv (m_clients m' c) = IsWaitingForResv (m_clients m c)"
    and "TickAt (m_clients m' c) = TickAt (m_clients m c)"
    and "ReqID (m_clients m' c) = ReqID (m_clients m c)"
    and "client_key (m_clients m' c) = client_key (m_clients m c)"
    by (simp_all add: client_key_def)
qed (use assms in \<open>auto simp: same_but_heap_index_def\<close>)

lemma clientResvHeap_Interface_sel [simp]:
  "Len clientResvHeap_Interface = clientResvHeap_Len"
  "Less clientResvHeap_Interface = clientResvHeap_Less"
  "Swap clientResvHeap_Interface = clientResvHeap_Swap"
  "Push clientResvHeap_Interface = clientResvHeap_Push"
  "Pop clientResvHeap_Interface = clientResvHeap_Pop"
  by (simp_all add: clientResvHeap_Interface_def)

lemmas clientResvHeap_method_defs = clientResvHeap_Len_def clientResvHeap_Less_def
  clientResvHeap_Swap_def clientResvHeap_Push_def clientResvHeap_Pop_def

lemmas ch_defs = ch_elems_def ch_key_def ch_wf_def ch_fresh_def ch_fr_def

lemma set_heap_index_clients:
  "m_clients (set_heap_index m x i) c =
     (if c = x then (m_clients m x)\<lparr>HeapIndex := i\<rparr> else m_clients m c)"
  by (simp add: set_heap_index_def upd_client_def)

lemma client_key_set_heap_index [simp]:
  "client_key (m_clients (set_heap_index m x i) c) = client_key (m_clients m c)"
  by (simp add: set_heap_index_clients client_key_def)

interpretation ch: heap_interface clientResvHeap_Interface ch_elems ch_key ch_wf ch_fresh ch_fr
proof (unfold_locales, goal_cases)
  case (2 i s j)
  then show ?case
    by (cases s) (auto simp: clientResvHeap_Less_def ch_defs Let_def client_key_def)
next
  case (4 i s j)
  then show ?case
    by (cases s) (auto simp: clientResvHeap_Swap_def ch_defs Let_def set_heap_index_clients
        nth_eq_iff_index_eq)
next
  case (6 i s j)
  then have "list_swap (snd s) i j ! i \<in> set (snd s)" and "list_swap (snd s) i j ! j \<in> set (snd s)"
    by (auto simp: ch_elems_def)
  then show ?case
    by (cases s) (auto simp: clientResvHeap_Swap_def ch_defs Let_def
        intro!: same_but_heap_index_trans [OF same_but_heap_index_set same_but_heap_index_set])
next
  case (8 s x)
  then show ?case
    by (cases s) (auto simp: clientResvHeap_Push_def clientResvHeap_Len_def ch_defs Let_def
        set_heap_index_clients nth_append less_Suc_eq in_set_conv_nth)
next
  case (13 s)
  then show ?case
    by (cases s) (auto simp: clientResvHeap_Pop_def ch_defs Let_def set_heap_index_clients
        nth_eq_iff_index_eq)
next
  case (15 s)
  then show ?case
    by (cases s) (auto simp: clientResvHeap_Pop_def ch_defs Let_def
        intro!: same_but_heap_index_set)
next
  case (17 A s t u)
  then show ?case by (auto simp: ch_fr_def intro: same_but_heap_index_trans)
next
  case (18 A s t B)
  then show ?case by (auto simp: ch_fr_def intro: same_but_heap_index_mono)
qed (auto simp: clientResvHeap_method_defs ch_defs Let_def last_conv_nth
      butlast_conv_take same_but_heap_index_refl same_but_heap_index_set split: prod.splits)

section \<open>What the heap methods do\<close>

definition ch_ordered :: "client_heap_state \<Rightarrow> bool" where
  "ch_ordered s \<longleftrightarrow> heap_ordered (ch_key s) (ch_elems s)"

lemma ch_wf_index:
  assumes "ch_wf (m, h)" and "c \<in> set h"
  obtains i where "i < length h" and "h ! i = c" and "HeapIndex (m_clients m c) = int i"
  using assms by (auto simp: ch_defs in_set_conv_nth)

text \<open>
  \<open>ch_removed (m, h) c (m', h')\<close>: \<open>c\<close> left the heap, its heap index is -1, and nothing else
  happened but for the indices of the heap's entries.
\<close>

definition ch_removed :: "client_heap_state \<Rightarrow> ref \<Rightarrow> client_heap_state \<Rightarrow> bool" where
  "ch_removed s c t \<longleftrightarrow>
     mset (ch_elems s) = add_mset c (mset (ch_elems t)) \<and> ch_wf t \<and>
     ch_fr (set (ch_elems s)) s t \<and> HeapIndex (m_clients (fst t) c) = -1 \<and>
     (ch_ordered s \<longrightarrow> ch_ordered t)"

lemma clientResvHeap_Pop_index:
  "clientResvHeap_Pop s = (t, c) \<Longrightarrow> HeapIndex (m_clients (fst t) c) = -1"
  by (auto simp: clientResvHeap_Pop_def Let_def set_heap_index_clients split: prod.splits)

lemma ch_removedI:
  "ch_wf s \<Longrightarrow> ch.removed s c t \<Longrightarrow> HeapIndex (m_clients (fst t) c) = -1 \<Longrightarrow> ch_removed s c t"
  by (simp add: ch.removed_def ch_removed_def ch_ordered_def)

lemma clientResvHeap_Dequeue_correct:
  assumes wf: "ch_wf (m, h)" and ne: "h \<noteq> []"
  shows "\<exists>t. clientResvHeap_Dequeue (m, h) = Some (t, h ! 0) \<and> ch_removed (m, h) (h ! 0) t"
proof -
  obtain t x where r: "heap_Pop clientResvHeap_Interface (m, h) = (t, x)" by fastforce
  have "ch.removed (m, h) x t" and "x = h ! 0"
    using ch.heap_Pop_correct [OF _ r] ne by (auto simp: ch_elems_def)
  moreover have "HeapIndex (m_clients (fst t) x) = -1"
    using r unfolding heap_Pop_def by (auto simp: Let_def clientResvHeap_Pop_index split: prod.splits)
  ultimately show ?thesis using r ne wf
    by (auto simp: clientResvHeap_Dequeue_def clientResvHeap_Len_def ch_removedI)
qed

lemma clientResvHeap_Remove_correct:
  assumes wf: "ch_wf (m, h)" and c: "c \<in> set h"
  shows "\<exists>t. clientResvHeap_Remove (m, h) c = Some (t, None) \<and> ch_removed (m, h) c t"
proof -
  obtain i where i: "i < length h" "h ! i = c" "HeapIndex (m_clients m c) = int i"
    using ch_wf_index [OF wf c] .
  obtain t x where r: "heap_Remove clientResvHeap_Interface (m, h) i = (t, x)" by fastforce
  have "ch.removed (m, h) x t" and "x = c"
    using ch.heap_Remove_correct [OF _ r] i by (auto simp: ch_elems_def)
  moreover have "HeapIndex (m_clients (fst t) x) = -1"
    using r unfolding heap_Remove_def by (auto simp: Let_def clientResvHeap_Pop_index)
  ultimately show ?thesis using i r wf
    by (auto simp: clientResvHeap_Remove_def clientResvHeap_Len_def Let_def ch_removedI)
qed

text \<open>\<open>ch_inserted (m, h) c (m', h')\<close>: \<open>c\<close> joined the heap.\<close>

definition ch_inserted :: "client_heap_state \<Rightarrow> ref \<Rightarrow> client_heap_state \<Rightarrow> bool" where
  "ch_inserted s c t \<longleftrightarrow>
     mset (ch_elems t) = add_mset c (mset (ch_elems s)) \<and> ch_wf t \<and>
     ch_fr (insert c (set (ch_elems s))) s t \<and> (ch_ordered s \<longrightarrow> ch_ordered t)"

lemma clientResvHeap_Enqueue_correct:
  assumes "ch_wf (m, h)" and "c \<notin> set h"
  shows "ch_inserted (m, h) c (clientResvHeap_Enqueue (m, h) c)"
proof -
  note push = ch.heap_Push_correct [where s = "(m, h)" and x = c, OF refl]
  have "ch_fresh (m, h) c" using assms by (simp add: ch_defs)
  with assms push show ?thesis
    by (simp add: ch_inserted_def clientResvHeap_Enqueue_def ch_ordered_def)
qed

text \<open>\<^verbatim>\<open>heap.Fix\<close> after a change of one key restores the order.\<close>

lemma one_key_changed:
  assumes ord: "heap_ordered f xs" and i: "i < length xs"
    and g: "\<And>k. k < length xs \<Longrightarrow> k \<noteq> i \<Longrightarrow> g (xs ! k) = f (xs ! k)"
  shows "heap_ok g xs 0 (length xs) (insert i (children i))"
    and "grand_ok g xs 0 (length xs) i"
proof -
  have old: "f (xs ! parent k) \<le> f (xs ! k)" if "k < length xs" "0 < k" for k
    using heap_okD [OF ord [unfolded heap_ordered_def]] that by simp
  show "heap_ok g xs 0 (length xs) (insert i (children i))"
    unfolding heap_ok_def
  proof (intro allI impI)
    fix k assume k: "k < length xs" "0 < k" "k \<notin> insert i (children i)"
    then have "parent k \<noteq> i" "parent k < length xs" using parent_less [of k] by auto
    with k show "g (xs ! parent k) \<le> g (xs ! k)"
      using g [of k] g [of "parent k"] old [of k] by simp
  qed
  show "grand_ok g xs 0 (length xs) i"
    unfolding grand_ok_def
  proof (intro allI impI)
    fix c assume i0: "0 < i" and c: "c < length xs" "0 < c" "parent c = i"
    have "f (xs ! parent i) \<le> f (xs ! c)" using old [of i] old [of c] c i0 i by auto
    moreover have "c \<noteq> i" "parent i \<noteq> i" "parent i < length xs"
      using c i i0 parent_less [of c] parent_less [of i] by auto
    ultimately show "g (xs ! parent i) \<le> g (xs ! c)"
      using g [of c] g [of "parent i"] c by simp
  qed
qed

lemma clientResvHeap_UpdateTickAt_correct:
  fixes v :: int64
  assumes wf: "ch_wf (m, h)" and c: "c \<in> set h"
  defines "m1 \<equiv> upd_client m c (\<lambda>e. e\<lparr>TickAt := v\<rparr>)"
  shows "\<exists>m' h'. clientResvHeap_UpdateTickAt (m, h) c v = Some (m', h') \<and>
           mset h' = mset h \<and> ch_wf (m', h') \<and> same_but_heap_index (set h) m1 m' \<and>
           (ch_ordered (m, h) \<longrightarrow> ch_ordered (m', h'))"
proof -
  obtain i where i: "i < length h" "h ! i = c" "HeapIndex (m_clients m c) = int i"
    using ch_wf_index [OF wf c] .
  have i1: "HeapIndex (m_clients m1 x) = HeapIndex (m_clients m x)" for x
    by (simp add: m1_def upd_client_def)
  then have wf1: "ch_wf (m1, h)" using wf by (simp add: ch_defs)
  obtain m' h' where f: "heap_Fix clientResvHeap_Interface (m1, h) i = (m', h')" by fastforce
  have re: "ch.rearranged (length h) (m1, h) (m', h')"
    using ch.heap_Fix_correct(1) [of i "(m1, h)"] i f by (simp add: ch_elems_def)
  have "ch_ordered (m', h')" if ord: "ch_ordered (m, h)"
  proof -
    have "ch_key (m1, h) (h ! k) = ch_key (m, h) (h ! k)" if "k < length h" "k \<noteq> i" for k
    proof -
      have "h ! k \<noteq> c" using that i wf by (auto simp: ch_defs nth_eq_iff_index_eq)
      then show ?thesis by (simp add: ch_key_def m1_def upd_client_def)
    qed
    then have "heap_ordered (ch_key (m1, h)) (ch_elems (heap_Fix clientResvHeap_Interface (m1, h) i))"
      using one_key_changed [of "ch_key (m, h)" h i "ch_key (m1, h)"] ord i
      by (intro ch.heap_Fix_correct(2)) (auto simp: ch_ordered_def ch_elems_def)
    then show ?thesis using f re by (simp add: ch_ordered_def ch.rearranged_def)
  qed
  moreover have "clientResvHeap_UpdateTickAt (m, h) c v = Some (m', h')"
    using i f by (simp add: clientResvHeap_UpdateTickAt_def m1_def [symmetric] Let_def i1)
  ultimately show ?thesis using re wf1
    by (auto simp: ch.rearranged_def ch_elems_def ch_fr_def)
qed

lemma initializeHeap_ok:
  assumes "ch_wf (m, h)"
  shows "\<exists>m' h'. initializeHeap (m, h) = (m', h') \<and> mset h' = mset h \<and> ch_wf (m', h') \<and>
           ch_ordered (m', h') \<and> same_but_heap_index (set h) m m'"
  using ch.heap_Init_correct [of "(m, h)"] assms
  by (cases "initializeHeap (m, h)")
    (simp add: initializeHeap_def ch_ordered_def ch.rearranged_def ch_fr_def, simp add: ch_elems_def)

lemma clientResvHeap_Peek_least:
  assumes "ch_ordered (m, h)" and "c \<in> set h"
  shows "TickAt (m_clients m (h ! 0)) \<le> TickAt (m_clients m c)"
  using assms heap_ordered_root_le [of "ch_key (m, h)" h c]
  by (auto simp: ch_ordered_def ch_defs client_key_def)

section \<open>The interface of the queue\<close>

text \<open>
  A first-in-first-out queue indexed by a key: \<open>items\<close> lists the queued values in order, no
  two of them with the same key. \<open>Dequeue\<close> returns the first value and leaves it queued,
  as the code does.
\<close>

locale keyed_queue =
  fixes wf :: "'q \<Rightarrow> bool"
    and items :: "'q \<Rightarrow> 'x list"
    and key :: "'x \<Rightarrow> 'k"
    and Contains :: "'q \<Rightarrow> 'x \<Rightarrow> bool"
    and Enqueue :: "'q \<Rightarrow> 'x \<Rightarrow> 'q \<times> error option"
    and Find :: "'q \<Rightarrow> 'k \<Rightarrow> error + 'x"
    and Remove :: "'q \<Rightarrow> 'x \<Rightarrow> 'q \<times> error option"
    and QLen :: "'q \<Rightarrow> nat"
    and Dequeue :: "'q \<Rightarrow> error + 'x"
  assumes distinct_keys: "wf q \<Longrightarrow> distinct (map key (items q))"
    and Contains_iff: "wf q \<Longrightarrow> Contains q x \<longleftrightarrow> key x \<in> key ` set (items q)"
    and Enqueue_new: "wf q \<Longrightarrow> \<not> Contains q x \<Longrightarrow>
          \<exists>q'. Enqueue q x = (q', None) \<and> wf q' \<and> items q' = items q @ [x]"
    and Enqueue_old: "wf q \<Longrightarrow> Contains q x \<Longrightarrow> Enqueue q x = (q, Some (Wrapped ErrEntryExists))"
    and Find_present: "wf q \<Longrightarrow> x \<in> set (items q) \<Longrightarrow> Find q (key x) = Inr x"
    and Find_absent: "wf q \<Longrightarrow> k \<notin> key ` set (items q) \<Longrightarrow> Find q k = Inl ErrEntryMissing"
    and Remove_present: "wf q \<Longrightarrow> Contains q x \<Longrightarrow>
          \<exists>q'. Remove q x = (q', None) \<and> wf q' \<and> items q' = filter (\<lambda>y. key y \<noteq> key x) (items q)"
    and Remove_absent: "wf q \<Longrightarrow> \<not> Contains q x \<Longrightarrow> Remove q x = (q, Some ErrEntryMissing)"
    and QLen_eq: "wf q \<Longrightarrow> QLen q = length (items q)"
    and Dequeue_eq: "Dequeue q = (case items q of [] \<Rightarrow> Inl ErrContainerEmpty | x # _ \<Rightarrow> Inr x)"
begin

lemma Enqueue_cases:
  assumes "wf q" and "Enqueue q x = (q', r)"
  shows "wf q' \<and> (if key x \<in> key ` set (items q) then q' = q \<and> r = Some (Wrapped ErrEntryExists)
                  else items q' = items q @ [x] \<and> r = None)"
  using assms Enqueue_new [of q x] Enqueue_old [of q x] Contains_iff [of q x] by auto

lemma Remove_cases:
  assumes "wf q" and "Remove q x = (q', r)"
  shows "wf q' \<and> items q' = filter (\<lambda>y. key y \<noteq> key x) (items q) \<and>
         r = (if key x \<in> key ` set (items q) then None else Some ErrEntryMissing)"
proof (cases "key x \<in> key ` set (items q)")
  case True
  then show ?thesis using assms Remove_present [of q x] Contains_iff [of q x] by auto
next
  case False
  then have "filter (\<lambda>y. key y \<noteq> key x) (items q) = items q"
    by (auto simp: filter_id_conv) (metis imageI)
  with False show ?thesis using assms Remove_absent [of q x] Contains_iff [of q x] by auto
qed

lemma Find_iff: "wf q \<Longrightarrow> Find q k = Inr x \<longleftrightarrow> x \<in> set (items q) \<and> key x = k"
proof
  assume wf: "wf q" and f: "Find q k = Inr x"
  then have "k \<in> key ` set (items q)" using Find_absent [of q k] by auto
  then obtain y where "y \<in> set (items q)" "key y = k" by auto
  with Find_present [OF wf this(1)] f show "x \<in> set (items q) \<and> key x = k" by simp
qed (use Find_present in auto)

lemma Find_error: "wf q \<Longrightarrow> Find q k = Inl err \<longleftrightarrow> k \<notin> key ` set (items q) \<and> err = ErrEntryMissing"
  using Find_absent [of q k] Find_present [of q] by (cases "k \<in> key ` set (items q)") auto

lemma Find_after_Enqueue:
  assumes "wf q" and "Enqueue q x = (q', None)"
  shows "Find q' (key x) = Inr x" and "k \<noteq> key x \<Longrightarrow> Find q' k = Find q k"
proof -
  have q': "wf q'" "items q' = items q @ [x]"
    using Enqueue_cases [OF assms] by (auto split: if_splits)
  show "Find q' (key x) = Inr x" using Find_present [OF q'(1), of x] q'(2) by simp
  assume k: "k \<noteq> key x"
  show "Find q' k = Find q k"
  proof (cases "Find q k")
    case (Inl err)
    then show ?thesis using Find_error [OF assms(1), of k err] Find_error [OF q'(1), of k err] q'(2) k by auto
  next
    case (Inr y)
    then show ?thesis using Find_iff [OF assms(1), of k y] Find_iff [OF q'(1), of k y] q'(2) by auto
  qed
qed

lemma Remove_undoes_Enqueue:
  assumes "wf q" and "Enqueue q x = (q', None)" and "Remove q' x = (q'', r)"
  shows "items q'' = items q \<and> r = None"
proof -
  have q': "wf q'" "items q' = items q @ [x]" "key x \<notin> key ` set (items q)"
    using Enqueue_cases [OF assms(1,2)] by (auto split: if_splits)
  then have "filter (\<lambda>y. key y \<noteq> key x) (items q) = items q"
    by (auto simp: filter_id_conv) (metis imageI)
  with q' Remove_cases [OF q'(1) assms(3)] show ?thesis by simp
qed

lemma Dequeue_first_kept:
  assumes "wf q" and "Dequeue q = Inr y" and "Enqueue q x = (q', r)"
  shows "Dequeue q' = Inr y"
  using assms Enqueue_cases [OF assms(1,3)]
  by (auto simp: Dequeue_eq split: list.splits if_splits)

lemma Remove_items:
  assumes "wf q" and "x \<in> set (items q)" and "Remove q x = (q', r)"
  shows "items q' = remove1 x (items q)" and "wf q'" and "r = None"
proof -
  have d: "distinct (items q)" "inj_on key (set (items q))"
    using distinct_keys [OF assms(1)] by (simp_all add: distinct_map)
  have "filter (\<lambda>y. key y \<noteq> key x) (items q) = filter (\<lambda>y. x \<noteq> y) (items q)"
    using d(2) assms(2) by (intro filter_cong) (auto dest: inj_onD)
  then show "items q' = remove1 x (items q)" and "wf q'" and "r = None"
    using Remove_cases [OF assms(1,3)] assms(2) d(1) by (auto simp: distinct_remove1_removeAll removeAll_filter_not_eq)
qed

end

definition q_items :: "clientResvQueue \<Rightarrow> ref list" where
  "q_items q = map el_Value (l_items (q_l q))"

abbreviation cli_id :: "mem \<Rightarrow> ref \<Rightarrow> ClientID" where
  "cli_id m c \<equiv> CliID (m_clients m c)"

text \<open>
  The map of a well-formed queue has exactly the elements of its list, under the ids of
  their clients.
\<close>

definition q_wf :: "mem \<Rightarrow> clientResvQueue \<Rightarrow> bool" where
  "q_wf m q \<longleftrightarrow>
     (let es = l_items (q_l q)
      in mwf (q_m q) \<and> distinct (map el_id es) \<and> (\<forall>e \<in> set es. el_id e < l_next (q_l q)) \<and>
         distinct (map (cli_id m) (q_items q)) \<and>
         set (q_m q) = (\<lambda>e. (cli_id m (el_Value e), e)) ` set es)"

lemma q_wf_new [simp]: "q_wf m newClientResvQueue"
  by (simp add: q_wf_def newClientResvQueue_def list_New_def q_items_def)

lemma q_items_new [simp]: "q_items newClientResvQueue = []"
  by (simp add: q_items_def newClientResvQueue_def list_New_def)

lemma q_wf_mget:
  assumes "q_wf m q"
  shows "mget (q_m q) k = Some e \<longleftrightarrow> e \<in> set (l_items (q_l q)) \<and> cli_id m (el_Value e) = k"
proof -
  have "mget (q_m q) k = Some e \<longleftrightarrow> (k, e) \<in> set (q_m q)"
    using assms by (auto simp: q_wf_def Let_def mwf_def intro: map_of_SomeD)
  then show ?thesis using assms by (auto simp: q_wf_def Let_def)
qed

lemma q_wf_mget_None:
  assumes "q_wf m q"
  shows "mget (q_m q) k = None \<longleftrightarrow> k \<notin> cli_id m ` set (q_items q)"
proof -
  have "mget (q_m q) k = None \<longleftrightarrow> k \<notin> fst ` set (q_m q)" by (simp add: map_of_eq_None_iff)
  also have "fst ` set (q_m q) = cli_id m ` set (q_items q)"
    using assms by (force simp: q_wf_def Let_def q_items_def image_image)
  finally show ?thesis .
qed

lemma q_wf_cong:
  assumes "q_wf m q" and "\<And>c. c \<in> set (q_items q) \<Longrightarrow> cli_id m' c = cli_id m c"
  shows "q_wf m' q"
proof -
  have "distinct (map (cli_id m') (q_items q)) = distinct (map (cli_id m) (q_items q))"
    using assms(2) by (simp add: distinct_map inj_on_def)
  moreover have "(\<lambda>e. (cli_id m' (el_Value e), e)) ` set (l_items (q_l q)) =
      (\<lambda>e. (cli_id m (el_Value e), e)) ` set (l_items (q_l q))"
    using assms(2) by (intro image_cong) (auto simp: q_items_def)
  ultimately show ?thesis using assms(1) unfolding q_wf_def Let_def by simp
qed

lemma q_wf_Enqueue:
  assumes "q_wf m q" and "\<not> clientResvQueue_Contains m q x"
  shows "\<exists>q'. clientResvQueue_Enqueue m q x = (q', None) \<and> q_wf m q' \<and> q_items q' = q_items q @ [x]"
proof -
  let ?k = "cli_id m x"
  let ?e = "\<lparr>el_id = l_next (q_l q), el_Value = x\<rparr>"
  have k: "mget (q_m q) ?k = None" using assms(2) by (simp add: clientResvQueue_Contains_def)
  then have "?k \<notin> fst ` set (q_m q)" by (simp add: map_of_eq_None_iff)
  then have u: "set (mput (q_m q) ?k ?e) = insert (?k, ?e) (set (q_m q))"
    by (rule set_mput_new)
  have "?k \<notin> cli_id m ` set (q_items q)" using q_wf_mget_None [OF assms(1)] k by simp
  then have "q_wf m \<lparr>q_m = mput (q_m q) ?k ?e,
      q_l = (q_l q)\<lparr>l_items := l_items (q_l q) @ [?e], l_next := Suc (l_next (q_l q))\<rparr>\<rparr>"
    using assms(1) u by (auto simp: q_wf_def Let_def q_items_def less_Suc_eq)
  then show ?thesis using assms(2)
    by (cases q) (simp add: clientResvQueue_Enqueue_def list_PushBack_def Let_def q_items_def)
qed

lemma q_wf_Remove:
  assumes wf: "q_wf m q" and c: "clientResvQueue_Contains m q x"
  shows "\<exists>q'. clientResvQueue_Remove m q x = (q', None) \<and> q_wf m q' \<and>
      q_items q' = filter (\<lambda>y. cli_id m y \<noteq> cli_id m x) (q_items q)"
proof -
  let ?k = "cli_id m x" and ?es = "l_items (q_l q)"
  obtain e where e: "mget (q_m q) ?k = Some e"
    using c by (auto simp: clientResvQueue_Contains_def)
  then have e': "e \<in> set ?es" "cli_id m (el_Value e) = ?k" using q_wf_mget [OF wf] by auto
  have same: "el_id y \<noteq> el_id e \<longleftrightarrow> cli_id m (el_Value y) \<noteq> ?k" if "y \<in> set ?es" for y
  proof -
    have "inj_on el_id (set ?es)" and "inj_on (\<lambda>y. cli_id m (el_Value y)) (set ?es)"
      using wf by (auto simp: q_wf_def Let_def q_items_def distinct_map inj_on_def)
    then show ?thesis using that e' by (metis inj_onD)
  qed
  then have f: "filter (\<lambda>y. el_id y \<noteq> el_id e) ?es = filter (\<lambda>y. cli_id m (el_Value y) \<noteq> ?k) ?es"
    by (intro filter_cong) auto
  let ?q = "\<lparr>q_m = mdel (q_m q) ?k, q_l = (q_l q)\<lparr>l_items := filter (\<lambda>y. el_id y \<noteq> el_id e) ?es\<rparr>\<rparr>"
  have i: "q_items ?q = filter (\<lambda>y. cli_id m y \<noteq> ?k) (q_items q)"
    by (simp add: q_items_def f filter_map comp_def)
  have "set (mdel (q_m q) ?k) = {p \<in> set (q_m q). fst p \<noteq> ?k}" by (rule set_mdel)
  then have "q_wf m ?q"
    using wf i unfolding q_wf_def Let_def
    by (auto simp: f distinct_map_filter)
  with i show ?thesis using e
    by (cases q) (simp add: clientResvQueue_Remove_def list_Remove_def)
qed

lemma q_wf_Len:
  assumes "q_wf m q"
  shows "clientResvQueue_Len q = length (q_items q)"
proof -
  let ?es = "l_items (q_l q)"
  have "distinct (q_m q)" and "distinct ?es" and "set (q_m q) = (\<lambda>e. (cli_id m (el_Value e), e)) ` set ?es"
    using assms distinct_map [of fst "q_m q"] distinct_map [of el_id ?es]
    by (simp_all add: q_wf_def Let_def mwf_def)
  moreover have "inj_on (\<lambda>e. (cli_id m (el_Value e), e)) (set ?es)" by (auto simp: inj_on_def)
  ultimately show ?thesis
    by (metis card_image clientResvQueue_Len_def distinct_card length_map q_items_def)
qed

interpretation cq: keyed_queue "q_wf m" q_items "cli_id m" "clientResvQueue_Contains m"
  "clientResvQueue_Enqueue m" clientResvQueue_Find "clientResvQueue_Remove m"
  clientResvQueue_Len clientResvQueue_Dequeue
  for m
proof (unfold_locales, goal_cases)
  case (1 q)
  then show ?case by (simp add: q_wf_def Let_def)
next
  case (2 q x)
  then show ?case using q_wf_mget_None [OF 2, of "cli_id m x"] by (auto simp: clientResvQueue_Contains_def)
next
  case (3 q x)
  then show ?case by (rule q_wf_Enqueue)
next
  case (4 q x)
  then show ?case by (simp add: clientResvQueue_Enqueue_def)
next
  case (5 q x)
  then obtain e where "e \<in> set (l_items (q_l q))" "el_Value e = x" by (auto simp: q_items_def)
  with 5 have "mget (q_m q) (cli_id m x) = Some e" using q_wf_mget by blast
  then show ?case using \<open>el_Value e = x\<close> by (simp add: clientResvQueue_Find_def)
next
  case (6 q k)
  then show ?case using q_wf_mget_None [OF 6(1), of k] by (simp add: clientResvQueue_Find_def)
next
  case (7 q x)
  then show ?case by (rule q_wf_Remove)
next
  case (8 q x)
  then show ?case by (simp add: clientResvQueue_Remove_def clientResvQueue_Contains_def)
next
  case (9 q)
  then show ?case by (rule q_wf_Len)
next
  case (10 q)
  then show ?case by (simp add: clientResvQueue_Dequeue_def q_items_def split: list.splits)
qed

section \<open>Properties\<close>

text \<open>
  C28: \<^verbatim>\<open>UpdateTickAt\<close> sets the tick of an entry of the heap, moves the entry to where the new
  tick belongs and changes nothing else: the heap has the same entries, every one knows its
  index, and the order is kept.
\<close>

theorem UpdateTickAt_reorders:
  assumes "ch_wf (m, h)" and "ch_ordered (m, h)" and "c \<in> set h"
  shows "\<exists>m' h'. clientResvHeap_UpdateTickAt (m, h) c v = Some (m', h') \<and> mset h' = mset h \<and>
           ch_wf (m', h') \<and> ch_ordered (m', h') \<and> TickAt (m_clients m' c) = v \<and>
           (\<forall>d. d \<noteq> c \<longrightarrow> client_key (m_clients m' d) = client_key (m_clients m d))"
proof -
  obtain m' h' where u: "clientResvHeap_UpdateTickAt (m, h) c v = Some (m', h')" "mset h' = mset h"
      "ch_wf (m', h')" "ch_ordered (m', h')"
      "same_but_heap_index (set h) (upd_client m c (\<lambda>e. e\<lparr>TickAt := v\<rparr>)) m'"
    using clientResvHeap_UpdateTickAt_correct [OF assms(1,3), of v] assms(2) by auto
  note same_but_heap_indexD [OF u(5)]
  with u show ?thesis by (auto simp: client_key_def upd_client_def)
qed

theorem UpdateTickAt_reorders_witness:
  "ch_wf (empty_mem, [0]) \<and> ch_ordered (empty_mem, [0]) \<and> (0 :: nat) \<in> set [0] \<and>
   (\<exists>m' h'. clientResvHeap_UpdateTickAt (empty_mem, [0]) 0 9 = Some (m', h') \<and> mset h' = mset [0] \<and>
           ch_wf (m', h') \<and> ch_ordered (m', h') \<and> TickAt (m_clients m' 0) = 9 \<and>
           (\<forall>d. d \<noteq> 0 \<longrightarrow> client_key (m_clients m' d) = client_key (m_clients empty_mem d)))"
proof -
  have h: "ch_wf (empty_mem, [0])" "ch_ordered (empty_mem, [0])" "(0 :: nat) \<in> set [0]"
    by (simp_all add: ch_defs ch_ordered_def heap_ordered_def heap_ok_def empty_mem_def zero_client_def)
  show ?thesis using UpdateTickAt_reorders [OF h] h by (intro conjI)
qed

text \<open>
  \<^verbatim>\<open>initializeHeap\<close> puts the entries of a heap, in any order at first, into heap order,
  keeping the index of every entry and what the entries say.
\<close>

theorem initializeHeap_orders:
  assumes "ch_wf (m, h)"
  shows "\<exists>m' h'. initializeHeap (m, h) = (m', h') \<and> mset h' = mset h \<and> ch_wf (m', h') \<and>
           ch_ordered (m', h') \<and> same_but_heap_index (set h) m m'"
  by (rule initializeHeap_ok [OF assms])

theorem initializeHeap_orders_witness:
  "ch_wf (empty_mem, [0]) \<and>
   (\<exists>m' h'. initializeHeap (empty_mem, [0]) = (m', h') \<and> mset h' = mset [0] \<and> ch_wf (m', h') \<and>
           ch_ordered (m', h') \<and> same_but_heap_index (set [0]) empty_mem m')"
proof -
  have h: "ch_wf (empty_mem, [0])" by (simp add: ch_defs empty_mem_def zero_client_def)
  show ?thesis using initializeHeap_orders [OF h] h by (intro conjI)
qed

text \<open>
  A client entry that \<^verbatim>\<open>Enqueue\<close> accepted is found under its id, and the entries under other
  ids are found as before; \<^verbatim>\<open>Remove\<close> then gives back the queue as it was.
\<close>

theorem queue_Enqueue_Find_Remove:
  assumes "q_wf m q" and "clientResvQueue_Enqueue m q x = (q', None)"
  shows "clientResvQueue_Find q' (cli_id m x) = Inr x \<and>
         (\<forall>k. k \<noteq> cli_id m x \<longrightarrow> clientResvQueue_Find q' k = clientResvQueue_Find q k) \<and>
         (\<exists>q''. clientResvQueue_Remove m q' x = (q'', None) \<and> q_items q'' = q_items q \<and>
            (\<forall>k. clientResvQueue_Find q'' k = clientResvQueue_Find q k))"
proof -
  obtain q'' r where r: "clientResvQueue_Remove m q' x = (q'', r)" by fastforce
  note u = cq.Remove_undoes_Enqueue [OF assms r] and f = cq.Find_after_Enqueue [OF assms]
  have wf: "q_wf m q''" using cq.Remove_cases [OF _ r] cq.Enqueue_cases [OF assms] by blast
  have "clientResvQueue_Find q'' k = clientResvQueue_Find q k" for k
  proof (cases "clientResvQueue_Find q'' k")
    case (Inl e)
    then show ?thesis using cq.Find_error [OF wf, of k e] cq.Find_error [OF assms(1), of k e] u by simp
  next
    case (Inr y)
    then show ?thesis using cq.Find_iff [OF wf, of k y] cq.Find_iff [OF assms(1), of k y] u by simp
  qed
  with f u r show ?thesis by simp
qed

theorem queue_Enqueue_Find_Remove_witness:
  "q_wf empty_mem newClientResvQueue \<and>
   (\<exists>q'. clientResvQueue_Enqueue empty_mem newClientResvQueue 3 = (q', None) \<and>
     clientResvQueue_Find q' (cli_id empty_mem 3) = Inr 3 \<and>
     (\<forall>k. k \<noteq> cli_id empty_mem 3 \<longrightarrow> clientResvQueue_Find q' k = clientResvQueue_Find newClientResvQueue k) \<and>
     (\<exists>q''. clientResvQueue_Remove empty_mem q' 3 = (q'', None) \<and> q_items q'' = q_items newClientResvQueue \<and>
            (\<forall>k. clientResvQueue_Find q'' k = clientResvQueue_Find newClientResvQueue k)))"
proof -
  obtain q' where q': "clientResvQueue_Enqueue empty_mem newClientResvQueue 3 = (q', None)"
    by (simp add: clientResvQueue_Enqueue_def clientResvQueue_Contains_def newClientResvQueue_def
        list_PushBack_def Let_def)
  show ?thesis
    using queue_Enqueue_Find_Remove [OF q_wf_new q'] q' q_wf_new [of empty_mem] by blast
qed

end
