(* ===== verification/Index.thy ===== *)
theory Index
  imports Job_Heap Client_Resv
begin

text \<open>
  \<^verbatim>\<open>state/index.go\<close>: the index of all jobs by id, the state of the tubes (three job
  heaps and a wait queue each) and the reserved jobs by client. Operations on tubes and
  reserved jobs take the store and the index and return both.
\<close>

section \<open>The job index\<close>

record IndexEntry =
  ie_job :: ref
  ie_entry :: "ref option"

record JobIndex =
  ji_m :: "(JobID, IndexEntry) gomap"
  ji_maxJobID :: JobID

definition NewJobIndex :: JobIndex where
  "NewJobIndex = \<lparr>ji_m = [], ji_maxJobID = 0\<rparr>"

definition JobIndex_NextJobID :: "JobIndex \<Rightarrow> JobIndex \<times> JobID" where
  "JobIndex_NextJobID idx =
     (let idx = idx\<lparr>ji_maxJobID := ji_maxJobID idx + 1\<rparr> in (idx, ji_maxJobID idx))"

definition JobIndex_Len :: "JobIndex \<Rightarrow> nat" where
  "JobIndex_Len idx = length (ji_m idx)"

definition JobIndex_Add :: "mem \<Rightarrow> JobIndex \<Rightarrow> ref \<Rightarrow> JobIndex \<times> (error + IndexEntry)" where
  "JobIndex_Add mm idx job =
     (if mget (ji_m idx) (ID (m_jobs mm job)) \<noteq> None then (idx, Inl (Wrapped ErrEntryExists))
      else (let e = \<lparr>ie_job = job, ie_entry = None\<rparr>
            in (idx\<lparr>ji_m := mput (ji_m idx) (ID (m_jobs mm job)) e\<rparr>, Inr e)))"

definition JobIndex_Get :: "JobIndex \<Rightarrow> JobID \<Rightarrow> error + IndexEntry" where
  "JobIndex_Get idx jobID =
     (case mget (ji_m idx) jobID of None \<Rightarrow> Inl ErrEntryMissing | Some entry \<Rightarrow> Inr entry)"

definition JobIndex_Remove :: "JobIndex \<Rightarrow> JobID \<Rightarrow> JobIndex \<times> (error + IndexEntry)" where
  "JobIndex_Remove idx jobID =
     (case mget (ji_m idx) jobID of
        None \<Rightarrow> (idx, Inl ErrEntryMissing)
      | Some entry \<Rightarrow> (idx\<lparr>ji_m := mdel (ji_m idx) jobID\<rparr>, Inr entry))"

text \<open>The jobs in the order in which the map is iterated.\<close>

definition JobIndex_Jobs :: "JobIndex \<Rightarrow> JobID list \<Rightarrow> ref list" where
  "JobIndex_Jobs idx ord =
     List.map_filter (\<lambda>k. map_option ie_job (mget (ji_m idx) k)) ord"

section \<open>The tubes\<close>

record tubeState =
  delayedJobs :: jobHeap
  readyJobs :: jobHeap
  waiting :: clientResvQueue
  buriedJobs :: jobHeap

type_synonym tubeIndex = "(TubeName, tubeState) gomap"
type_synonym tubes_state = "mem \<times> tubeIndex"

definition new_tubeState :: tubeState where
  "new_tubeState = \<lparr>delayedJobs = NewDelayedJobs, readyJobs = NewPriorityJobs,
     waiting = newClientResvQueue, buriedJobs = NewBuriedJobs\<rparr>"

definition getByName :: "tubeIndex \<Rightarrow> TubeName \<Rightarrow> bool \<Rightarrow> tubeIndex \<times> (error + tubeState)" where
  "getByName ti tn create =
     (case mget ti tn of
        None \<Rightarrow> if \<not> create then (ti, Inl ErrEntryMissing)
                else (mput ti tn new_tubeState, Inr new_tubeState)
      | Some res \<Rightarrow> (ti, Inr res))"

definition cleanup :: "tubeIndex \<Rightarrow> TubeName \<Rightarrow> tubeIndex" where
  "cleanup ti tn =
     (case mget ti tn of
        None \<Rightarrow> ti
      | Some t \<Rightarrow>
          if length (entries (readyJobs t)) = 0 \<and> length (entries (delayedJobs t)) = 0 \<and>
             clientResvQueue_Len (waiting t) = 0 \<and> length (entries (buriedJobs t)) = 0
          then mdel ti tn else ti)"

definition EnqueueReadyJob :: "tubes_state \<Rightarrow> ref \<Rightarrow> tubes_state \<times> (error + ref)" where
  "EnqueueReadyJob s job =
     (case s of (m, ti) \<Rightarrow>
        (let name = TubeName (m_jobs m job)
         in case getByName ti name True of
              (ti, Inl err) \<Rightarrow> ((m, ti), Inl err)
            | (ti, Inr t) \<Rightarrow>
                (let ((m, h), e) = jobHeap_Enqueue (m, readyJobs t) job
                 in ((m, mput ti name (t\<lparr>readyJobs := h\<rparr>)), Inr e))))"

definition EnqueueDelayedJob :: "tubes_state \<Rightarrow> ref \<Rightarrow> tubes_state \<times> (error + ref)" where
  "EnqueueDelayedJob s job =
     (case s of (m, ti) \<Rightarrow>
        (let name = TubeName (m_jobs m job)
         in case getByName ti name True of
              (ti, Inl err) \<Rightarrow> ((m, ti), Inl err)
            | (ti, Inr t) \<Rightarrow>
                (let ((m, h), e) = jobHeap_Enqueue (m, delayedJobs t) job
                 in ((m, mput ti name (t\<lparr>delayedJobs := h\<rparr>)), Inr e))))"

definition EnqueueBuriedJob :: "tubes_state \<Rightarrow> ref \<Rightarrow> tubes_state \<times> (error + ref)" where
  "EnqueueBuriedJob s job =
     (case s of (m, ti) \<Rightarrow>
        (let name = TubeName (m_jobs m job)
         in case getByName ti name True of
              (ti, Inl err) \<Rightarrow> ((m, ti), Inl err)
            | (ti, Inr t) \<Rightarrow>
                (let ((m, h), e) = jobHeap_Enqueue (m, buriedJobs t) job
                 in ((m, mput ti name (t\<lparr>buriedJobs := h\<rparr>)), Inr e))))"

text \<open>Only the removal of a delayed job drops a tube that has become empty.\<close>

definition RemoveDelayedJob :: "tubes_state \<Rightarrow> ref \<Rightarrow> (tubes_state, error, ref) outcome" where
  "RemoveDelayedJob s jobEntry =
     (case s of (m, ti) \<Rightarrow>
        (let name = TubeName (job_of m jobEntry)
         in case getByName ti name False of
              (ti, Inl err) \<Rightarrow> Some ((m, ti), Inl err)
            | (ti, Inr t) \<Rightarrow>
                (case jobHeap_RemoveAt (m, delayedJobs t) jobEntry of
                   None \<Rightarrow> None
                 | Some ((m, h), res) \<Rightarrow>
                     Some ((m, cleanup (mput ti name (t\<lparr>delayedJobs := h\<rparr>)) name), res))))"

definition RemoveReadyJob :: "tubes_state \<Rightarrow> ref \<Rightarrow> (tubes_state, error, ref) outcome" where
  "RemoveReadyJob s jobEntry =
     (case s of (m, ti) \<Rightarrow>
        (let name = TubeName (job_of m jobEntry)
         in case getByName ti name False of
              (ti, Inl err) \<Rightarrow> Some ((m, ti), Inl err)
            | (ti, Inr t) \<Rightarrow>
                (case jobHeap_RemoveAt (m, readyJobs t) jobEntry of
                   None \<Rightarrow> None
                 | Some ((m, h), res) \<Rightarrow> Some ((m, mput ti name (t\<lparr>readyJobs := h\<rparr>)), res))))"

definition RemoveBuriedJob :: "tubes_state \<Rightarrow> ref \<Rightarrow> (tubes_state, error, ref) outcome" where
  "RemoveBuriedJob s jobEntry =
     (case s of (m, ti) \<Rightarrow>
        (let name = TubeName (job_of m jobEntry)
         in case getByName ti name False of
              (ti, Inl err) \<Rightarrow> Some ((m, ti), Inl err)
            | (ti, Inr t) \<Rightarrow>
                (case jobHeap_RemoveAt (m, buriedJobs t) jobEntry of
                   None \<Rightarrow> None
                 | Some ((m, h), res) \<Rightarrow> Some ((m, mput ti name (t\<lparr>buriedJobs := h\<rparr>)), res))))"

definition NextDelayedJob :: "tubeIndex \<Rightarrow> TubeName \<Rightarrow> error + ref" where
  "NextDelayedJob ti tn =
     (case getByName ti tn False of
        (_, Inl err) \<Rightarrow> Inl ErrEntryMissing
      | (_, Inr t) \<Rightarrow>
          (case jobHeap_Peek (delayedJobs t) of None \<Rightarrow> Inl ErrEntryMissing | Some e \<Rightarrow> Inr e))"

definition NextReadyJob :: "tubeIndex \<Rightarrow> TubeName \<Rightarrow> error + ref" where
  "NextReadyJob ti tn =
     (case getByName ti tn False of
        (_, Inl err) \<Rightarrow> Inl ErrEntryMissing
      | (_, Inr t) \<Rightarrow>
          (case jobHeap_Peek (readyJobs t) of None \<Rightarrow> Inl ErrEntryMissing | Some e \<Rightarrow> Inr e))"

definition NextBuriedJob :: "tubeIndex \<Rightarrow> TubeName \<Rightarrow> error + ref" where
  "NextBuriedJob ti tn =
     (case getByName ti tn False of
        (_, Inl err) \<Rightarrow> Inl ErrEntryMissing
      | (_, Inr t) \<Rightarrow>
          (case jobHeap_Peek (buriedJobs t) of None \<Rightarrow> Inl ErrEntryMissing | Some e \<Rightarrow> Inr e))"

definition EnqueueToWaitQ :: "mem \<Rightarrow> tubeIndex \<Rightarrow> TubeName \<Rightarrow> ref \<Rightarrow> tubeIndex \<times> error option" where
  "EnqueueToWaitQ m ti tn cli =
     (case getByName ti tn True of
        (ti, Inl err) \<Rightarrow> (ti, Some err)
      | (ti, Inr ts) \<Rightarrow>
          (let (q, r) = clientResvQueue_Enqueue m (waiting ts) cli
           in (mput ti tn (ts\<lparr>waiting := q\<rparr>), r)))"

definition WaitQLen :: "tubeIndex \<Rightarrow> TubeName \<Rightarrow> error + nat" where
  "WaitQLen ti tn =
     (case getByName ti tn False of
        (_, Inl err) \<Rightarrow> Inl err
      | (_, Inr t) \<Rightarrow> Inr (clientResvQueue_Len (waiting t)))"

definition DequeueFromWaitQ :: "tubeIndex \<Rightarrow> TubeName \<Rightarrow> error + ref" where
  "DequeueFromWaitQ ti tn =
     (case getByName ti tn False of
        (_, Inl err) \<Rightarrow> Inl err
      | (_, Inr t) \<Rightarrow> clientResvQueue_Dequeue (waiting t))"

definition RemoveFromWaitQ :: "mem \<Rightarrow> tubeIndex \<Rightarrow> TubeName \<Rightarrow> ref \<Rightarrow> tubeIndex \<times> error option" where
  "RemoveFromWaitQ m ti tn cli =
     (case getByName ti tn False of
        (ti, Inl err) \<Rightarrow> (ti, Some err)
      | (ti, Inr t) \<Rightarrow>
          (let (q, r) = clientResvQueue_Remove m (waiting t) cli
           in (mput ti tn (t\<lparr>waiting := q\<rparr>), r)))"

text \<open>\<open>ord\<close> is the order in which the map is iterated.\<close>

definition GetTubeNames :: "tubeIndex \<Rightarrow> TubeName list \<Rightarrow> TubeName list" where
  "GetTubeNames ti ord = filter (\<lambda>n. mget ti n \<noteq> None) ord"

definition tubeIndex_GetStatistics :: "tubeIndex \<Rightarrow> TubeName \<Rightarrow> error + (string, yaml_value) gomap" where
  "tubeIndex_GetStatistics ti tn =
     (case getByName ti tn False of
        (_, Inl err) \<Rightarrow> Inl err
      | (_, Inr t) \<Rightarrow>
          Inr [(''name'', YStr tn),
               (''current-jobs-urgent'', YInt 0),
               (''current-jobs-ready'', YInt (int (length (entries (readyJobs t))))),
               (''current-jobs-reserved'', YInt 0),
               (''current-jobs-delayed'', YInt (int (length (entries (delayedJobs t))))),
               (''current-jobs-buried'', YInt (int (length (entries (buriedJobs t))))),
               (''total-jobs'', YInt 0),
               (''current-using'', YInt 0),
               (''current-waiting'', YInt (int (clientResvQueue_Len (waiting t)))),
               (''current-watching'', YInt 0),
               (''pause'', YInt 0),
               (''cmd-delete'', YInt 0),
               (''cmd-pause-tube'', YInt 0),
               (''pause-time-left'', YInt 0)])"

text \<open>Sums do not depend on the order of iteration; the map is folded as it is stored.\<close>

definition TotalJobCounts :: "tubeIndex \<Rightarrow> (string, uint64) gomap" where
  "TotalJobCounts ti =
     (let sum = (\<lambda>f. fold (\<lambda>(_, t) n. n + of_nat (length (entries (f t)))) ti 0)
      in [(''current-jobs-urgent'', 0),
          (''current-jobs-ready'', sum readyJobs),
          (''current-jobs-reserved'', 0),
          (''current-jobs-delayed'', sum delayedJobs),
          (''current-jobs-buried'', sum buriedJobs)])"

section \<open>The reserved jobs\<close>

type_synonym reservedJobsIndex = "(ClientID, jobHeap) gomap"
type_synonym reserved_state = "mem \<times> reservedJobsIndex"

definition reservedJobsIndex_Enqueue ::
    "reserved_state \<Rightarrow> ClientID \<Rightarrow> ref \<Rightarrow> reserved_state \<times> (error + ref)" where
  "reservedJobsIndex_Enqueue s clientID job =
     (case s of (m, r) \<Rightarrow>
        (let h = (case mget r clientID of None \<Rightarrow> NewReservedJobs | Some h \<Rightarrow> h);
             ((m, h), e) = jobHeap_Enqueue (m, h) job
         in ((m, mput r clientID h), Inr e)))"

text \<open>
  The entry at index 0 is dequeued, any other is removed at its index; the deferred
  function drops a heap that has become empty. The result is the job.
\<close>

definition reservedJobsIndex_Remove ::
    "reserved_state \<Rightarrow> ref \<Rightarrow> (reserved_state, error, ref) outcome" where
  "reservedJobsIndex_Remove s jobEntry =
     (case s of (m, r) \<Rightarrow>
        (let clientID = ReservedBy (job_of m jobEntry)
         in case mget r clientID of
              None \<Rightarrow> Some ((m, r), Inl ErrEntryMissing)
            | Some h \<Rightarrow>
                (let finish = (\<lambda>h. if length (entries h) = 0 then mdel r clientID else mput r clientID h)
                 in if je_index (m_entries m jobEntry) = 0
                    then (case jobHeap_Dequeue (m, h) of
                            None \<Rightarrow> None
                          | Some ((m, h), job) \<Rightarrow> Some ((m, finish h), Inr job))
                    else (case jobHeap_RemoveAt (m, h) jobEntry of
                            None \<Rightarrow> None
                          | Some ((m, h), Inl err) \<Rightarrow> Some ((m, finish h), Inl err)
                          | Some ((m, h), Inr e) \<Rightarrow>
                              Some ((m, finish h), Inr (je_Job (m_entries m e)))))))"

definition NextReservedJob :: "reservedJobsIndex \<Rightarrow> ClientID \<Rightarrow> error + ref" where
  "NextReservedJob r clientID =
     (case mget r clientID of
        None \<Rightarrow> Inl ErrEntryMissing
      | Some resvJobs \<Rightarrow>
          (case jobHeap_Peek resvJobs of None \<Rightarrow> Inl ErrEntryMissing | Some e \<Rightarrow> Inr e))"

definition JobCount :: "reserved_state \<Rightarrow> TubeName \<Rightarrow> uint64" where
  "JobCount s tn =
     (case s of (m, r) \<Rightarrow> fold (\<lambda>(_, rj) count. count + jobHeap_JobCountByTube (m, rj) tn) r 0)"

definition TotalJobs :: "reservedJobsIndex \<Rightarrow> uint64" where
  "TotalJobs r = fold (\<lambda>(_, rj) count. count + of_nat (length (entries rj))) r 0"

section \<open>The heaps by place\<close>

text \<open>
  Where a job can be. A tube that does not exist has empty heaps and no waiting client, so
  creating a tube and dropping an empty one change nothing here.
\<close>

datatype loc = LReady TubeName | LDelayed TubeName | LBuried TubeName | LReserved ClientID

fun loc_order :: "loc \<Rightarrow> less_fn" where
  "loc_order (LReady _) = ByPriority"
| "loc_order (LDelayed _) = ByReadyAt"
| "loc_order (LBuried _) = ByBuriedAt"
| "loc_order (LReserved _) = ByExpiresAt"

definition tube_at :: "tubeIndex \<Rightarrow> TubeName \<Rightarrow> tubeState" where
  "tube_at ti t = (case mget ti t of None \<Rightarrow> new_tubeState | Some ts \<Rightarrow> ts)"

fun heap_at :: "tubeIndex \<Rightarrow> reservedJobsIndex \<Rightarrow> loc \<Rightarrow> jobHeap" where
  "heap_at ti ri (LReady t) = readyJobs (tube_at ti t)"
| "heap_at ti ri (LDelayed t) = delayedJobs (tube_at ti t)"
| "heap_at ti ri (LBuried t) = buriedJobs (tube_at ti t)"
| "heap_at ti ri (LReserved c) = (case mget ri c of None \<Rightarrow> NewReservedJobs | Some h \<Rightarrow> h)"

definition waiters :: "tubeIndex \<Rightarrow> TubeName \<Rightarrow> ref list" where
  "waiters ti t = q_items (waiting (tube_at ti t))"

definition waits_wf :: "mem \<Rightarrow> tubeIndex \<Rightarrow> bool" where
  "waits_wf m ti \<longleftrightarrow> (\<forall>t. q_wf m (waiting (tube_at ti t)))"

definition ordered_right :: "(loc \<Rightarrow> jobHeap) \<Rightarrow> bool" where
  "ordered_right H \<longleftrightarrow> (\<forall>l. lessFn (H l) = loc_order l)"

text \<open>The only difference is the heap at \<open>l\<close>, now \<open>h\<close>.\<close>

definition tubes_upd :: "tubeIndex \<Rightarrow> tubeIndex \<Rightarrow> loc \<Rightarrow> jobHeap \<Rightarrow> bool" where
  "tubes_upd ti ti' l h \<longleftrightarrow>
     (\<forall>ri. heap_at ti' ri = (heap_at ti ri)(l := h)) \<and> waiters ti' = waiters ti \<and>
     (\<forall>m. waits_wf m ti \<longrightarrow> waits_wf m ti')"

lemma new_tubeState_sel [simp]:
  "delayedJobs new_tubeState = NewDelayedJobs" "readyJobs new_tubeState = NewPriorityJobs"
  "buriedJobs new_tubeState = NewBuriedJobs" "waiting new_tubeState = newClientResvQueue"
  by (simp_all add: new_tubeState_def)

lemma tube_at_mput [simp]:
  "tube_at (mput ti t ts) = (tube_at ti)(t := ts)"
  by (auto simp: tube_at_def)

lemma tube_at_mdel: "tube_at (mdel ti t) = (tube_at ti)(t := new_tubeState)"
  by (auto simp: tube_at_def)

lemma getByName_create: "\<exists>ti'. getByName ti t True = (ti', Inr (tube_at ti t)) \<and>
    tube_at ti' = tube_at ti \<and> dom (mget ti') = insert t (dom (mget ti))"
  by (auto simp: getByName_def tube_at_def fun_eq_iff split: option.splits)

lemma getByName_find:
  "getByName ti t False =
     (ti, if mget ti t = None then Inl ErrEntryMissing else Inr (tube_at ti t))"
  by (auto simp: getByName_def tube_at_def split: option.splits)

lemma all_loc:
  "(\<forall>l. P l) \<longleftrightarrow>
     (\<forall>t. P (LReady t)) \<and> (\<forall>t. P (LDelayed t)) \<and> (\<forall>t. P (LBuried t)) \<and> (\<forall>c. P (LReserved c))"
  by (metis loc.exhaust)

lemma tubes_upd_mput:
  assumes "tube_at ti1 = tube_at ti"
  shows "tubes_upd ti (mput ti1 t ((tube_at ti t)\<lparr>readyJobs := h\<rparr>)) (LReady t) h"
    and "tubes_upd ti (mput ti1 t ((tube_at ti t)\<lparr>delayedJobs := h\<rparr>)) (LDelayed t) h"
    and "tubes_upd ti (mput ti1 t ((tube_at ti t)\<lparr>buriedJobs := h\<rparr>)) (LBuried t) h"
  using assms by (auto simp: tubes_upd_def fun_eq_iff all_loc waiters_def waits_wf_def)

text \<open>Enqueuing creates the tube when it is missing.\<close>

lemma Enqueue_at:
  assumes "TubeName (m_jobs m r) = t"
  shows "jobHeap_Enqueue (m, heap_at ti ri (LReady t)) r = ((m', h'), e) \<Longrightarrow>
      \<exists>ti'. EnqueueReadyJob (m, ti) r = ((m', ti'), Inr e) \<and> tubes_upd ti ti' (LReady t) h' \<and>
            dom (mget ti') = insert t (dom (mget ti))"
    and "jobHeap_Enqueue (m, heap_at ti ri (LDelayed t)) r = ((m', h'), e) \<Longrightarrow>
      \<exists>ti'. EnqueueDelayedJob (m, ti) r = ((m', ti'), Inr e) \<and> tubes_upd ti ti' (LDelayed t) h' \<and>
            dom (mget ti') = insert t (dom (mget ti))"
    and "jobHeap_Enqueue (m, heap_at ti ri (LBuried t)) r = ((m', h'), e) \<Longrightarrow>
      \<exists>ti'. EnqueueBuriedJob (m, ti) r = ((m', ti'), Inr e) \<and> tubes_upd ti ti' (LBuried t) h' \<and>
            dom (mget ti') = insert t (dom (mget ti))"
proof -
  obtain ti1 where ti1: "getByName ti t True = (ti1, Inr (tube_at ti t))" "tube_at ti1 = tube_at ti"
      "dom (mget ti1) = insert t (dom (mget ti))"
    using getByName_create by blast
  have dom: "dom (mget (mput ti1 t x)) = insert t (dom (mget ti))" for x
    using ti1(3) by (auto simp: dom_def)
  note defs = EnqueueReadyJob_def EnqueueDelayedJob_def EnqueueBuriedJob_def
  show "jobHeap_Enqueue (m, heap_at ti ri (LReady t)) r = ((m', h'), e) \<Longrightarrow>
      \<exists>ti'. EnqueueReadyJob (m, ti) r = ((m', ti'), Inr e) \<and> tubes_upd ti ti' (LReady t) h' \<and>
            dom (mget ti') = insert t (dom (mget ti))"
    using assms ti1 dom by (auto simp: defs intro: tubes_upd_mput)
  show "jobHeap_Enqueue (m, heap_at ti ri (LDelayed t)) r = ((m', h'), e) \<Longrightarrow>
      \<exists>ti'. EnqueueDelayedJob (m, ti) r = ((m', ti'), Inr e) \<and> tubes_upd ti ti' (LDelayed t) h' \<and>
            dom (mget ti') = insert t (dom (mget ti))"
    using assms ti1 dom by (auto simp: defs intro: tubes_upd_mput)
  show "jobHeap_Enqueue (m, heap_at ti ri (LBuried t)) r = ((m', h'), e) \<Longrightarrow>
      \<exists>ti'. EnqueueBuriedJob (m, ti) r = ((m', ti'), Inr e) \<and> tubes_upd ti ti' (LBuried t) h' \<and>
            dom (mget ti') = insert t (dom (mget ti))"
    using assms ti1 dom by (auto simp: defs intro: tubes_upd_mput)
qed

text \<open>Removing an entry that is in the heap of its job's tube succeeds.\<close>

lemma tube_exists: "entries (heap_at ti ri l) \<noteq> [] \<Longrightarrow> (case l of
    LReady t \<Rightarrow> mget ti t \<noteq> None | LDelayed t \<Rightarrow> mget ti t \<noteq> None | LBuried t \<Rightarrow> mget ti t \<noteq> None
  | LReserved c \<Rightarrow> mget ri c \<noteq> None)"
  by (cases l) (auto simp: tube_at_def NewPriorityJobs_def NewDelayedJobs_def NewBuriedJobs_def
      NewReservedJobs_def split: option.splits)

lemma RemoveReadyJob_at:
  assumes "jh_wf (m, heap_at ti ri (LReady t))" and "e \<in> set (entries (heap_at ti ri (LReady t)))"
    and "TubeName (job_of m e) = t"
  shows "\<exists>m' ti' h'. RemoveReadyJob (m, ti) e = Some ((m', ti'), Inr e) \<and>
           jh_removed (m, heap_at ti ri (LReady t)) e (m', h') \<and> tubes_upd ti ti' (LReady t) h' \<and>
           dom (mget ti') = dom (mget ti)"
proof -
  obtain m' h' where r: "jobHeap_RemoveAt (m, heap_at ti ri (LReady t)) e = Some ((m', h'), Inr e)"
      "jh_removed (m, heap_at ti ri (LReady t)) e (m', h')"
    using jobHeap_RemoveAt_correct [OF assms(1,2)] by auto
  have ex: "mget ti t \<noteq> None" using tube_exists [of ti ri "LReady t"] assms(2) by force
  have "RemoveReadyJob (m, ti) e = Some ((m', mput ti t ((tube_at ti t)\<lparr>readyJobs := h'\<rparr>)), Inr e)"
    using r(1) ex assms(3) by (simp add: RemoveReadyJob_def getByName_find)
  moreover have "dom (mget (mput ti t x)) = dom (mget ti)" for x using ex by (auto simp: dom_def)
  ultimately show ?thesis using r(2) tubes_upd_mput by blast
qed

lemma RemoveBuriedJob_at:
  assumes "jh_wf (m, heap_at ti ri (LBuried t))" and "e \<in> set (entries (heap_at ti ri (LBuried t)))"
    and "TubeName (job_of m e) = t"
  shows "\<exists>m' ti' h'. RemoveBuriedJob (m, ti) e = Some ((m', ti'), Inr e) \<and>
           jh_removed (m, heap_at ti ri (LBuried t)) e (m', h') \<and> tubes_upd ti ti' (LBuried t) h' \<and>
           dom (mget ti') = dom (mget ti)"
proof -
  obtain m' h' where r: "jobHeap_RemoveAt (m, heap_at ti ri (LBuried t)) e = Some ((m', h'), Inr e)"
      "jh_removed (m, heap_at ti ri (LBuried t)) e (m', h')"
    using jobHeap_RemoveAt_correct [OF assms(1,2)] by auto
  have ex: "mget ti t \<noteq> None" using tube_exists [of ti ri "LBuried t"] assms(2) by force
  have "RemoveBuriedJob (m, ti) e = Some ((m', mput ti t ((tube_at ti t)\<lparr>buriedJobs := h'\<rparr>)), Inr e)"
    using r(1) ex assms(3) by (simp add: RemoveBuriedJob_def getByName_find)
  moreover have "dom (mget (mput ti t x)) = dom (mget ti)" for x using ex by (auto simp: dom_def)
  ultimately show ?thesis using r(2) tubes_upd_mput by blast
qed

lemma empty_jobHeap_eq: "entries h = [] \<Longrightarrow> lessFn h = f \<Longrightarrow> h = \<lparr>entries = [], lessFn = f\<rparr>"
  by (cases h) simp

text \<open>Dropping an empty tube changes nothing.\<close>

lemma cleanup_at:
  assumes "waits_wf m ti" and "ordered_right (heap_at ti ri)"
  shows "heap_at (cleanup ti t) ri' = heap_at ti ri'" and "waiters (cleanup ti t) = waiters ti"
    and "waits_wf m' ti \<Longrightarrow> waits_wf m' (cleanup ti t)"
proof -
  have "tube_at (cleanup ti t) = tube_at ti \<or>
     tube_at (cleanup ti t) = (tube_at ti)(t := new_tubeState) \<and> q_items (waiting (tube_at ti t)) = [] \<and>
     readyJobs (tube_at ti t) = NewPriorityJobs \<and> delayedJobs (tube_at ti t) = NewDelayedJobs \<and>
     buriedJobs (tube_at ti t) = NewBuriedJobs"
  proof (cases "mget ti t")
    case None
    then show ?thesis by (simp add: cleanup_def)
  next
    case (Some ts)
    then have ts: "tube_at ti t = ts" by (simp add: tube_at_def)
    then have o: "lessFn (readyJobs ts) = ByPriority" "lessFn (delayedJobs ts) = ByReadyAt"
        "lessFn (buriedJobs ts) = ByBuriedAt"
      using assms(2) unfolding ordered_right_def all_loc by auto
    have "q_wf m (waiting ts)" using assms(1) ts by (auto simp: waits_wf_def)
    then have l: "clientResvQueue_Len (waiting ts) = length (q_items (waiting ts))" by (rule q_wf_Len)
    show ?thesis
    proof (cases "readyJobs ts = NewPriorityJobs \<and> delayedJobs ts = NewDelayedJobs \<and>
        q_items (waiting ts) = [] \<and> buriedJobs ts = NewBuriedJobs")
      case True
      then show ?thesis using Some ts l
        by (simp add: cleanup_def tube_at_mdel NewPriorityJobs_def NewDelayedJobs_def NewBuriedJobs_def)
    next
      case False
      then have "cleanup ti t = ti"
        using Some l empty_jobHeap_eq [OF _ o(1)] empty_jobHeap_eq [OF _ o(2)] empty_jobHeap_eq [OF _ o(3)]
        by (auto simp: cleanup_def NewPriorityJobs_def NewDelayedJobs_def NewBuriedJobs_def)
      then show ?thesis by simp
    qed
  qed
  then show "heap_at (cleanup ti t) ri' = heap_at ti ri'" and "waiters (cleanup ti t) = waiters ti"
    and "waits_wf m' ti \<Longrightarrow> waits_wf m' (cleanup ti t)"
    unfolding fun_eq_iff all_loc by (auto simp: waiters_def waits_wf_def)
qed

lemma jh_removed_lessFn: "jh_removed (m, h) e (m', h') \<Longrightarrow> lessFn h' = lessFn h"
  by (simp add: jh_removed_def jh_fr_def)

lemma RemoveDelayedJob_at:
  assumes "jh_wf (m, heap_at ti ri (LDelayed t))" and "e \<in> set (entries (heap_at ti ri (LDelayed t)))"
    and "TubeName (job_of m e) = t" and "waits_wf m ti" and "ordered_right (heap_at ti ri)"
  shows "\<exists>m' ti' h'. RemoveDelayedJob (m, ti) e = Some ((m', ti'), Inr e) \<and>
           jh_removed (m, heap_at ti ri (LDelayed t)) e (m', h') \<and> tubes_upd ti ti' (LDelayed t) h' \<and>
           insert t (dom (mget ti')) = dom (mget ti)"
proof -
  obtain m' h' where r: "jobHeap_RemoveAt (m, heap_at ti ri (LDelayed t)) e = Some ((m', h'), Inr e)"
      "jh_removed (m, heap_at ti ri (LDelayed t)) e (m', h')"
    using jobHeap_RemoveAt_correct [OF assms(1,2)] by auto
  let ?ti = "mput ti t ((tube_at ti t)\<lparr>delayedJobs := h'\<rparr>)"
  have u: "tubes_upd ti ?ti (LDelayed t) h'" using tubes_upd_mput by blast
  have ex: "mget ti t \<noteq> None" using tube_exists [of ti ri "LDelayed t"] assms(2) by force
  have c: "RemoveDelayedJob (m, ti) e = Some ((m', cleanup ?ti t), Inr e)"
    using r(1) ex assms(3) by (simp add: RemoveDelayedJob_def getByName_find)
  have wf: "waits_wf m ?ti" using u assms(4) by (auto simp: tubes_upd_def)
  have "ordered_right (heap_at ?ti ri)"
    using u assms(5) jh_removed_lessFn [OF r(2)]
    by (auto simp: tubes_upd_def ordered_right_def all_loc)
  note clean = cleanup_at [OF wf this]
  have "tubes_upd ti (cleanup ?ti t) (LDelayed t) h'"
    using u unfolding tubes_upd_def clean(1,2) using clean(3) by blast
  moreover have "insert t (dom (mget (cleanup ?ti t))) = dom (mget ti)"
    using ex by (auto simp: cleanup_def dom_def)
  ultimately show ?thesis using c r(2) by blast
qed

lemma reserved_Enqueue_at:
  assumes "jobHeap_Enqueue (m, heap_at ti ri (LReserved c)) r = ((m', h'), e)"
  shows "\<exists>ri'. reservedJobsIndex_Enqueue (m, ri) c r = ((m', ri'), Inr e) \<and>
           (\<forall>ti. heap_at ti ri' = (heap_at ti ri)(LReserved c := h'))"
  using assms by (auto simp: reservedJobsIndex_Enqueue_def fun_eq_iff all_loc)

lemma reserved_Remove_at:
  assumes wf: "jh_wf (m, heap_at ti ri (LReserved c))"
    and e: "e \<in> set (entries (heap_at ti ri (LReserved c)))"
    and c: "ReservedBy (job_of m e) = c" and o: "ordered_right (heap_at ti ri)"
  shows "\<exists>m' ri' h'. reservedJobsIndex_Remove (m, ri) e = Some ((m', ri'), Inr (je_Job (m_entries m e))) \<and>
           jh_removed (m, heap_at ti ri (LReserved c)) e (m', h') \<and>
           (\<forall>ti. heap_at ti ri' = (heap_at ti ri)(LReserved c := h'))"
proof -
  obtain h where h: "mget ri c = Some h" "heap_at ti ri (LReserved c) = h"
    using e by (cases "mget ri c") (auto simp: NewReservedJobs_def)
  let ?close = "\<lambda>h. if length (entries h) = 0 then mdel ri c else mput ri c h"
  have close: "heap_at ti (?close h') = (heap_at ti ri)(LReserved c := h')"
    if "jh_removed (m, h) e (m', h')" for m' h' ti
  proof -
    have "lessFn h' = ByExpiresAt"
      using jh_removed_lessFn [OF that] o h(2) unfolding ordered_right_def
      by (metis loc_order.simps(4))
    then have "entries h' \<noteq> [] \<or> h' = NewReservedJobs"
      using empty_jobHeap_eq [of h' ByExpiresAt] unfolding NewReservedJobs_def by blast
    then show ?thesis
      by (cases "entries h' = []") (simp_all add: fun_eq_iff all_loc NewReservedJobs_def)
  qed
  have wf': "jh_wf (m, h)" and e': "e \<in> set (entries h)" using wf e h(2) by simp_all
  obtain i where i: "i < length (entries h)" "entries h ! i = e" "je_index (m_entries m e) = int i"
    using jh_wf_index [OF wf' e'] .
  have "\<exists>m' h'. reservedJobsIndex_Remove (m, ri) e =
      Some ((m', ?close h'), Inr (je_Job (m_entries m e))) \<and> jh_removed (m, h) e (m', h')"
  proof (cases "i = 0")
    case True
    have "entries h \<noteq> []" using i(1) by auto
    from jobHeap_Dequeue_correct [OF wf' this]
    obtain t where "jobHeap_Dequeue (m, h) = Some (t, je_Job (m_entries m e))" "jh_removed (m, h) e t"
      using True i(2) by auto
    then show ?thesis using True h(1) i(3) c
      by (cases t) (auto simp: reservedJobsIndex_Remove_def Let_def)
  next
    case False
    obtain t where r: "jobHeap_RemoveAt (m, h) e = Some (t, Inr e)" "jh_removed (m, h) e t"
      using jobHeap_RemoveAt_correct [OF wf' e'] by blast
    then have "je_Job (m_entries (fst t) e) = je_Job (m_entries m e)"
      by (simp add: jh_removed_def jh_fr_def same_but_index_def)
    with r show ?thesis using False h(1) i(3) c
      by (cases t) (auto simp: reservedJobsIndex_Remove_def Let_def)
  qed
  then show ?thesis using close h(2) by blast
qed

end
