(* ===== verification/Job_Places.thy ===== *)
theory Job_Places
  imports Index
begin

text \<open>
  The invariant that ties the job index to the job heaps, independently of the operations
  of the state machine: every indexed job is in exactly one heap, the one its state names,
  and every heap entry belongs to an indexed job. A job that an operation has taken out of
  its heap and not yet put into the next one is in transit; \<open>X\<close> is the set of the ids of
  these. The lemmas say what taking out, updating and putting in do to the invariant; every
  transition of the state machine is a composition of them.

  The code leaves one exception: deleting a buried job drops it from the index and leaves
  its entry in the heap of buried jobs. Such an entry is a ghost.
\<close>

section \<open>The invariant\<close>

fun loc_of_state :: "JobState \<Rightarrow> TubeName \<Rightarrow> ClientID \<Rightarrow> loc option" where
  "loc_of_state Ready t c = Some (LReady t)"
| "loc_of_state Delayed t c = Some (LDelayed t)"
| "loc_of_state Buried t c = Some (LBuried t)"
| "loc_of_state Reserved t c = Some (LReserved c)"
| "loc_of_state _ t c = None"

definition loc_of :: "localJob \<Rightarrow> loc option" where
  "loc_of v = loc_of_state (state v) (tubeName v) (reservedBy v)"

type_synonym job_map = "(JobID, IndexEntry) gomap"

text \<open>\<open>e\<close> is the entry of an indexed job that belongs to \<open>l\<close>.\<close>

definition live_entry :: "mem \<Rightarrow> job_map \<Rightarrow> JobID set \<Rightarrow> loc \<Rightarrow> ref \<Rightarrow> bool" where
  "live_entry m idx X l e \<longleftrightarrow>
     (\<exists>i. i \<notin> X \<and> mget idx i = Some \<lparr>ie_job = je_Job (m_entries m e), ie_entry = Some e\<rparr>) \<and>
     loc_of (view (job_of m e)) = Some l"

definition ghost_entry :: "mem \<Rightarrow> job_map \<Rightarrow> loc \<Rightarrow> ref \<Rightarrow> bool" where
  "ghost_entry m idx l e \<longleftrightarrow>
     l = LBuried (TubeName (job_of m e)) \<and> State (job_of m e) = Deleted \<and>
     (\<forall>i ie. mget idx i = Some ie \<longrightarrow> ie_job ie \<noteq> je_Job (m_entries m e))"

definition index_ok :: "mem \<Rightarrow> job_map \<Rightarrow> (loc \<Rightarrow> jobHeap) \<Rightarrow> JobID set \<Rightarrow> bool" where
  "index_ok m idx H X \<longleftrightarrow>
     (\<forall>i ie. mget idx i = Some ie \<longrightarrow>
        ID (m_jobs m (ie_job ie)) = i \<and> ie_job ie < m_next m \<and>
        (i \<notin> X \<longrightarrow> (\<exists>e l. ie_entry ie = Some e \<and> je_Job (m_entries m e) = ie_job ie \<and>
           loc_of (view (m_jobs m (ie_job ie))) = Some l \<and> e \<in> set (entries (H l)))))"

definition entries_ok :: "mem \<Rightarrow> job_map \<Rightarrow> (loc \<Rightarrow> jobHeap) \<Rightarrow> JobID set \<Rightarrow> bool" where
  "entries_ok m idx H X \<longleftrightarrow>
     (\<forall>l e. e \<in> set (entries (H l)) \<longrightarrow>
        e < m_next m \<and> je_Job (m_entries m e) < m_next m \<and>
        (live_entry m idx X l e \<or> ghost_entry m idx l e))"

text \<open>Without ghosts, a heap is ordered.\<close>

definition heaps_ok :: "mem \<Rightarrow> (loc \<Rightarrow> jobHeap) \<Rightarrow> bool" where
  "heaps_ok m H \<longleftrightarrow>
     ordered_right H \<and>
     (\<forall>l. jh_wf (m, H l) \<and>
          ((\<forall>e \<in> set (entries (H l)). State (job_of m e) \<noteq> Deleted) \<longrightarrow> jh_ordered (m, H l)))"

definition jinv :: "mem \<Rightarrow> job_map \<Rightarrow> (loc \<Rightarrow> jobHeap) \<Rightarrow> JobID set \<Rightarrow> bool" where
  "jinv m idx H X \<longleftrightarrow> heaps_ok m H \<and> index_ok m idx H X \<and> entries_ok m idx H X"

lemma jinv_ordered_right: "jinv m idx H X \<Longrightarrow> ordered_right H"
  by (simp add: jinv_def heaps_ok_def)

lemma jinv_wf: "jinv m idx H X \<Longrightarrow> jh_wf (m, H l)"
  by (simp add: jinv_def heaps_ok_def)

lemma jinv_index:
  assumes "jinv m idx H X" and "mget idx i = Some ie"
  shows "ID (m_jobs m (ie_job ie)) = i" and "ie_job ie < m_next m"
    and "i \<notin> X \<Longrightarrow> \<exists>e l. ie_entry ie = Some e \<and> je_Job (m_entries m e) = ie_job ie \<and>
           loc_of (view (m_jobs m (ie_job ie))) = Some l \<and> e \<in> set (entries (H l))"
  using assms by (auto simp: jinv_def index_ok_def)

lemma jinv_entry:
  assumes "jinv m idx H X" and "e \<in> set (entries (H l))"
  shows "e < m_next m" and "je_Job (m_entries m e) < m_next m"
    and "live_entry m idx X l e \<or> ghost_entry m idx l e"
  using assms by (auto simp: jinv_def entries_ok_def)

lemma ghost_entry_loc_of: "ghost_entry m idx l e \<Longrightarrow> loc_of (view (job_of m e)) = None"
  by (simp add: ghost_entry_def loc_of_def getter_view)

text \<open>An entry is in one heap only.\<close>

lemma jinv_disjoint:
  assumes "jinv m idx H X" and "e \<in> set (entries (H l))" and "e \<in> set (entries (H l'))"
  shows "l = l'"
  using jinv_entry(3) [OF assms(1,2)] jinv_entry(3) [OF assms(1,3)] ghost_entry_loc_of
  by (auto simp: live_entry_def ghost_entry_def)

lemma jinv_index_inj:
  assumes "jinv m idx H X" and "mget idx i = Some ie" and "mget idx i' = Some ie'"
    and "ie_job ie' = ie_job ie"
  shows "i' = i"
  using jinv_index(1) [OF assms(1,2)] jinv_index(1) [OF assms(1,3)] assms(4) by simp

text \<open>A job in transit is in no heap, and a job in a heap has one entry.\<close>

lemma jinv_transit:
  assumes inv: "jinv m idx H X" and ie: "mget idx i = Some ie" and X: "i \<in> X"
    and e: "e \<in> set (entries (H l))"
  shows "je_Job (m_entries m e) \<noteq> ie_job ie"
proof
  assume eq: "je_Job (m_entries m e) = ie_job ie"
  then obtain i' where "i' \<notin> X" "mget idx i' = Some \<lparr>ie_job = ie_job ie, ie_entry = Some e\<rparr>"
    using jinv_entry(3) [OF inv e] ie by (auto simp: live_entry_def ghost_entry_def)
  then show False using jinv_index_inj [OF inv ie, of i'] X by auto
qed

lemma jinv_one_entry:
  assumes inv: "jinv m idx H X" and ie: "mget idx i = Some ie" and "ie_entry ie = Some e"
    and e': "e' \<in> set (entries (H l'))" "je_Job (m_entries m e') = ie_job ie"
  shows "e' = e"
proof -
  obtain i' where "mget idx i' = Some \<lparr>ie_job = ie_job ie, ie_entry = Some e'\<rparr>"
    using jinv_entry(3) [OF inv e'(1)] e'(2) ie by (auto simp: live_entry_def ghost_entry_def)
  then show ?thesis using jinv_index_inj [OF inv ie, of i'] ie assms(3) by (cases ie) auto
qed

section \<open>Taking a job out of its heap\<close>

lemma jh_removed_facts:
  assumes "jh_removed (m, h) e (m', h')"
  shows "set (entries h) = insert e (set (entries h'))" and "jh_wf (m, h) \<Longrightarrow> e \<notin> set (entries h')"
    and "same_but_index (set (entries h)) m m'" and "jh_wf (m', h')"
    and "jh_ordered (m, h) \<Longrightarrow> jh_ordered (m', h')" and "lessFn h' = lessFn h"
proof -
  have ms: "mset (entries h) = add_mset e (mset (entries h'))"
    using assms by (simp add: jh_removed_def jh_elems_def)
  then show "set (entries h) = insert e (set (entries h'))"
    by (metis set_mset_add_mset_insert set_mset_mset)
  assume "jh_wf (m, h)"
  then have "distinct (entries h)" by (simp add: jh_defs)
  then show "e \<notin> set (entries h')" using ms
    by (metis distinct.simps(2) mset.simps(2) mset_eq_imp_distinct_iff)
qed (use assms in \<open>auto simp: jh_removed_def jh_fr_def jh_elems_def\<close>)

lemma same_but_index_facts:
  assumes "same_but_index A m m'"
  shows "m_jobs m' = m_jobs m" and "m_clients m' = m_clients m" and "m_next m' = m_next m"
    and "je_Job (m_entries m' e) = je_Job (m_entries m e)" and "job_of m' e = job_of m e"
    and "e \<notin> A \<Longrightarrow> m_entries m' e = m_entries m e"
  using assms by (auto simp: same_but_index_def job_of_def)

text \<open>A heap whose entries, and the jobs they embed, are untouched stays as it is.\<close>

lemma jh_cong:
  assumes "\<And>e. e \<in> set (entries h) \<Longrightarrow> m_entries m' e = m_entries m e"
    and "\<And>e. e \<in> set (entries h) \<Longrightarrow> job_of m' e = job_of m e"
  shows "jh_wf (m', h) = jh_wf (m, h)" and "jh_ordered (m', h) = jh_ordered (m, h)"
proof -
  show "jh_wf (m', h) = jh_wf (m, h)" using assms(1) by (auto simp: jh_defs)
  show "jh_ordered (m', h) = jh_ordered (m, h)"
    unfolding jh_ordered_def using assms(2)
    by (auto simp: jh_elems_def jh_key_def intro!: heap_ordered_cong)
qed

lemma jinv_remove:
  assumes inv: "jinv m idx H X" and ie: "mget idx i = Some ie" and X: "i \<notin> X"
    and e: "ie_entry ie = Some e" and l: "loc_of (view (m_jobs m (ie_job ie))) = Some l"
    and rem: "jh_removed (m, H l) e (m', h')"
  shows "jinv m' idx (H(l := h')) (insert i X)"
proof -
  note rem = jh_removed_facts [OF rem]
  note same = same_but_index_facts [OF rem(3)]
  have wf: "jh_wf (m, H k)" for k using inv by (rule jinv_wf)
  have el: "e \<in> set (entries (H l))" "je_Job (m_entries m e) = ie_job ie"
    using jinv_index(3) [OF inv ie X] e l by auto
  let ?H = "H(l := h')"
  have sub: "set (entries (?H k)) \<subseteq> set (entries (H k))" for k using rem(1) by auto
  have other: "m_entries m' x = m_entries m x" if "k \<noteq> l" "x \<in> set (entries (H k))" for k x
    using same(6) jinv_disjoint [OF inv that(2), of l] that(1) by blast
  have "heaps_ok m' ?H"
    unfolding heaps_ok_def
  proof (intro conjI allI impI)
    show "ordered_right ?H"
      using jinv_ordered_right [OF inv] rem(6) by (auto simp: ordered_right_def)
    fix k
    show "jh_wf (m', ?H k)"
      using rem(4) wf [of k] jh_cong(1) [of "H k" m' m] other [of k] same(5) by auto
    assume nd: "\<forall>x\<in>set (entries (?H k)). State (job_of m' x) \<noteq> Deleted"
    have "State (job_of m e) \<noteq> Deleted"
      using l el(2) by (auto simp: loc_of_def getter_view job_of_def)
    then have "\<forall>x\<in>set (entries (H k)). State (job_of m x) \<noteq> Deleted"
      using nd rem(1) same(5) by (cases "k = l") auto
    then have "jh_ordered (m, H k)" using inv by (simp add: jinv_def heaps_ok_def)
    then show "jh_ordered (m', ?H k)"
      using rem(5) jh_cong(2) [of "H k" m' m] other [of k] same(5) by auto
  qed
  moreover have "index_ok m' idx ?H (insert i X)"
    unfolding index_ok_def same(1,3,4)
  proof (intro allI impI conjI)
    fix i' ie' assume ie': "mget idx i' = Some ie'"
    then show "ID (m_jobs m (ie_job ie')) = i'" and "ie_job ie' < m_next m"
      using jinv_index [OF inv] by auto
    assume "i' \<notin> insert i X"
    then have "i' \<noteq> i" "i' \<notin> X" by auto
    then obtain x k where x: "ie_entry ie' = Some x" "je_Job (m_entries m x) = ie_job ie'"
        "loc_of (view (m_jobs m (ie_job ie'))) = Some k" "x \<in> set (entries (H k))"
      using jinv_index(3) [OF inv ie'] by blast
    have "ie_job ie' \<noteq> ie_job ie"
      using jinv_index(1) [OF inv ie] jinv_index(1) [OF inv ie'] \<open>i' \<noteq> i\<close> by auto
    then have "x \<noteq> e" using x(2) el(2) by auto
    then have "x \<in> set (entries (?H k))" using x(4) rem(1) by auto
    with x show "\<exists>e l. ie_entry ie' = Some e \<and> je_Job (m_entries m e) = ie_job ie' \<and>
        loc_of (view (m_jobs m (ie_job ie'))) = Some l \<and> e \<in> set (entries (?H l))" by blast
  qed
  moreover have "entries_ok m' idx ?H (insert i X)"
    unfolding entries_ok_def same(3,4)
  proof (intro allI impI conjI)
    fix k x assume x: "x \<in> set (entries (?H k))"
    then have x': "x \<in> set (entries (H k))" using sub by auto
    then show "x < m_next m" and "je_Job (m_entries m x) < m_next m"
      using jinv_entry [OF inv] by auto
    have "x \<noteq> e"
      using x rem(2) [OF wf] jinv_disjoint [OF inv el(1), of k] x' by (auto split: if_splits)
    then have "mget idx i \<noteq> Some \<lparr>ie_job = je_Job (m_entries m x), ie_entry = Some x\<rparr>"
      using ie e by (cases ie) auto
    then have "live_entry m idx X k x \<Longrightarrow> live_entry m' idx (insert i X) k x"
      unfolding live_entry_def same(4,5) by (metis insertE)
    moreover have "ghost_entry m' idx k x = ghost_entry m idx k x"
      by (simp add: ghost_entry_def same)
    ultimately show "live_entry m' idx (insert i X) k x \<or> ghost_entry m' idx k x"
      using jinv_entry(3) [OF inv x'] by blast
  qed
  ultimately show ?thesis by (simp add: jinv_def)
qed

section \<open>Updating a job in transit\<close>

lemma jinv_modify:
  assumes inv: "jinv m idx H X" and ie: "mget idx i = Some ie" and X: "i \<in> X"
    and f: "ID (f (m_jobs m (ie_job ie))) = i"
  shows "jinv (upd_job m (ie_job ie) f) idx H X"
proof -
  let ?m = "upd_job m (ie_job ie) f"
  have e: "job_of ?m e = job_of m e" if "e \<in> set (entries (H l))" for e l
    using jinv_transit [OF inv ie X that] by (simp add: job_of_def upd_job_def)
  have je: "m_entries ?m = m_entries m" "m_next ?m = m_next m" by (simp_all add: upd_job_def)
  have other: "m_jobs ?m (ie_job ie') = m_jobs m (ie_job ie')"
    if "mget idx i' = Some ie'" "i' \<noteq> i" for i' ie'
    using jinv_index_inj [OF inv ie that(1)] that(2) by (auto simp: upd_job_def)
  have "heaps_ok ?m H"
    using inv jh_cong [of "H _" ?m m] e je unfolding jinv_def heaps_ok_def by (metis (no_types, lifting))
  moreover have "index_ok ?m idx H X"
    unfolding index_ok_def je
  proof (intro allI impI)
    fix i' ie' assume i': "mget idx i' = Some ie'"
    show "ID (m_jobs ?m (ie_job ie')) = i' \<and> ie_job ie' < m_next m \<and>
        (i' \<notin> X \<longrightarrow> (\<exists>e l. ie_entry ie' = Some e \<and> je_Job (m_entries m e) = ie_job ie' \<and>
           loc_of (view (m_jobs ?m (ie_job ie'))) = Some l \<and> e \<in> set (entries (H l))))"
    proof (cases "i' = i")
      case True
      then show ?thesis using ie i' f X jinv_index(2) [OF inv ie] by (simp add: upd_job_def)
    next
      case False
      then show ?thesis using other [OF i'] jinv_index [OF inv i'] by auto
    qed
  qed
  moreover have "entries_ok ?m idx H X"
    unfolding entries_ok_def
    using jinv_entry [OF inv] e je by (auto simp: live_entry_def ghost_entry_def)
  ultimately show ?thesis by (simp add: jinv_def)
qed

section \<open>Putting a job into a heap\<close>

lemma jinv_insert:
  assumes inv: "jinv m idx H X" and ie: "mget idx i = Some ie" and X: "i \<in> X"
    and l: "loc_of (view (m_jobs m (ie_job ie))) = Some l"
    and ins: "jh_inserted (m, H l) (ie_job ie) e (m', h')"
  shows "jinv m' (mput idx i (ie\<lparr>ie_entry := Some e\<rparr>)) (H(l := h')) (X - {i})"
proof -
  let ?H = "H(l := h')" and ?idx = "mput idx i (ie\<lparr>ie_entry := Some e\<rparr>)"
  have e: "e = m_next m" "m_next m' = Suc (m_next m)" "m_jobs m' = m_jobs m"
      "je_Job (m_entries m' e) = ie_job ie"
      "\<And>x. x \<noteq> e \<Longrightarrow> je_Job (m_entries m' x) = je_Job (m_entries m x)"
      "\<And>x. x \<notin> insert e (set (entries (H l))) \<Longrightarrow> m_entries m' x = m_entries m x"
      "lessFn h' = lessFn (H l)"
      "jh_wf (m, H l) \<Longrightarrow> jh_wf (m', h')" "jh_ordered (m, H l) \<Longrightarrow> jh_ordered (m', h')"
    using ins unfolding jh_inserted_def by auto
  have set: "set (entries h') = insert e (set (entries (H l)))"
    using ins by (auto simp: jh_inserted_def) (metis insert_iff set_mset_add_mset_insert set_mset_mset)+
  have new: "e \<notin> set (entries (H k))" for k using jinv_entry(1) [OF inv, of e k] e(1) by auto
  have jobs: "job_of m' x = job_of m x" if "x \<noteq> e" for x
    using e(3) e(5) [OF that] by (simp add: job_of_def)
  have other: "m_entries m' x = m_entries m x" if "k \<noteq> l" "x \<in> set (entries (H k))" for k x
    using e(6) [of x] jinv_disjoint [OF inv that(2), of l] that new [of k] by auto
  have "heaps_ok m' ?H"
    unfolding heaps_ok_def
  proof (intro conjI allI impI)
    show "ordered_right ?H"
      using jinv_ordered_right [OF inv] e(7) by (auto simp: ordered_right_def)
    fix k
    have c: "m_entries m' x = m_entries m x" "job_of m' x = job_of m x"
      if "k \<noteq> l" "x \<in> set (entries (H k))" for x
      using other [OF that] jobs [of x] new [of k] that by auto
    show "jh_wf (m', ?H k)"
      using e(8) jinv_wf [OF inv] jh_cong(1) [of "H k" m' m] c by auto
    assume "\<forall>x\<in>set (entries (?H k)). State (job_of m' x) \<noteq> Deleted"
    then have "\<forall>x\<in>set (entries (H k)). State (job_of m x) \<noteq> Deleted"
      using jobs new set by (metis fun_upd_apply insert_iff)
    then have "jh_ordered (m, H k)" using inv by (simp add: jinv_def heaps_ok_def)
    then show "jh_ordered (m', ?H k)"
      using e(9) jh_cong(2) [of "H k" m' m] c by auto
  qed
  moreover have "index_ok m' ?idx ?H (X - {i})"
    unfolding index_ok_def e(2,3)
  proof (intro allI impI)
    fix i' ie' assume i': "mget ?idx i' = Some ie'"
    show "ID (m_jobs m (ie_job ie')) = i' \<and> ie_job ie' < Suc (m_next m) \<and>
        (i' \<notin> X - {i} \<longrightarrow> (\<exists>e l. ie_entry ie' = Some e \<and> je_Job (m_entries m' e) = ie_job ie' \<and>
           loc_of (view (m_jobs m (ie_job ie'))) = Some l \<and> e \<in> set (entries (?H l))))"
    proof (cases "i' = i")
      case True
      then have "ie' = ie\<lparr>ie_entry := Some e\<rparr>" using i' by simp
      then show ?thesis using True e(4) l set jinv_index [OF inv ie] by auto
    next
      case False
      then have i'': "mget idx i' = Some ie'" using i' by simp
      have "\<exists>e l. ie_entry ie' = Some e \<and> je_Job (m_entries m' e) = ie_job ie' \<and>
           loc_of (view (m_jobs m (ie_job ie'))) = Some l \<and> e \<in> set (entries (?H l))" if iX: "i' \<notin> X"
      proof -
        obtain x k where x: "ie_entry ie' = Some x" "je_Job (m_entries m x) = ie_job ie'"
            "loc_of (view (m_jobs m (ie_job ie'))) = Some k" "x \<in> set (entries (H k))"
          using jinv_index(3) [OF inv i'' iX] by blast
        moreover have "x \<noteq> e" using new x(4) by auto
        moreover have "x \<in> set (entries (?H k))" using x(4) set by auto
        ultimately show ?thesis using e(5) by metis
      qed
      then show ?thesis using False jinv_index(1,2) [OF inv i''] by auto
    qed
  qed
  moreover have "entries_ok m' ?idx ?H (X - {i})"
    unfolding entries_ok_def e(2)
  proof (intro allI impI)
    fix k x assume x: "x \<in> set (entries (?H k))"
    show "x < Suc (m_next m) \<and> je_Job (m_entries m' x) < Suc (m_next m) \<and>
        (live_entry m' ?idx (X - {i}) k x \<or> ghost_entry m' ?idx k x)"
    proof (cases "x = e")
      case True
      then have "k = l" using x new by (metis fun_upd_apply)
      moreover have "job_of m' e = m_jobs m (ie_job ie)" using e(3,4) by (simp add: job_of_def)
      moreover have "ie\<lparr>ie_entry := Some e\<rparr> = \<lparr>ie_job = je_Job (m_entries m' e), ie_entry = Some e\<rparr>"
        using e(4) by (cases ie) simp
      ultimately have "live_entry m' ?idx (X - {i}) k x"
        unfolding live_entry_def using True l by auto
      then show ?thesis using True e(1,4) jinv_index(2) [OF inv ie] by simp
    next
      case False
      then have x': "x \<in> set (entries (H k))" using x set by (auto split: if_splits)
      note t = jinv_transit [OF inv ie X x']
      have "live_entry m idx X k x \<Longrightarrow> live_entry m' ?idx (X - {i}) k x"
        unfolding live_entry_def jobs [OF False] e(5) [OF False]
        using X by (metis DiffD1 mget_mput)
      moreover have "ghost_entry m idx k x \<Longrightarrow> ghost_entry m' ?idx k x"
        unfolding ghost_entry_def jobs [OF False] e(5) [OF False] using t by auto
      ultimately show ?thesis
        using jinv_entry [OF inv x'] e(5) [OF False] by auto
    qed
  qed
  ultimately show ?thesis by (simp add: jinv_def)
qed

section \<open>New jobs, dropped jobs, ghosts\<close>

text \<open>Allocating anything changes nothing of what is indexed.\<close>

lemma jinv_mem:
  assumes inv: "jinv m idx H X"
    and "\<And>r. r < m_next m \<Longrightarrow> m_jobs m' r = m_jobs m r"
    and "\<And>e. e < m_next m \<Longrightarrow> m_entries m' e = m_entries m e" and "m_next m \<le> m_next m'"
  shows "jinv m' idx H X"
proof -
  have e: "m_entries m' e = m_entries m e" "job_of m' e = job_of m e" if "e \<in> set (entries (H l))" for e l
    using jinv_entry(1,2) [OF inv that] assms(2,3) by (simp_all add: job_of_def)
  have "heaps_ok m' H"
    using inv jh_cong [of "H _" m' m] e unfolding jinv_def heaps_ok_def by (metis (no_types, lifting))
  moreover have "index_ok m' idx H X"
    unfolding index_ok_def
  proof (intro allI impI)
    fix i ie assume i: "mget idx i = Some ie"
    note ix = jinv_index [OF inv i]
    have "\<exists>e l. ie_entry ie = Some e \<and> je_Job (m_entries m' e) = ie_job ie \<and>
           loc_of (view (m_jobs m' (ie_job ie))) = Some l \<and> e \<in> set (entries (H l))" if "i \<notin> X"
      using ix(3) [OF that] e(1) assms(2) [OF ix(2)] by metis
    then show "ID (m_jobs m' (ie_job ie)) = i \<and> ie_job ie < m_next m' \<and>
        (i \<notin> X \<longrightarrow> (\<exists>e l. ie_entry ie = Some e \<and> je_Job (m_entries m' e) = ie_job ie \<and>
           loc_of (view (m_jobs m' (ie_job ie))) = Some l \<and> e \<in> set (entries (H l))))"
      using ix(1) assms(2) [OF ix(2)] ix(2) assms(4) by auto
  qed
  moreover have "entries_ok m' idx H X"
    unfolding entries_ok_def
  proof (intro allI impI)
    fix l x assume x: "x \<in> set (entries (H l))"
    show "x < m_next m' \<and> je_Job (m_entries m' x) < m_next m' \<and>
        (live_entry m' idx X l x \<or> ghost_entry m' idx l x)"
      using jinv_entry [OF inv x] e [OF x] assms(4) by (simp add: live_entry_def ghost_entry_def)
  qed
  ultimately show ?thesis by (simp add: jinv_def)
qed

lemma jinv_add:
  assumes inv: "jinv m idx H X" and i: "mget idx (ID j) = None"
    and new: "new_job m j = (m', r)"
  shows "jinv m' (mput idx (ID j) \<lparr>ie_job = r, ie_entry = None\<rparr>) H (insert (ID j) X)"
proof -
  have m': "m_next m' = Suc r" "m_entries m' = m_entries m" "m_jobs m' = (m_jobs m)(r := j)" "r = m_next m"
    using new by (auto simp: new_job_def)
  have inv': "jinv m' idx H X" by (rule jinv_mem [OF inv]) (simp_all add: m')
  have "index_ok m' (mput idx (ID j) \<lparr>ie_job = r, ie_entry = None\<rparr>) H (insert (ID j) X)"
    using inv' i m' by (auto simp: jinv_def index_ok_def)
  moreover have "entries_ok m' (mput idx (ID j) \<lparr>ie_job = r, ie_entry = None\<rparr>) H (insert (ID j) X)"
    unfolding entries_ok_def
  proof (intro allI impI)
    fix l e assume e: "e \<in> set (entries (H l))"
    have "je_Job (m_entries m' e) < r" using jinv_entry(2) [OF inv e] m' by simp
    moreover have "live_entry m' idx X l e \<Longrightarrow>
        live_entry m' (mput idx (ID j) \<lparr>ie_job = r, ie_entry = None\<rparr>) (insert (ID j) X) l e"
      unfolding live_entry_def using i by (metis insertE mget_mput option.distinct(1))
    moreover have "ghost_entry m' idx l e \<Longrightarrow> je_Job (m_entries m' e) < r \<Longrightarrow>
        ghost_entry m' (mput idx (ID j) \<lparr>ie_job = r, ie_entry = None\<rparr>) l e"
      unfolding ghost_entry_def by (auto split: if_splits)
    ultimately show "e < m_next m' \<and> je_Job (m_entries m' e) < m_next m' \<and>
        (live_entry m' (mput idx (ID j) \<lparr>ie_job = r, ie_entry = None\<rparr>) (insert (ID j) X) l e \<or>
         ghost_entry m' (mput idx (ID j) \<lparr>ie_job = r, ie_entry = None\<rparr>) l e)"
      using jinv_entry [OF inv' e] by blast
  qed
  ultimately show ?thesis using inv' by (simp add: jinv_def)
qed

lemma jinv_drop:
  assumes inv: "jinv m idx H X" and X: "i \<in> X"
  shows "jinv m (mdel idx i) H (X - {i})"
proof -
  have "index_ok m (mdel idx i) H (X - {i})"
    using inv by (auto simp: jinv_def index_ok_def)
  moreover have "entries_ok m (mdel idx i) H (X - {i})"
    unfolding entries_ok_def
  proof (intro allI impI)
    fix l e assume e: "e \<in> set (entries (H l))"
    have "live_entry m idx X l e \<Longrightarrow> live_entry m (mdel idx i) (X - {i}) l e"
      unfolding live_entry_def using X by (metis DiffD1 mget_mdel)
    moreover have "ghost_entry m idx l e \<Longrightarrow> ghost_entry m (mdel idx i) l e"
      unfolding ghost_entry_def by auto
    ultimately show "e < m_next m \<and> je_Job (m_entries m e) < m_next m \<and>
        (live_entry m (mdel idx i) (X - {i}) l e \<or> ghost_entry m (mdel idx i) l e)"
      using jinv_entry [OF inv e] by blast
  qed
  ultimately show ?thesis using inv by (simp add: jinv_def)
qed

text \<open>Deleting a buried job turns its entry into a ghost.\<close>

lemma jinv_ghost:
  assumes inv: "jinv m idx H X" and ie: "mget idx i = Some ie" and X: "i \<notin> X"
    and st: "State (m_jobs m (ie_job ie)) = Buried"
    and f: "State (f (m_jobs m (ie_job ie))) = Deleted"
      "TubeName (f (m_jobs m (ie_job ie))) = TubeName (m_jobs m (ie_job ie))"
  shows "jinv (upd_job m (ie_job ie) f) (mdel idx i) H X"
proof -
  let ?m = "upd_job m (ie_job ie) f" and ?t = "TubeName (m_jobs m (ie_job ie))"
  have je: "m_entries ?m = m_entries m" "m_next ?m = m_next m" by (simp_all add: upd_job_def)
  obtain e where e: "ie_entry ie = Some e" "je_Job (m_entries m e) = ie_job ie"
      "e \<in> set (entries (H (LBuried ?t)))"
    using jinv_index(3) [OF inv ie X] st by (auto simp: loc_of_def getter_view)
  have je_e: "job_of ?m e = f (m_jobs m (ie_job ie))" using e(2) by (simp add: job_of_def upd_job_def)
  have other: "je_Job (m_entries m x) \<noteq> ie_job ie \<and> job_of ?m x = job_of m x"
    if "x \<in> set (entries (H l))" "x \<noteq> e" for x l
  proof -
    have "je_Job (m_entries m x) \<noteq> ie_job ie" using jinv_one_entry [OF inv ie e(1) that(1)] that(2) by blast
    then show ?thesis by (simp add: job_of_def upd_job_def)
  qed
  have others: "m_jobs ?m (ie_job ie') = m_jobs m (ie_job ie')"
    if "mget idx i' = Some ie'" "i' \<noteq> i" for i' ie'
    using jinv_index_inj [OF inv ie that(1)] that(2) by (auto simp: upd_job_def)
  have "heaps_ok ?m H"
    unfolding heaps_ok_def
  proof (intro conjI allI impI)
    show "ordered_right H" using inv by (rule jinv_ordered_right)
    fix l
    show "jh_wf (?m, H l)" using jinv_wf [OF inv, of l] by (simp add: jh_defs je)
    assume nd: "\<forall>x\<in>set (entries (H l)). State (job_of ?m x) \<noteq> Deleted"
    then have ne: "e \<notin> set (entries (H l))" using je_e f(1) by auto
    then have same: "job_of ?m x = job_of m x" if "x \<in> set (entries (H l))" for x
      using other [OF that] that by auto
    then have "jh_ordered (m, H l)"
      using inv nd by (simp add: jinv_def heaps_ok_def)
    then show "jh_ordered (?m, H l)" using jh_cong(2) [of "H l" ?m m] same je by simp
  qed
  moreover have "index_ok ?m (mdel idx i) H X"
    unfolding index_ok_def je
  proof (intro allI impI)
    fix i' ie' assume i': "mget (mdel idx i) i' = Some ie'"
    then have i'': "mget idx i' = Some ie'" "i' \<noteq> i" by (auto split: if_splits)
    then show "ID (m_jobs ?m (ie_job ie')) = i' \<and> ie_job ie' < m_next m \<and>
        (i' \<notin> X \<longrightarrow> (\<exists>e l. ie_entry ie' = Some e \<and> je_Job (m_entries m e) = ie_job ie' \<and>
           loc_of (view (m_jobs ?m (ie_job ie'))) = Some l \<and> e \<in> set (entries (H l))))"
      using others [OF i''] jinv_index [OF inv i''(1)] by auto
  qed
  moreover have "entries_ok ?m (mdel idx i) H X"
    unfolding entries_ok_def je
  proof (intro allI impI)
    fix l x assume x: "x \<in> set (entries (H l))"
    have "live_entry ?m (mdel idx i) X l x \<or> ghost_entry ?m (mdel idx i) l x"
    proof (cases "x = e")
      case True
      then have "l = LBuried ?t" using jinv_disjoint [OF inv x, of "LBuried ?t"] e(3) by auto
      then have "ghost_entry ?m (mdel idx i) l x"
        unfolding ghost_entry_def True je_e je
        using f e(2) jinv_index_inj [OF inv ie] by auto
      then show ?thesis by simp
    next
      case False
      then have "mget idx i \<noteq> Some \<lparr>ie_job = je_Job (m_entries m x), ie_entry = Some x\<rparr>"
        using ie e(1) by auto
      then have "live_entry m idx X l x \<Longrightarrow> live_entry ?m (mdel idx i) X l x"
        unfolding live_entry_def je using other [OF x False] by (metis mget_mdel)
      moreover have "ghost_entry m idx l x \<Longrightarrow> ghost_entry ?m (mdel idx i) l x"
        unfolding ghost_entry_def je using other [OF x False] by auto
      ultimately show ?thesis using jinv_entry(3) [OF inv x] by blast
    qed
    then show "x < m_next m \<and> je_Job (m_entries m x) < m_next m \<and>
        (live_entry ?m (mdel idx i) X l x \<or> ghost_entry ?m (mdel idx i) l x)"
      using jinv_entry [OF inv x] by blast
  qed
  ultimately show ?thesis by (simp add: jinv_def)
qed

end
