(* ===== verification/JSM.thy ===== *)
theory JSM
  imports Job_Places
begin

text \<open>
  \<^verbatim>\<open>state/jsm.go\<close>: the job state machine. The state is the record \<open>localJSM\<close>, to which
  the store of shared objects belongs; every method takes it and returns the new one, the
  error or the result, or \<open>None\<close> for a panic. Arguments whose Go name is a field of a job
  here have a shortened name (\<open>dly\<close>, \<open>ttrv\<close>, \<open>sz\<close>, \<open>bdy\<close>, \<open>tube\<close>).
\<close>

section \<open>The state\<close>

record procStats =
  nResv :: int64
  nResvOnDemand :: int64
  nResvOnTick :: int64
  nCmdBury :: uint64
  nCmdDelete :: uint64
  nCmdIgnore :: uint64
  nCmdKick :: uint64
  nCmdKickN :: uint64
  nCmdListTubes :: uint64
  nCmdListTubesUsed :: uint64
  nCmdListTubesWatched :: uint64
  nCmdPauseTube :: uint64
  nCmdPut :: uint64
  nCmdPeek :: uint64
  nCmdPeekReady :: uint64
  nCmdPeekDelayed :: uint64
  nCmdPeekBuried :: uint64
  nCmdRelease :: uint64
  nCmdReserved :: uint64
  nCmdReservedWithTimeout :: uint64
  nCmdStats :: uint64
  nCmdStatsJob :: uint64
  nCmdStatsTube :: uint64
  nCmdTouch :: uint64
  nCmdWatch :: uint64
  nJobTimeouts :: uint64
  nTotalJobs :: uint64

definition zero_procStats :: procStats where
  "zero_procStats = \<lparr>nResv = 0, nResvOnDemand = 0, nResvOnTick = 0, nCmdBury = 0, nCmdDelete = 0,
     nCmdIgnore = 0, nCmdKick = 0, nCmdKickN = 0, nCmdListTubes = 0, nCmdListTubesUsed = 0,
     nCmdListTubesWatched = 0, nCmdPauseTube = 0, nCmdPut = 0, nCmdPeek = 0, nCmdPeekReady = 0,
     nCmdPeekDelayed = 0, nCmdPeekBuried = 0, nCmdRelease = 0, nCmdReserved = 0,
     nCmdReservedWithTimeout = 0, nCmdStats = 0, nCmdStatsJob = 0, nCmdStatsTube = 0,
     nCmdTouch = 0, nCmdWatch = 0, nJobTimeouts = 0, nTotalJobs = 0\<rparr>"

record localJSM =
  jsm_mem :: mem
  maxJobID :: JobID
  jobs :: JobIndex
  tubes :: tubeIndex
  clientHeap :: clientResvHeap
  clients :: clientResvQueue
  reservedJobs :: reservedJobsIndex
  nextDelayTickAt :: int64
  stat :: procStats

definition NewJSM :: localJSM where
  "NewJSM = \<lparr>jsm_mem = empty_mem, maxJobID = 0, jobs = NewJobIndex, tubes = [],
     clientHeap = newClientResvHeap, clients = newClientResvQueue, reservedJobs = [],
     nextDelayTickAt = maxTime, stat = zero_procStats\<rparr>"

type_synonym 'a jsm_result = "(localJSM, error, 'a) outcome"

text \<open>How a method reads and writes the parts of the state.\<close>

abbreviation job_at :: "localJSM \<Rightarrow> ref \<Rightarrow> Job" where
  "job_at s r \<equiv> m_jobs (jsm_mem s) r"

abbreviation cli_at :: "localJSM \<Rightarrow> ref \<Rightarrow> ClientResvEntry" where
  "cli_at s c \<equiv> m_clients (jsm_mem s) c"

definition tally :: "(procStats \<Rightarrow> procStats) \<Rightarrow> localJSM \<Rightarrow> localJSM" where
  "tally f s = s\<lparr>stat := f (stat s)\<rparr>"

definition update_job :: "localJSM \<Rightarrow> ref \<Rightarrow> (Job \<Rightarrow> Job) \<Rightarrow> localJSM" where
  "update_job s r f = s\<lparr>jsm_mem := upd_job (jsm_mem s) r f\<rparr>"

definition update_cli :: "localJSM \<Rightarrow> ref \<Rightarrow> (ClientResvEntry \<Rightarrow> ClientResvEntry) \<Rightarrow> localJSM" where
  "update_cli s c f = s\<lparr>jsm_mem := upd_client (jsm_mem s) c f\<rparr>"

definition on_tubes :: "(tubes_state \<Rightarrow> (tubes_state, error, 'a) outcome) \<Rightarrow> localJSM \<Rightarrow> 'a jsm_result" where
  "on_tubes f s =
     (case f (jsm_mem s, tubes s) of
        None \<Rightarrow> None
      | Some ((m, ti), r) \<Rightarrow> Some (s\<lparr>jsm_mem := m, tubes := ti\<rparr>, r))"

definition on_reserved :: "(reserved_state \<Rightarrow> (reserved_state, error, 'a) outcome) \<Rightarrow> localJSM \<Rightarrow> 'a jsm_result" where
  "on_reserved f s =
     (case f (jsm_mem s, reservedJobs s) of
        None \<Rightarrow> None
      | Some ((m, ri), r) \<Rightarrow> Some (s\<lparr>jsm_mem := m, reservedJobs := ri\<rparr>, r))"

definition get_entry :: "localJSM \<Rightarrow> JobID \<Rightarrow> IndexEntry jsm_result" where
  "get_entry s jobID = Some (s, JobIndex_Get (jobs s) jobID)"

text \<open>The assignment \<^verbatim>\<open>e.entry = je\<close> through the pointer held by the index.\<close>

definition set_entry :: "localJSM \<Rightarrow> JobID \<Rightarrow> IndexEntry \<Rightarrow> ref \<Rightarrow> localJSM" where
  "set_entry s jobID e je =
     s\<lparr>jobs := (jobs s)\<lparr>ji_m := mput (ji_m (jobs s)) jobID (e\<lparr>ie_entry := Some je\<rparr>)\<rparr>\<rparr>"

text \<open>Reading through \<^verbatim>\<open>e.entry\<close> panics on nil.\<close>

fun deref :: "ref option \<Rightarrow> (ref \<Rightarrow> 'a jsm_result) \<Rightarrow> 'a jsm_result" where
  "deref None k = None"
| "deref (Some e) k = k e"

section \<open>State transitions of a job\<close>

definition NextJobID :: "localJSM \<Rightarrow> localJSM \<times> JobID" where
  "NextJobID s = (let s = s\<lparr>maxJobID := maxJobID s + 1\<rparr> in (s, maxJobID s))"

text \<open>The common end of the transitions: enqueue the job and record the new heap entry.\<close>

definition enqueue_ready :: "localJSM \<Rightarrow> JobID \<Rightarrow> IndexEntry \<Rightarrow> unit jsm_result" where
  "enqueue_ready s jobID e =
     and_then (on_tubes (\<lambda>ts. Some (EnqueueReadyJob ts (ie_job e))) s)
       (\<lambda>s je. Some (set_entry s jobID e je, Inr ()))"

definition enqueue_delayed :: "localJSM \<Rightarrow> JobID \<Rightarrow> IndexEntry \<Rightarrow> unit jsm_result" where
  "enqueue_delayed s jobID e =
     and_then (on_tubes (\<lambda>ts. Some (EnqueueDelayedJob ts (ie_job e))) s)
       (\<lambda>s je. Some (set_entry s jobID e je, Inr ()))"

definition enqueue_buried :: "localJSM \<Rightarrow> JobID \<Rightarrow> IndexEntry \<Rightarrow> unit jsm_result" where
  "enqueue_buried s jobID e =
     and_then (on_tubes (\<lambda>ts. Some (EnqueueBuriedJob ts (ie_job e))) s)
       (\<lambda>s je. Some (set_entry s jobID e je, Inr ()))"

definition enqueue_reserved :: "localJSM \<Rightarrow> ClientID \<Rightarrow> JobID \<Rightarrow> IndexEntry \<Rightarrow> unit jsm_result" where
  "enqueue_reserved s clientID jobID e =
     and_then (on_reserved (\<lambda>rs. Some (reservedJobsIndex_Enqueue rs clientID (ie_job e))) s)
       (\<lambda>s je. Some (set_entry s jobID e je, Inr ()))"

definition add_job :: "localJSM \<Rightarrow> ref \<Rightarrow> IndexEntry jsm_result" where
  "add_job s job =
     (let (idx, r) = JobIndex_Add (jsm_mem s) (jobs s) job in Some (s\<lparr>jobs := idx\<rparr>, r))"

definition fromInitialToReady :: "localJSM \<Rightarrow> ref \<Rightarrow> unit jsm_result" where
  "fromInitialToReady s job =
     (if State (job_at s job) \<noteq> Initial then Some (s, Inl ErrInvalidJobTransition)
      else and_then (add_job s job) (\<lambda>s e.
        let s = update_job s job (UpdateState Ready)
        in enqueue_ready s (ID (job_at s job)) e))"

definition fromInitialToDelayed :: "localJSM \<Rightarrow> ref \<Rightarrow> unit jsm_result" where
  "fromInitialToDelayed s job =
     (if State (job_at s job) \<noteq> Initial then Some (s, Inl ErrInvalidJobTransition)
      else and_then (add_job s job) (\<lambda>s e.
        let s = update_job s job (UpdateState Delayed)
        in enqueue_delayed s (ID (job_at s job)) e))"

definition fromDelayedToReady :: "localJSM \<Rightarrow> JobID \<Rightarrow> unit jsm_result" where
  "fromDelayedToReady s jobID =
     and_then (get_entry s jobID) (\<lambda>s e.
       if State (job_at s (ie_job e)) \<noteq> Delayed then Some (s, Inl ErrInvalidJobTransition)
       else deref (ie_entry e) (\<lambda>je.
         if je_index (m_entries (jsm_mem s) je) \<noteq> 0 then Some (s, Inl ErrInvalidJobTransition)
         else and_then (on_tubes (\<lambda>ts. RemoveDelayedJob ts je) s) (\<lambda>s _.
           let s = update_job s (ie_job e) (UpdateState Ready)
           in enqueue_ready s jobID e)))"

text \<open>The client may be left out; if it is given it has to be the holder.\<close>

definition unauthorized :: "Job \<Rightarrow> ClientID \<Rightarrow> bool" where
  "unauthorized j clientID \<longleftrightarrow> length clientID > 0 \<and> ReservedBy j \<noteq> clientID"

definition fromReservedToReady ::
    "localJSM \<Rightarrow> JobID \<Rightarrow> ClientID \<Rightarrow> uint32 \<Rightarrow> bool \<Rightarrow> unit jsm_result" where
  "fromReservedToReady s jobID clientID pri updatePri =
     and_then (get_entry s jobID) (\<lambda>s e.
       if State (job_at s (ie_job e)) \<noteq> Reserved then Some (s, Inl ErrInvalidJobTransition)
       else if unauthorized (job_at s (ie_job e)) clientID then Some (s, Inl ErrUnauthorizedOperation)
       else deref (ie_entry e) (\<lambda>je.
         and_then (on_reserved (\<lambda>rs. reservedJobsIndex_Remove rs je) s) (\<lambda>s _.
           let s = update_job s (ie_job e)
                 (if updatePri then UpdatePriority pri \<circ> IncReleaseCount else IncTimeoutCount);
               s = update_job s (ie_job e) (UpdateReservedBy [] \<circ> UpdateState Ready)
           in enqueue_ready s jobID e)))"

definition fromReservedToDelayed ::
    "localJSM \<Rightarrow> int64 \<Rightarrow> JobID \<Rightarrow> ClientID \<Rightarrow> uint32 \<Rightarrow> int64 \<Rightarrow> unit jsm_result" where
  "fromReservedToDelayed s nowSeconds jobID clientID pri dly =
     and_then (get_entry s jobID) (\<lambda>s e.
       if State (job_at s (ie_job e)) \<noteq> Reserved then Some (s, Inl ErrInvalidJobTransition)
       else if unauthorized (job_at s (ie_job e)) clientID then Some (s, Inl ErrUnauthorizedOperation)
       else deref (ie_entry e) (\<lambda>je.
         and_then (on_reserved (\<lambda>rs. reservedJobsIndex_Remove rs je) s) (\<lambda>s _.
           let s = update_job s (ie_job e)
                 (IncReleaseCount \<circ> UpdateReservedBy [] \<circ> UpdateReadyAt nowSeconds \<circ>
                  UpdateDelay dly \<circ> UpdateState Delayed \<circ> UpdatePriority pri)
           in and_then (enqueue_delayed s jobID e) (\<lambda>s _.
                Some ((if ReadyAt (job_at s (ie_job e)) < nextDelayTickAt s
                       then s\<lparr>nextDelayTickAt := ReadyAt (job_at s (ie_job e))\<rparr> else s),
                      Inr ())))))"

definition fromReadyToReserved :: "localJSM \<Rightarrow> int64 \<Rightarrow> JobID \<Rightarrow> ClientID \<Rightarrow> unit jsm_result" where
  "fromReadyToReserved s nowSeconds jobID clientID =
     and_then (get_entry s jobID) (\<lambda>s e.
       if State (job_at s (ie_job e)) \<noteq> Ready then Some (s, Inl ErrInvalidJobTransition)
       else deref (ie_entry e) (\<lambda>je.
         and_then (on_tubes (\<lambda>ts. RemoveReadyJob ts je) s) (\<lambda>s _.
           let s = update_job s (ie_job e)
                 (IncReserveCount \<circ> UpdateReservedBy clientID \<circ> UpdateState Reserved \<circ>
                  UpdateReservation nowSeconds)
           in enqueue_reserved s clientID jobID e)))"

definition fromReservedToBuried ::
    "localJSM \<Rightarrow> int64 \<Rightarrow> JobID \<Rightarrow> uint32 \<Rightarrow> ClientID \<Rightarrow> unit jsm_result" where
  "fromReservedToBuried s nowSeconds jobID pri clientID =
     and_then (get_entry s jobID) (\<lambda>s e.
       if State (job_at s (ie_job e)) \<noteq> Reserved then Some (s, Inl ErrInvalidJobTransition)
       else if unauthorized (job_at s (ie_job e)) clientID then Some (s, Inl ErrUnauthorizedOperation)
       else deref (ie_entry e) (\<lambda>je.
         and_then (on_reserved (\<lambda>rs. reservedJobsIndex_Remove rs je) s) (\<lambda>s _.
           let s = update_job s (ie_job e)
                 (IncBuryCount \<circ> UpdatePriority pri \<circ> UpdateState Buried \<circ>
                  UpdateBuriedAt nowSeconds \<circ> UpdateReservedBy [])
           in enqueue_buried s jobID e)))"

definition fromBuriedToReady :: "localJSM \<Rightarrow> JobID \<Rightarrow> unit jsm_result" where
  "fromBuriedToReady s jobID =
     and_then (get_entry s jobID) (\<lambda>s e.
       if State (job_at s (ie_job e)) \<noteq> Buried then Some (s, Inl ErrInvalidJobTransition)
       else deref (ie_entry e) (\<lambda>je.
         and_then (on_tubes (\<lambda>ts. RemoveBuriedJob ts je) s) (\<lambda>s _.
           let s = update_job s (ie_job e) (IncKickCount \<circ> UpdateState Ready \<circ> ResetBuriedAt)
           in enqueue_ready s jobID e)))"

section \<open>Commands on jobs\<close>

definition NewJob ::
    "localJSM \<Rightarrow> int64 \<Rightarrow> uint32 \<Rightarrow> int64 \<Rightarrow> int64 \<Rightarrow> int64 \<Rightarrow> bytes \<Rightarrow> TubeName \<Rightarrow> ref jsm_result" where
  "NewJob s nowSeconds pri dly ttrv sz bdy tube =
     (let (s, jobID) = NextJobID s;
          (m, newJob) = new_job (jsm_mem s) (LocalJob
            \<lparr>job_id = jobID, priority = pri, delay = dly, ttr = ttrv, bodySize = sz, body = bdy,
             tubeName = tube, createdAt = nowSeconds, readyAt = wrap64 (nowSeconds + dly),
             state = Initial, expiresAt = 0, reservedBy = [], buriedAt = 0, reserveCount = 0,
             timeoutCount = 0, releaseCount = 0, buryCount = 0, kickCount = 0\<rparr>);
          s = s\<lparr>jsm_mem := m\<rparr>
      in if Delay (job_at s newJob) > 0
         then (let s = (if ReadyAt (job_at s newJob) < nextDelayTickAt s
                        then s\<lparr>nextDelayTickAt := ReadyAt (job_at s newJob)\<rparr> else s)
               in and_then (fromInitialToDelayed s newJob) (\<lambda>s _. Some (s, Inr newJob)))
         else and_then (fromInitialToReady s newJob) (\<lambda>s _. Some (s, Inr newJob)))"

definition Put ::
    "localJSM \<Rightarrow> int64 \<Rightarrow> uint32 \<Rightarrow> int64 \<Rightarrow> int64 \<Rightarrow> int64 \<Rightarrow> bytes \<Rightarrow> TubeName \<Rightarrow> JobID jsm_result" where
  "Put s nowSeconds pri dly ttrv sz bdy tube =
     (let s = tally (\<lambda>c. c\<lparr>nCmdPut := nCmdPut c + 1\<rparr>) s
      in and_then (NewJob s nowSeconds pri dly ttrv sz bdy tube) (\<lambda>s newJob.
           let s = tally (\<lambda>c. c\<lparr>nTotalJobs := nTotalJobs c + 1\<rparr>) s
           in Some (s, Inr (ID (job_at s newJob)))))"

definition GetJob :: "localJSM \<Rightarrow> JobID \<Rightarrow> ref jsm_result" where
  "GetJob s jobID =
     (let s = tally (\<lambda>c. c\<lparr>nCmdPeek := nCmdPeek c + 1\<rparr>) s
      in and_then (get_entry s jobID) (\<lambda>s e. Some (s, Inr (ie_job e))))"

definition GetTubes :: "localJSM \<Rightarrow> TubeName list \<Rightarrow> TubeName list jsm_result" where
  "GetTubes s ord =
     (let s = tally (\<lambda>c. c\<lparr>nCmdListTubes := nCmdListTubes c + 1\<rparr>) s
      in Some (s, Inr (GetTubeNames (tubes s) ord)))"

definition remove_entry :: "localJSM \<Rightarrow> JobID \<Rightarrow> IndexEntry jsm_result" where
  "remove_entry s jobID =
     (let (idx, r) = JobIndex_Remove (jobs s) jobID in Some (s\<lparr>jobs := idx\<rparr>, r))"

definition Delete :: "localJSM \<Rightarrow> JobID \<Rightarrow> ClientID \<Rightarrow> unit jsm_result" where
  "Delete s jobID clientID =
     (let s = tally (\<lambda>c. c\<lparr>nCmdDelete := nCmdDelete c + 1\<rparr>) s
      in and_then (get_entry s jobID) (\<lambda>s e.
           if State (job_at s (ie_job e)) = Reserved \<and> ReservedBy (job_at s (ie_job e)) \<noteq> clientID
           then Some (s, Inl ErrUnauthorizedOperation)
           else and_then (remove_entry s jobID) (\<lambda>s e.
             and_then
               (case State (job_at s (ie_job e)) of
                  Ready \<Rightarrow> deref (ie_entry e) (\<lambda>je. on_tubes (\<lambda>ts. RemoveReadyJob ts je) s)
                | Delayed \<Rightarrow> deref (ie_entry e) (\<lambda>je. on_tubes (\<lambda>ts. RemoveDelayedJob ts je) s)
                | Reserved \<Rightarrow> deref (ie_entry e) (\<lambda>je. on_reserved (\<lambda>rs. reservedJobsIndex_Remove rs je) s)
                | _ \<Rightarrow> Some (s, Inr 0))
               (\<lambda>s _. Some (update_job s (ie_job e) (UpdateReservedBy [] \<circ> UpdateState Deleted), Inr ())))))"

definition PeekDelayedJob :: "localJSM \<Rightarrow> TubeName \<Rightarrow> localJSM \<times> (error + ref)" where
  "PeekDelayedJob s tube =
     (let s = tally (\<lambda>c. c\<lparr>nCmdPeekDelayed := nCmdPeekDelayed c + 1\<rparr>) s
      in (s, NextDelayedJob (tubes s) tube))"

definition PeekReadyJob :: "localJSM \<Rightarrow> TubeName \<Rightarrow> localJSM \<times> (error + ref)" where
  "PeekReadyJob s tube =
     (let s = tally (\<lambda>c. c\<lparr>nCmdPeekReady := nCmdPeekReady c + 1\<rparr>) s
      in (s, NextReadyJob (tubes s) tube))"

definition jsm_NextReservedJob :: "localJSM \<Rightarrow> ClientID \<Rightarrow> error + ref" where
  "jsm_NextReservedJob s clientID = NextReservedJob (reservedJobs s) clientID"

definition PeekBuriedJob :: "localJSM \<Rightarrow> TubeName \<Rightarrow> localJSM \<times> (error + ref)" where
  "PeekBuriedJob s tube =
     (let s = tally (\<lambda>c. c\<lparr>nCmdPeekBuried := nCmdPeekBuried c + 1\<rparr>) s
      in (s, NextBuriedJob (tubes s) tube))"

definition jsm_Ready :: "localJSM \<Rightarrow> JobID \<Rightarrow> unit jsm_result" where
  "jsm_Ready s jobID = fromDelayedToReady s jobID"

definition Reserve :: "localJSM \<Rightarrow> int64 \<Rightarrow> JobID \<Rightarrow> ClientID \<Rightarrow> unit jsm_result" where
  "Reserve s nowSeconds jobID clientID = fromReadyToReserved s nowSeconds jobID clientID"

definition Release :: "localJSM \<Rightarrow> JobID \<Rightarrow> ClientID \<Rightarrow> unit jsm_result" where
  "Release s jobID clientID =
     (let s = tally (\<lambda>c. c\<lparr>nJobTimeouts := nJobTimeouts c + 1\<rparr>) s
      in fromReservedToReady s jobID clientID 0 False)"

definition ReleaseWith ::
    "localJSM \<Rightarrow> int64 \<Rightarrow> JobID \<Rightarrow> ClientID \<Rightarrow> uint32 \<Rightarrow> int64 \<Rightarrow> unit jsm_result" where
  "ReleaseWith s nowSeconds jobID clientID pri dly =
     (let s = tally (\<lambda>c. c\<lparr>nCmdRelease := nCmdRelease c + 1\<rparr>) s
      in if dly = 0 then fromReservedToReady s jobID clientID pri True
         else fromReservedToDelayed s nowSeconds jobID clientID pri dly)"

definition Bury :: "localJSM \<Rightarrow> int64 \<Rightarrow> JobID \<Rightarrow> uint32 \<Rightarrow> ClientID \<Rightarrow> unit jsm_result" where
  "Bury s nowSeconds jobID pri clientID =
     (let s = tally (\<lambda>c. c\<lparr>nCmdBury := nCmdBury c + 1\<rparr>) s
      in fromReservedToBuried s nowSeconds jobID pri clientID)"

definition Kick :: "localJSM \<Rightarrow> JobID \<Rightarrow> unit jsm_result" where
  "Kick s jobID =
     (let s = tally (\<lambda>c. c\<lparr>nCmdKick := nCmdKick c + 1\<rparr>) s in fromBuriedToReady s jobID)"

text \<open>\<open>KickN_loop k s c\<close>: the loop with \<open>k\<close> rounds left and \<open>c\<close> jobs kicked.\<close>

fun KickN_loop :: "nat \<Rightarrow> localJSM \<Rightarrow> TubeName \<Rightarrow> int \<Rightarrow> int jsm_result" where
  "KickN_loop 0 s tube c = Some (s, Inr c)"
| "KickN_loop (Suc k) s tube c =
     (case PeekBuriedJob s tube of
        (s, Inl err) \<Rightarrow> Some (s, Inr (if err = ErrEntryMissing then c else 0))
      | (s, Inr j) \<Rightarrow>
          and_then (Kick s (ID (job_of (jsm_mem s) j))) (\<lambda>s _. KickN_loop k s tube (c + 1)))"

definition KickN :: "localJSM \<Rightarrow> TubeName \<Rightarrow> int \<Rightarrow> int jsm_result" where
  "KickN s tube n =
     (let s = tally (\<lambda>c. c\<lparr>nCmdKickN := nCmdKickN c + 1\<rparr>) s
      in KickN_loop (nat n) s tube 0)"

definition Stop :: "localJSM \<Rightarrow> unit jsm_result" where
  "Stop s = Some (s, Inr ())"

section \<open>Statistics\<close>

text \<open>\<open>marshal\<close> is \<^verbatim>\<open>yaml.Marshal\<close>, a function of a third-party package.\<close>

type_synonym marshal = "(string, yaml_value) gomap \<Rightarrow> error + bytes"

definition GetStatsJobAsYaml :: "marshal \<Rightarrow> localJSM \<Rightarrow> int64 \<Rightarrow> JobID \<Rightarrow> bytes jsm_result" where
  "GetStatsJobAsYaml marshal s nowSeconds jobID =
     (let s = tally (\<lambda>c. c\<lparr>nCmdStatsJob := nCmdStatsJob c + 1\<rparr>) s
      in and_then (get_entry s jobID) (\<lambda>s e.
           Some (s, marshal (GetStatistics nowSeconds (job_at s (ie_job e))))))"

definition GetStatsTubeAsYaml :: "marshal \<Rightarrow> localJSM \<Rightarrow> TubeName \<Rightarrow> bytes jsm_result" where
  "GetStatsTubeAsYaml marshal s tube =
     (let s = tally (\<lambda>c. c\<lparr>nCmdStatsTube := nCmdStatsTube c + 1\<rparr>) s
      in and_then (Some (s, tubeIndex_GetStatistics (tubes s) tube)) (\<lambda>s stats.
           Some (s, marshal (mput stats ''current-jobs-reserved''
                       (YInt (uint (JobCount (jsm_mem s, reservedJobs s) tube)))))))"

definition jsm_statistics :: "localJSM \<Rightarrow> (string, yaml_value) gomap" where
  "jsm_statistics s =
     (let c = stat s; u = (\<lambda>w :: uint64. YInt (uint w));
          stats =
            [(''cmd-use'', YInt 0), (''cmd-watch'', YInt 0), (''cmd-ignore'', YInt 0),
             (''cmd-put'', u (nCmdPut c)), (''cmd-peek'', u (nCmdPeek c)),
             (''cmd-peek-ready'', u (nCmdPeekReady c)),
             (''cmd-peek-delayed'', u (nCmdPeekDelayed c)),
             (''cmd-peek-buried'', u (nCmdPeekBuried c)),
             (''cmd-reserve'', u (nCmdReserved c)),
             (''cmd-reserve-with-timeout'', u (nCmdReservedWithTimeout c)),
             (''cmd-delete'', u (nCmdDelete c)), (''cmd-release'', u (nCmdRelease c)),
             (''cmd-bury'', u (nCmdBury c)), (''cmd-kick'', u (nCmdKick c)),
             (''cmd-touch'', u (nCmdTouch c)), (''cmd-stats'', u (nCmdStats c)),
             (''cmd-stats-job'', u (nCmdStatsJob c)), (''cmd-stats-tube'', u (nCmdStatsTube c)),
             (''cmd-list-tubes'', u (nCmdListTubes c)),
             (''cmd-list-tube-used'', u (nCmdListTubesUsed c)),
             (''cmd-list-tubes-watched'', u (nCmdListTubesWatched c)),
             (''cmd-pause-tube'', u (nCmdPauseTube c)),
             (''job-timeouts'', u (nJobTimeouts c)), (''total-jobs'', u (nTotalJobs c)),
             (''current-connections'', YInt (int (clientResvQueue_Len (clients s)))),
             (''current-tubes'', YInt (int (length (tubes s))))];
          stats = fold (\<lambda>(k, v) st. mput st k (u v)) (TotalJobCounts (tubes s)) stats
      in mput stats ''current-jobs-reserved'' (u (TotalJobs (reservedJobs s))))"

definition GetStatsAsYaml :: "marshal \<Rightarrow> localJSM \<Rightarrow> bytes jsm_result" where
  "GetStatsAsYaml marshal s = Some (s, marshal (jsm_statistics s))"

section \<open>Clients\<close>

definition minTime :: "int64 \<Rightarrow> int64 \<Rightarrow> int64" where
  "minTime a b = (if a < b then a else b)"

text \<open>When the client needs processing again.\<close>

definition next_tick :: "localJSM \<Rightarrow> ref \<Rightarrow> int64" where
  "next_tick s cli =
     (let c = cli_at s cli;
          nextTickAt = maxTime;
          nextTickAt =
            (case jsm_NextReservedJob s (CliID c) of
               Inl _ \<Rightarrow> nextTickAt
             | Inr job \<Rightarrow>
                 (let resvDeadlineAt = ExpiresAt (job_of (jsm_mem s) job);
                      resvDeadlineAt =
                        (if IsWaitingForResv c then wrap64 (resvDeadlineAt - 1) else resvDeadlineAt)
                  in minTime nextTickAt resvDeadlineAt))
      in if IsWaitingForResv c then minTime nextTickAt (ResvDeadlineAt c) else nextTickAt)"

definition updateClientTickAt :: "localJSM \<Rightarrow> ref \<Rightarrow> localJSM option" where
  "updateClientTickAt s cli =
     (let nextTickAt = next_tick s cli
      in if nextTickAt < maxTime
         then (if HeapIndex (cli_at s cli) < 0
               then (let s = update_cli s cli (\<lambda>c. c\<lparr>TickAt := nextTickAt\<rparr>);
                         (m, h) = clientResvHeap_Enqueue (jsm_mem s, clientHeap s) cli
                     in Some (s\<lparr>jsm_mem := m, clientHeap := h\<rparr>))
               else (case clientResvHeap_UpdateTickAt (jsm_mem s, clientHeap s) cli nextTickAt of
                       None \<Rightarrow> None
                     | Some (m, h) \<Rightarrow> Some (s\<lparr>jsm_mem := m, clientHeap := h\<rparr>)))
         else (if HeapIndex (cli_at s cli) \<ge> 0
               then (case clientResvHeap_Remove (jsm_mem s, clientHeap s) cli of
                       None \<Rightarrow> None
                     | Some (_, Some err) \<Rightarrow> None
                     | Some ((m, h), None) \<Rightarrow>
                         (let s = s\<lparr>jsm_mem := m, clientHeap := h\<rparr>
                          in case clientResvQueue_Remove m (clients s) cli of
                               (q, Some err) \<Rightarrow>
                                 if err = ErrEntryMissing
                                 then Some (update_cli (s\<lparr>clients := q\<rparr>) cli (\<lambda>c. c\<lparr>TickAt := nextTickAt\<rparr>))
                                 else None
                             | (q, None) \<Rightarrow>
                                 Some (update_cli (s\<lparr>clients := q\<rparr>) cli (\<lambda>c. c\<lparr>TickAt := nextTickAt\<rparr>))))
               else Some (update_cli s cli (\<lambda>c. c\<lparr>TickAt := nextTickAt\<rparr>))))"

text \<open>
  A tube that is missing is a nil pointer in \<^verbatim>\<open>jsm.tubes[t].waiting\<close>, and a client that is
  not queued is the \<^verbatim>\<open>Panicf\<close> of the loop.
\<close>

fun unwatch :: "mem \<Rightarrow> tubeIndex \<Rightarrow> ref \<Rightarrow> TubeName list \<Rightarrow> tubeIndex option" where
  "unwatch m ti cli [] = Some ti"
| "unwatch m ti cli (t # ts) =
     (case mget ti t of
        None \<Rightarrow> None
      | Some tst \<Rightarrow>
          (case clientResvQueue_Remove m (waiting tst) cli of
             (_, Some err) \<Rightarrow> None
           | (q, None) \<Rightarrow> unwatch m (mput ti t (tst\<lparr>waiting := q\<rparr>)) cli ts))"

definition unReserve :: "localJSM \<Rightarrow> ref \<Rightarrow> localJSM option" where
  "unReserve s cli =
     (let s = update_cli s cli (\<lambda>c. c\<lparr>IsWaitingForResv := False, ResvDeadlineAt := maxTime\<rparr>)
      in case unwatch (jsm_mem s) (tubes s) cli (WatchedTubes (cli_at s cli)) of
           None \<Rightarrow> None
         | Some ti \<Rightarrow> Some (s\<lparr>tubes := ti\<rparr>))"

definition Touch :: "localJSM \<Rightarrow> int64 \<Rightarrow> JobID \<Rightarrow> ClientID \<Rightarrow> unit jsm_result" where
  "Touch s nowSeconds jobID clientID =
     (let s = tally (\<lambda>c. c\<lparr>nCmdTouch := nCmdTouch c + 1\<rparr>) s
      in and_then (get_entry s jobID) (\<lambda>s e.
           if State (job_at s (ie_job e)) \<noteq> Reserved then Some (s, Inl ErrInvalidOperation)
           else if unauthorized (job_at s (ie_job e)) clientID then Some (s, Inl ErrUnauthorizedOperation)
           else deref (ie_entry e) (\<lambda>je.
             and_then (on_reserved (\<lambda>rs. reservedJobsIndex_Remove rs je) s) (\<lambda>s _.
               let s = update_job s (ie_job e) (UpdateReservation nowSeconds)
               in and_then (enqueue_reserved s clientID jobID e) (\<lambda>s _.
                    and_then (Some (s, clientResvQueue_Find (clients s) clientID)) (\<lambda>s cli.
                      case updateClientTickAt s cli of
                        None \<Rightarrow> None
                      | Some s \<Rightarrow> Some (s, Inr ())))))))"

section \<open>Reservations\<close>

text \<open>
  \<open>cli = None\<close> is the nil client: the first waiting client is taken. The errors of the calls
  inside, other than the two that mean there is nothing to reserve, are panics.
\<close>

definition tryReserveJob :: "localJSM \<Rightarrow> int64 \<Rightarrow> TubeName \<Rightarrow> ref option \<Rightarrow> Reservation jsm_result" where
  "tryReserveJob s nowSecs t cli =
     (case WaitQLen (tubes s) t of
        Inl err \<Rightarrow> Some (s, Inl err)
      | Inr n \<Rightarrow>
          if n = 0 then Some (s, Inl ErrNoReservationFound)
          else (case PeekReadyJob s t of
                  (s, Inl err) \<Rightarrow> if err = ErrEntryMissing then Some (s, Inl ErrNoReservationFound) else None
                | (s, Inr job) \<Rightarrow>
                    (case (case cli of Some c \<Rightarrow> Inr c | None \<Rightarrow> DequeueFromWaitQ (tubes s) t) of
                       Inl err \<Rightarrow> None
                     | Inr cli \<Rightarrow>
                         if \<not> IsWaitingForResv (cli_at s cli) then None
                         else (case Reserve s nowSecs (ID (job_of (jsm_mem s) job)) (CliID (cli_at s cli)) of
                                 None \<Rightarrow> None
                               | Some (s, Inl err) \<Rightarrow> None
                               | Some (s, Inr _) \<Rightarrow>
                                   (case unReserve s cli of
                                      None \<Rightarrow> None
                                    | Some s \<Rightarrow>
                                        (let j = job_of (jsm_mem s) job;
                                             resv = \<lparr>rv_RequestId = ReqID (cli_at s cli),
                                               rv_ClientId = CliID (cli_at s cli), rv_JobId = ID j,
                                               rv_Status = Matched, rv_BodySize = BodySize j,
                                               rv_Body = Some (Body j), rv_Error = None\<rparr>
                                         in case updateClientTickAt s cli of
                                              None \<Rightarrow> None
                                            | Some s \<Rightarrow> Some (s, Inr resv)))))))"

definition maxTimeoutSecs :: int64 where
  "maxTimeoutSecs = 24 * 3600"

fun wait_on :: "mem \<Rightarrow> tubeIndex \<Rightarrow> ref \<Rightarrow> TubeName list \<Rightarrow> tubeIndex option" where
  "wait_on m ti cli [] = Some ti"
| "wait_on m ti cli (t # ts) =
     (case EnqueueToWaitQ m ti t cli of
        (_, Some err) \<Rightarrow> None
      | (ti, None) \<Rightarrow> wait_on m ti cli ts)"

text \<open>The loop over the watched tubes; an empty result is that no tube has a ready job.\<close>

fun try_tubes :: "localJSM \<Rightarrow> int64 \<Rightarrow> ref \<Rightarrow> TubeName list \<Rightarrow> (localJSM \<times> Reservation option) option" where
  "try_tubes s nowSecs cli [] = Some (s, None)"
| "try_tubes s nowSecs cli (t # ts) =
     (case tryReserveJob s nowSecs t (Some cli) of
        None \<Rightarrow> None
      | Some (s, Inl err) \<Rightarrow> if err = ErrNoReservationFound then try_tubes s nowSecs cli ts else None
      | Some (s, Inr resv) \<Rightarrow>
          Some (tally (\<lambda>c. c\<lparr>nResv := wrap64 (nResv c + 1),
                            nResvOnDemand := wrap64 (nResvOnDemand c + 1)\<rparr>) s, Some resv))"

text \<open>The entry of the client: a new one, or the one it has, unless it is waiting already.\<close>

definition resv_client ::
    "localJSM \<Rightarrow> ClientID \<Rightarrow> string \<Rightarrow> TubeName list \<Rightarrow> int64 \<Rightarrow> ref jsm_result" where
  "resv_client s clientId reqID watchedTubes resvDeadlineAt =
     (case clientResvQueue_Find (clients s) clientId of
        Inl err \<Rightarrow>
          if err = ErrEntryMissing
          then (let (m, cli) = new_client (jsm_mem s) \<lparr>CliID = clientId,
                      WatchedTubes = watchedTubes, ResvDeadlineAt = resvDeadlineAt,
                      IsWaitingForResv = True, TickAt = 0, ReqID = reqID, HeapIndex = -1\<rparr>;
                    s = s\<lparr>jsm_mem := m\<rparr>
                in case clientResvQueue_Enqueue m (clients s) cli of
                     (_, Some err) \<Rightarrow> Some (s, Inl err)
                   | (q, None) \<Rightarrow> Some (s\<lparr>clients := q\<rparr>, Inr cli))
          else Some (s, Inl err)
      | Inr cli \<Rightarrow>
          if IsWaitingForResv (cli_at s cli) then Some (s, Inl ErrClientIsWaitingForReservation)
          else Some (update_cli s cli (\<lambda>c. c\<lparr>ReqID := reqID, WatchedTubes := watchedTubes,
                       ResvDeadlineAt := resvDeadlineAt, IsWaitingForResv := True\<rparr>), Inr cli))"

definition AppendReservation ::
    "localJSM \<Rightarrow> ClientID \<Rightarrow> string \<Rightarrow> TubeName list \<Rightarrow> int64 \<Rightarrow> int64 \<Rightarrow> Reservation jsm_result" where
  "AppendReservation s clientId reqID watchedTubes nowSecs resvDeadlineAt =
     (let maxTimeLimit = wrap64 (nowSecs + maxTimeoutSecs)
      in if resvDeadlineAt < nowSecs \<or> resvDeadlineAt > maxTimeLimit then Some (s, Inl ErrInvalidResvTimeout)
         else
         (let s = tally (if resvDeadlineAt = maxTimeLimit
                         then (\<lambda>c. c\<lparr>nCmdReserved := nCmdReserved c + 1\<rparr>)
                         else (\<lambda>c. c\<lparr>nCmdReservedWithTimeout := nCmdReservedWithTimeout c + 1\<rparr>)) s
          in and_then (resv_client s clientId reqID watchedTubes resvDeadlineAt)
               (\<lambda>s cli.
                  case wait_on (jsm_mem s) (tubes s) cli (WatchedTubes (cli_at s cli)) of
                    None \<Rightarrow> None
                  | Some ti \<Rightarrow>
                      (case try_tubes (s\<lparr>tubes := ti\<rparr>) nowSecs cli (WatchedTubes (cli_at s cli)) of
                         None \<Rightarrow> None
                       | Some (s, Some resv) \<Rightarrow> Some (s, Inr resv)
                       | Some (s, None) \<Rightarrow>
                           (case updateClientTickAt s cli of
                              None \<Rightarrow> None
                            | Some s \<Rightarrow>
                                Some (s, Inr \<lparr>rv_RequestId = reqID, rv_ClientId = CliID (cli_at s cli),
                                  rv_JobId = 0, rv_Status = Queued, rv_BodySize = 0, rv_Body = None,
                                  rv_Error = None\<rparr>))))))"

fun check_clients ::
    "localJSM \<Rightarrow> ClientID list \<Rightarrow> ClientID list \<times> ClientID list \<times> ClientID list \<Rightarrow>
     error + ClientID list \<times> ClientID list \<times> ClientID list" where
  "check_clients s [] acc = Inr acc"
| "check_clients s (i # ids) (waitingIds, notWaitingIds, missingIds) =
     (case clientResvQueue_Find (clients s) i of
        Inl err \<Rightarrow>
          if err = ErrEntryMissing
          then check_clients s ids (waitingIds, notWaitingIds, missingIds @ [i]) else Inl err
      | Inr cli \<Rightarrow>
          if IsWaitingForResv (cli_at s cli)
          then check_clients s ids (waitingIds @ [i], notWaitingIds, missingIds)
          else check_clients s ids (waitingIds, notWaitingIds @ [i], missingIds))"

definition CheckClientState ::
    "localJSM \<Rightarrow> ClientID list \<Rightarrow> error + ClientID list \<times> ClientID list \<times> ClientID list" where
  "CheckClientState s clientIDs = check_clients s clientIDs ([], [], [])"

section \<open>The clock\<close>

text \<open>
  The inner loop of \<^verbatim>\<open>tickDelayJobs\<close> for one tube; \<open>n\<close> is the earliest ready time seen
  among the jobs that stay delayed. Not returning is the value \<open>None\<close>, as a panic is.
\<close>

partial_function (option) tickDelay_tube ::
    "int64 \<Rightarrow> TubeName \<Rightarrow> localJSM \<Rightarrow> int64 \<Rightarrow> (localJSM \<times> int64) option" where
  "tickDelay_tube now t s n =
     (case PeekDelayedJob s t of
        (s, Inl err) \<Rightarrow> if err = ErrEntryMissing then Some (s, n) else None
      | (s, Inr job) \<Rightarrow>
          (let j = job_of (jsm_mem s) job
           in if ReadyAt j \<ge> now then Some (s, if ReadyAt j < n then ReadyAt j else n)
              else (case jsm_Ready s (ID j) of
                      None \<Rightarrow> None
                    | Some (s, Inl err) \<Rightarrow> None
                    | Some (s, Inr _) \<Rightarrow> tickDelay_tube now t s n)))"

text \<open>The loop over the tubes in the order \<open>ord\<close> in which the map is iterated.\<close>

fun tickDelay_tubes ::
    "int64 \<Rightarrow> TubeName list \<Rightarrow> localJSM \<Rightarrow> int64 \<Rightarrow> (localJSM \<times> int64) option" where
  "tickDelay_tubes now [] s n = Some (s, n)"
| "tickDelay_tubes now (t # ord) s n =
     (case tickDelay_tube now t s n of
        None \<Rightarrow> None
      | Some (s, n) \<Rightarrow> tickDelay_tubes now ord s n)"

definition tickDelayJobs :: "localJSM \<Rightarrow> int64 \<Rightarrow> TubeName list \<Rightarrow> localJSM option" where
  "tickDelayJobs s now ord =
     (case tickDelay_tubes now ord s maxTime of
        None \<Rightarrow> None
      | Some (s, n) \<Rightarrow> Some (s\<lparr>nextDelayTickAt := n\<rparr>))"

partial_function (option) tickReady_tube ::
    "int64 \<Rightarrow> TubeName \<Rightarrow> localJSM \<Rightarrow> Reservation list \<Rightarrow> (localJSM \<times> Reservation list) option" where
  "tickReady_tube now t s result =
     (case tryReserveJob s now t None of
        None \<Rightarrow> None
      | Some (s, Inl err) \<Rightarrow> if err = ErrNoReservationFound then Some (s, result) else None
      | Some (s, Inr r) \<Rightarrow>
          tickReady_tube now t
            (tally (\<lambda>c. c\<lparr>nResv := wrap64 (nResv c + 1), nResvOnTick := wrap64 (nResvOnTick c + 1)\<rparr>) s)
            (result @ [r]))"

fun tickReadyJobs ::
    "int64 \<Rightarrow> TubeName list \<Rightarrow> localJSM \<Rightarrow> Reservation list \<Rightarrow> (localJSM \<times> Reservation list) option" where
  "tickReadyJobs now [] s result = Some (s, result)"
| "tickReadyJobs now (t # ord) s result =
     (case tickReady_tube now t s result of
        None \<Rightarrow> None
      | Some (s, result) \<Rightarrow> tickReadyJobs now ord s result)"

text \<open>A reservation without a job: the answer to a client that stops waiting.\<close>

definition no_job_reservation :: "localJSM \<Rightarrow> ref \<Rightarrow> ReservationStatus \<Rightarrow> Reservation" where
  "no_job_reservation s cli status =
     \<lparr>rv_RequestId = ReqID (cli_at s cli), rv_ClientId = CliID (cli_at s cli), rv_JobId = 0,
      rv_Status = status, rv_BodySize = 0, rv_Body = None, rv_Error = None\<rparr>"

text \<open>The inner loop of \<^verbatim>\<open>tickClients\<close>: release what has expired, report what is about to.\<close>

partial_function (option) tickClient_jobs ::
    "int64 \<Rightarrow> ref \<Rightarrow> localJSM \<Rightarrow> Reservation list \<Rightarrow> (localJSM \<times> Reservation list) option" where
  "tickClient_jobs now cli s result =
     (case jsm_NextReservedJob s (CliID (cli_at s cli)) of
        Inl err \<Rightarrow> if err = ErrEntryMissing then Some (s, result) else None
      | Inr job \<Rightarrow>
          (let lowest = ExpiresAt (job_of (jsm_mem s) job)
           in if now > lowest
              then (case Release s (ID (job_of (jsm_mem s) job)) (CliID (cli_at s cli)) of
                      None \<Rightarrow> None
                    | Some (s, Inl err) \<Rightarrow> None
                    | Some (s, Inr _) \<Rightarrow> tickClient_jobs now cli s result)
              else if now > wrap64 (lowest - 1) \<and> IsWaitingForResv (cli_at s cli)
              then (let resv = no_job_reservation s cli DeadlineSoon
                    in case unReserve s cli of
                         None \<Rightarrow> None
                       | Some s \<Rightarrow> tickClient_jobs now cli s (result @ [resv]))
              else Some (s, result)))"

definition tickClient_timeout ::
    "int64 \<Rightarrow> ref \<Rightarrow> localJSM \<Rightarrow> Reservation list \<Rightarrow> (localJSM \<times> Reservation list) option" where
  "tickClient_timeout now cli s result =
     (if IsWaitingForResv (cli_at s cli) \<and> now > ResvDeadlineAt (cli_at s cli)
      then (let resv = no_job_reservation s cli Timeout
            in case unReserve s cli of None \<Rightarrow> None | Some s \<Rightarrow> Some (s, result @ [resv]))
      else Some (s, result))"

definition tickClient ::
    "int64 \<Rightarrow> ref \<Rightarrow> localJSM \<Rightarrow> Reservation list \<Rightarrow> (localJSM \<times> Reservation list) option" where
  "tickClient now cli s result =
     (case tickClient_timeout now cli s result of
        None \<Rightarrow> None
      | Some (s, result) \<Rightarrow>
          (case tickClient_jobs now cli s result of
             None \<Rightarrow> None
           | Some (s, result) \<Rightarrow>
               (case updateClientTickAt s cli of
                  None \<Rightarrow> None
                | Some s \<Rightarrow> Some (s, result))))"

partial_function (option) tickClients ::
    "int64 \<Rightarrow> localJSM \<Rightarrow> Reservation list \<Rightarrow> (localJSM \<times> Reservation list) option" where
  "tickClients now s result =
     (case clientResvHeap_Peek (jsm_mem s, clientHeap s) of
        None \<Rightarrow> Some (s, result)
      | Some first \<Rightarrow>
          if now \<le> TickAt (cli_at s first) then Some (s, result)
          else (case clientResvHeap_Dequeue (jsm_mem s, clientHeap s) of
                  None \<Rightarrow> None
                | Some ((m, h), cli) \<Rightarrow>
                    (case tickClient now cli (s\<lparr>jsm_mem := m, clientHeap := h\<rparr>) result of
                       None \<Rightarrow> None
                     | Some (s, result) \<Rightarrow> tickClients now s result)))"

declare tickDelay_tube.simps [code] tickReady_tube.simps [code]
  tickClient_jobs.simps [code] tickClients.simps [code]

text \<open>\<open>ord\<close> and \<open>ord'\<close>: the orders in which the two loops over the tubes iterate the map.\<close>

definition Tick :: "localJSM \<Rightarrow> int64 \<Rightarrow> TubeName list \<Rightarrow> TubeName list \<Rightarrow> Reservation list jsm_result" where
  "Tick s nowSecs ord ord' =
     (case (if nowSecs > nextDelayTickAt s
            then tickDelayJobs (s\<lparr>nextDelayTickAt := maxTime\<rparr>) nowSecs ord else Some s) of
        None \<Rightarrow> None
      | Some s \<Rightarrow>
          (case tickReadyJobs nowSecs ord' s [] of
             None \<Rightarrow> None
           | Some (s, res) \<Rightarrow>
               (case tickClients nowSecs s [] of
                  None \<Rightarrow> None
                | Some (s, r) \<Rightarrow> Some (s, Inr (res @ r)))))"

end
