(* ===== verification/JSM_Jobs.thy ===== *)
theory JSM_Jobs
  imports JSM
begin

text \<open>
  The commands on jobs keep the invariant of the index and the heaps, never panic, leave the
  clients alone, and do to the table of jobs what an abstract specification says. In the
  specification there are no heaps, no references and no tubes: a state is a finite map from
  ids to jobs.
\<close>

section \<open>The table of jobs\<close>

type_synonym job_table = "JobID \<rightharpoonup> localJob"

definition job_views :: "localJSM \<Rightarrow> job_table" where
  "job_views s = (\<lambda>i. map_option (\<lambda>ie. view (job_at s (ie_job ie))) (mget (ji_m (jobs s)) i))"

abbreviation heaps :: "localJSM \<Rightarrow> loc \<Rightarrow> jobHeap" where
  "heaps s \<equiv> heap_at (tubes s) (reservedJobs s)"

definition jobs_inv :: "localJSM \<Rightarrow> JobID set \<Rightarrow> bool" where
  "jobs_inv s X \<longleftrightarrow>
     jinv (jsm_mem s) (ji_m (jobs s)) (heaps s) X \<and> waits_wf (jsm_mem s) (tubes s)"

text \<open>What the commands on jobs leave alone.\<close>

definition same_clients :: "localJSM \<Rightarrow> localJSM \<Rightarrow> bool" where
  "same_clients s s' \<longleftrightarrow>
     m_clients (jsm_mem s') = m_clients (jsm_mem s) \<and> clients s' = clients s \<and>
     clientHeap s' = clientHeap s \<and> waiters (tubes s') = waiters (tubes s) \<and>
     m_next (jsm_mem s) \<le> m_next (jsm_mem s')"

definition same_rest :: "localJSM \<Rightarrow> localJSM \<Rightarrow> bool" where
  "same_rest s s' \<longleftrightarrow>
     same_clients s s' \<and> nextDelayTickAt s' = nextDelayTickAt s \<and> maxJobID s' = maxJobID s \<and>
     stat s' = stat s \<and>
     (\<forall>e < m_next (jsm_mem s). je_Job (m_entries (jsm_mem s') e) = je_Job (m_entries (jsm_mem s) e))"

lemma same_clients_refl [simp]: "same_clients s s"
  by (simp add: same_clients_def)

lemma same_clients_trans: "same_clients s t \<Longrightarrow> same_clients t u \<Longrightarrow> same_clients s u"
  by (auto simp: same_clients_def)

lemma same_rest_trans:
  assumes "same_rest s t" and "same_rest t u"
  shows "same_rest s u"
proof -
  have "e < m_next (jsm_mem t)" if "e < m_next (jsm_mem s)" for e
    using that assms(1) by (simp add: same_rest_def same_clients_def)
  then show ?thesis using assms by (auto simp: same_rest_def intro: same_clients_trans)
qed

lemma waits_wf_cong: "m_clients m' = m_clients m \<Longrightarrow> waits_wf m' ti = waits_wf m ti"
  by (simp add: waits_wf_def q_wf_def)

lemma jobs_inv_tally [simp]: "jobs_inv (tally f s) X = jobs_inv s X"
  by (simp add: jobs_inv_def tally_def)

lemma job_views_tally [simp]: "job_views (tally f s) = job_views s"
  by (simp add: job_views_def tally_def)

lemma same_clients_tally [simp]: "same_clients (tally f s) s' = same_clients s s'"
    "same_clients s (tally f s') = same_clients s s'"
  by (simp_all add: same_clients_def tally_def)

lemma jobs_inv_nextDelayTickAt [simp]: "jobs_inv (s\<lparr>nextDelayTickAt := n\<rparr>) X = jobs_inv s X"
  by (simp add: jobs_inv_def)

lemma job_views_nextDelayTickAt [simp]: "job_views (s\<lparr>nextDelayTickAt := n\<rparr>) = job_views s"
  by (simp add: job_views_def)

lemma tally_sel [simp]:
  "jsm_mem (tally f s) = jsm_mem s" "tubes (tally f s) = tubes s" "jobs (tally f s) = jobs s"
  "clients (tally f s) = clients s" "clientHeap (tally f s) = clientHeap s"
  "reservedJobs (tally f s) = reservedJobs s" "nextDelayTickAt (tally f s) = nextDelayTickAt s"
  "maxJobID (tally f s) = maxJobID s"
  by (simp_all add: tally_def)

section \<open>Taking a job out of its place\<close>

text \<open>\<open>taken i s s'\<close>: the job \<open>i\<close> is in transit, nothing else happened.\<close>

definition taken :: "JobID \<Rightarrow> localJSM \<Rightarrow> localJSM \<Rightarrow> bool" where
  "taken i s s' \<longleftrightarrow>
     jobs_inv s' {i} \<and> jobs s' = jobs s \<and> m_jobs (jsm_mem s') = m_jobs (jsm_mem s) \<and> same_rest s s' \<and>
     (\<forall>l. set (entries (heaps s' l)) \<subseteq> set (entries (heaps s l)))"

lemma loc_of_ready: "State j = Ready \<Longrightarrow> loc_of (view j) = Some (LReady (TubeName j))"
  and loc_of_delayed: "State j = Delayed \<Longrightarrow> loc_of (view j) = Some (LDelayed (TubeName j))"
  and loc_of_buried: "State j = Buried \<Longrightarrow> loc_of (view j) = Some (LBuried (TubeName j))"
  and loc_of_reserved: "State j = Reserved \<Longrightarrow> loc_of (view j) = Some (LReserved (ReservedBy j))"
  by (simp_all add: loc_of_def getter_view)

lemma jobs_inv_entry:
  assumes inv: "jobs_inv s {}" and e: "mget (ji_m (jobs s)) i = Some e"
    and l: "loc_of (view (job_at s (ie_job e))) = Some l"
  obtains je where "ie_entry e = Some je" and "je \<in> set (entries (heaps s l))"
    and "job_of (jsm_mem s) je = job_at s (ie_job e)" and "je_Job (m_entries (jsm_mem s) je) = ie_job e"
    and "jh_wf (jsm_mem s, heaps s l)"
proof -
  have j: "jinv (jsm_mem s) (ji_m (jobs s)) (heaps s) {}" using inv by (simp add: jobs_inv_def)
  obtain je where "ie_entry e = Some je" "je_Job (m_entries (jsm_mem s) je) = ie_job e"
      "je \<in> set (entries (heaps s l))"
    using jinv_index(3) [OF j e] l by auto
  then show ?thesis using jinv_wf [OF j] by (intro that) (auto simp: job_of_def)
qed

lemma taken_tubes:
  assumes inv: "jobs_inv s {}" and e: "mget (ji_m (jobs s)) i = Some e"
    and l: "loc_of (view (job_at s (ie_job e))) = Some l" and je: "ie_entry e = Some je"
    and rem: "jh_removed (jsm_mem s, heaps s l) je (m', h')" and upd: "tubes_upd (tubes s) ti' l h'"
  shows "taken i s (s\<lparr>jsm_mem := m', tubes := ti'\<rparr>)"
proof -
  have j: "jinv (jsm_mem s) (ji_m (jobs s)) (heaps s) {}" using inv by (simp add: jobs_inv_def)
  have same: "same_but_index (set (entries (heaps s l))) (jsm_mem s) m'"
    using jh_removed_facts(3) [OF rem] .
  have "jinv m' (ji_m (jobs s)) ((heaps s)(l := h')) {i}"
    using jinv_remove [OF j e _ je l rem] by simp
  moreover have "waits_wf m' ti'"
    using inv upd waits_wf_cong [of m' "jsm_mem s"] same_but_index_facts(2) [OF same]
    by (simp add: jobs_inv_def tubes_upd_def)
  moreover have "set (entries h') \<subseteq> set (entries (heaps s l))" using jh_removed_facts(1) [OF rem] by auto
  ultimately show ?thesis
    using upd same_but_index_facts [OF same]
    by (simp add: taken_def jobs_inv_def tubes_upd_def same_rest_def same_clients_def)
qed

lemma taken_reserved:
  assumes inv: "jobs_inv s {}" and e: "mget (ji_m (jobs s)) i = Some e"
    and l: "loc_of (view (job_at s (ie_job e))) = Some l" and je: "ie_entry e = Some je"
    and rem: "jh_removed (jsm_mem s, heaps s l) je (m', h')"
    and upd: "\<forall>ti. heap_at ti ri' = (heap_at ti (reservedJobs s))(l := h')"
  shows "taken i s (s\<lparr>jsm_mem := m', reservedJobs := ri'\<rparr>)"
proof -
  have j: "jinv (jsm_mem s) (ji_m (jobs s)) (heaps s) {}" using inv by (simp add: jobs_inv_def)
  have same: "same_but_index (set (entries (heaps s l))) (jsm_mem s) m'"
    using jh_removed_facts(3) [OF rem] .
  have "jinv m' (ji_m (jobs s)) ((heaps s)(l := h')) {i}"
    using jinv_remove [OF j e _ je l rem] by simp
  moreover have "waits_wf m' (tubes s)"
    using inv waits_wf_cong [of m' "jsm_mem s"] same_but_index_facts(2) [OF same]
    by (simp add: jobs_inv_def)
  moreover have "set (entries h') \<subseteq> set (entries (heaps s l))" using jh_removed_facts(1) [OF rem] by auto
  ultimately show ?thesis
    using upd same_but_index_facts [OF same]
    by (simp add: taken_def jobs_inv_def same_rest_def same_clients_def)
qed

lemma take_ready:
  assumes inv: "jobs_inv s {}" and e: "mget (ji_m (jobs s)) i = Some e"
    and st: "State (job_at s (ie_job e)) = Ready"
  shows "\<exists>je s'. ie_entry e = Some je \<and> on_tubes (\<lambda>ts. RemoveReadyJob ts je) s = Some (s', Inr je) \<and>
           taken i s s' \<and> dom (mget (tubes s')) = dom (mget (tubes s)) \<and> reservedJobs s' = reservedJobs s"
proof -
  note l = loc_of_ready [OF st]
  obtain je where je: "ie_entry e = Some je" "je \<in> set (entries (heaps s (LReady (TubeName (job_at s (ie_job e))))))"
      "job_of (jsm_mem s) je = job_at s (ie_job e)"
      "jh_wf (jsm_mem s, heaps s (LReady (TubeName (job_at s (ie_job e)))))"
    using jobs_inv_entry [OF inv e l] by metis
  obtain m' ti' h' where r: "RemoveReadyJob (jsm_mem s, tubes s) je = Some ((m', ti'), Inr je)"
      "jh_removed (jsm_mem s, heaps s (LReady (TubeName (job_at s (ie_job e))))) je (m', h')"
      "tubes_upd (tubes s) ti' (LReady (TubeName (job_at s (ie_job e)))) h'" "dom (mget ti') = dom (mget (tubes s))"
    using RemoveReadyJob_at [OF je(4,2)] je(3) by auto
  then show ?thesis
    using taken_tubes [OF inv e l je(1) r(2,3)] je(1) by (auto simp: on_tubes_def)
qed

lemma take_buried:
  assumes inv: "jobs_inv s {}" and e: "mget (ji_m (jobs s)) i = Some e"
    and st: "State (job_at s (ie_job e)) = Buried"
  shows "\<exists>je s'. ie_entry e = Some je \<and> on_tubes (\<lambda>ts. RemoveBuriedJob ts je) s = Some (s', Inr je) \<and>
           taken i s s' \<and> reservedJobs s' = reservedJobs s"
proof -
  note l = loc_of_buried [OF st]
  obtain je where je: "ie_entry e = Some je" "je \<in> set (entries (heaps s (LBuried (TubeName (job_at s (ie_job e))))))"
      "job_of (jsm_mem s) je = job_at s (ie_job e)"
      "jh_wf (jsm_mem s, heaps s (LBuried (TubeName (job_at s (ie_job e)))))"
    using jobs_inv_entry [OF inv e l] by metis
  obtain m' ti' h' where r: "RemoveBuriedJob (jsm_mem s, tubes s) je = Some ((m', ti'), Inr je)"
      "jh_removed (jsm_mem s, heaps s (LBuried (TubeName (job_at s (ie_job e))))) je (m', h')"
      "tubes_upd (tubes s) ti' (LBuried (TubeName (job_at s (ie_job e)))) h'"
    using RemoveBuriedJob_at [OF je(4,2)] je(3) by auto
  then show ?thesis
    using taken_tubes [OF inv e l je(1) r(2,3)] je(1) by (auto simp: on_tubes_def)
qed

lemma take_delayed:
  assumes inv: "jobs_inv s {}" and e: "mget (ji_m (jobs s)) i = Some e"
    and st: "State (job_at s (ie_job e)) = Delayed"
  shows "\<exists>je s'. ie_entry e = Some je \<and> on_tubes (\<lambda>ts. RemoveDelayedJob ts je) s = Some (s', Inr je) \<and>
           taken i s s' \<and> reservedJobs s' = reservedJobs s \<and>
           insert (TubeName (job_at s (ie_job e))) (dom (mget (tubes s'))) = dom (mget (tubes s))"
proof -
  note l = loc_of_delayed [OF st]
  obtain je where je: "ie_entry e = Some je" "je \<in> set (entries (heaps s (LDelayed (TubeName (job_at s (ie_job e))))))"
      "job_of (jsm_mem s) je = job_at s (ie_job e)"
      "jh_wf (jsm_mem s, heaps s (LDelayed (TubeName (job_at s (ie_job e)))))"
    using jobs_inv_entry [OF inv e l] by metis
  have "waits_wf (jsm_mem s) (tubes s)" "ordered_right (heaps s)"
    using inv jinv_ordered_right by (auto simp: jobs_inv_def)
  then obtain m' ti' h' where r: "RemoveDelayedJob (jsm_mem s, tubes s) je = Some ((m', ti'), Inr je)"
      "jh_removed (jsm_mem s, heaps s (LDelayed (TubeName (job_at s (ie_job e))))) je (m', h')"
      "tubes_upd (tubes s) ti' (LDelayed (TubeName (job_at s (ie_job e)))) h'"
      "insert (TubeName (job_at s (ie_job e))) (dom (mget ti')) = dom (mget (tubes s))"
    using RemoveDelayedJob_at [OF je(4,2)] je(3) by auto
  then show ?thesis
    using taken_tubes [OF inv e l je(1) r(2,3)] je(1) by (auto simp: on_tubes_def)
qed

lemma take_reserved:
  assumes inv: "jobs_inv s {}" and e: "mget (ji_m (jobs s)) i = Some e"
    and st: "State (job_at s (ie_job e)) = Reserved"
  shows "\<exists>je s'. ie_entry e = Some je \<and>
           on_reserved (\<lambda>rs. reservedJobsIndex_Remove rs je) s = Some (s', Inr (ie_job e)) \<and>
           taken i s s' \<and> tubes s' = tubes s"
proof -
  note l = loc_of_reserved [OF st]
  obtain je where je: "ie_entry e = Some je" "je \<in> set (entries (heaps s (LReserved (ReservedBy (job_at s (ie_job e))))))"
      "job_of (jsm_mem s) je = job_at s (ie_job e)"
      "jh_wf (jsm_mem s, heaps s (LReserved (ReservedBy (job_at s (ie_job e)))))"
      "je_Job (m_entries (jsm_mem s) je) = ie_job e"
    using jobs_inv_entry [OF inv e l] by metis
  have "ordered_right (heaps s)" using inv jinv_ordered_right by (auto simp: jobs_inv_def)
  then obtain m' ri' h' where r:
      "reservedJobsIndex_Remove (jsm_mem s, reservedJobs s) je = Some ((m', ri'), Inr (ie_job e))"
      "jh_removed (jsm_mem s, heaps s (LReserved (ReservedBy (job_at s (ie_job e))))) je (m', h')"
      "\<forall>ti. heap_at ti ri' = (heap_at ti (reservedJobs s))(LReserved (ReservedBy (job_at s (ie_job e))) := h')"
    using reserved_Remove_at [OF je(4,2)] je(3,5) by auto
  then show ?thesis
    using taken_reserved [OF inv e l je(1) r(2,3)] je(1) by (auto simp: on_reserved_def)
qed

section \<open>Updating a job in transit and putting it into its next place\<close>

lemma update_job_sel [simp]:
  "jobs (update_job s r f) = jobs s" "tubes (update_job s r f) = tubes s"
  "reservedJobs (update_job s r f) = reservedJobs s" "clients (update_job s r f) = clients s"
  "clientHeap (update_job s r f) = clientHeap s" "nextDelayTickAt (update_job s r f) = nextDelayTickAt s"
  "maxJobID (update_job s r f) = maxJobID s" "stat (update_job s r f) = stat s"
  "m_clients (jsm_mem (update_job s r f)) = m_clients (jsm_mem s)"
  "m_entries (jsm_mem (update_job s r f)) = m_entries (jsm_mem s)"
  "m_next (jsm_mem (update_job s r f)) = m_next (jsm_mem s)"
  "m_jobs (jsm_mem (update_job s r f)) = (m_jobs (jsm_mem s))(r := f (job_at s r))"
  by (simp_all add: update_job_def upd_job_def)

lemma update_job_comp: "update_job (update_job s r f) r g = update_job s r (g \<circ> f)"
  by (simp add: update_job_def upd_job_def)

lemma same_rest_update_job [simp]: "same_rest s (update_job s' r f) = same_rest s s'"
  by (simp add: same_rest_def same_clients_def)

lemma jobs_inv_update:
  assumes "jobs_inv s {i}" and "mget (ji_m (jobs s)) i = Some e"
    and "ID (f (job_at s (ie_job e))) = ID (job_at s (ie_job e))"
  shows "jobs_inv (update_job s (ie_job e) f) {i}"
proof -
  have j: "jinv (jsm_mem s) (ji_m (jobs s)) (heaps s) {i}" using assms(1) by (simp add: jobs_inv_def)
  have "ID (job_at s (ie_job e)) = i" using jinv_index(1) [OF j assms(2)] .
  then have "jinv (upd_job (jsm_mem s) (ie_job e) f) (ji_m (jobs s)) (heaps s) {i}"
    using jinv_modify [OF j assms(2)] assms(3) by simp
  then show ?thesis
    using assms(1) waits_wf_cong [of "upd_job (jsm_mem s) (ie_job e) f" "jsm_mem s" "tubes s"]
    by (simp add: jobs_inv_def update_job_def upd_job_def)
qed

text \<open>\<open>placed i e s s'\<close>: the job in transit has arrived.\<close>

definition placed :: "JobID \<Rightarrow> IndexEntry \<Rightarrow> localJSM \<Rightarrow> localJSM \<Rightarrow> bool" where
  "placed i e s s' \<longleftrightarrow>
     jobs_inv s' {} \<and>
     (\<exists>je. ji_m (jobs s') = mput (ji_m (jobs s)) i (e\<lparr>ie_entry := Some je\<rparr>) \<and>
        je_Job (m_entries (jsm_mem s') je) = ie_job e \<and>
        (\<forall>l. set (entries (heaps s' l)) \<subseteq> insert je (set (entries (heaps s l))))) \<and>
     m_jobs (jsm_mem s') = m_jobs (jsm_mem s) \<and> same_rest s s'"

lemma placedI:
  "ji_m (jobs s') = mput (ji_m (jobs s)) i (e\<lparr>ie_entry := Some je\<rparr>) \<Longrightarrow>
   je_Job (m_entries (jsm_mem s') je) = ie_job e \<Longrightarrow>
   (\<And>l. set (entries (heaps s' l)) \<subseteq> insert je (set (entries (heaps s l)))) \<Longrightarrow>
   jobs_inv s' {} \<Longrightarrow> m_jobs (jsm_mem s') = m_jobs (jsm_mem s) \<Longrightarrow> same_rest s s' \<Longrightarrow> placed i e s s'"
  by (auto simp: placed_def)

lemma placed_tubes:
  assumes inv: "jobs_inv s {i}" and e: "mget (ji_m (jobs s)) i = Some e"
    and l: "loc_of (view (job_at s (ie_job e))) = Some l"
    and ins: "jh_inserted (jsm_mem s, heaps s l) (ie_job e) je (m', h')"
    and upd: "tubes_upd (tubes s) ti' l h'"
  shows "placed i e s (set_entry (s\<lparr>jsm_mem := m', tubes := ti'\<rparr>) i e je)"
proof -
  have j: "jinv (jsm_mem s) (ji_m (jobs s)) (heaps s) {i}" using inv by (simp add: jobs_inv_def)
  have m': "m_jobs m' = m_jobs (jsm_mem s)" "m_clients m' = m_clients (jsm_mem s)"
      "m_next (jsm_mem s) \<le> m_next m'"
      "\<forall>x < m_next (jsm_mem s). je_Job (m_entries m' x) = je_Job (m_entries (jsm_mem s) x)"
    using ins by (auto simp: jh_inserted_def)
  have "jinv m' (mput (ji_m (jobs s)) i (e\<lparr>ie_entry := Some je\<rparr>)) ((heaps s)(l := h')) {}"
    using jinv_insert [OF j e _ l ins] by simp
  moreover have "waits_wf m' ti'"
    using inv upd waits_wf_cong [OF m'(2)] by (simp add: jobs_inv_def tubes_upd_def)
  moreover have "set (entries h') = insert je (set (entries (heaps s l)))" and "je_Job (m_entries m' je) = ie_job e"
    using ins set_mset_mset [of "entries h'"] by (auto simp: jh_inserted_def)
  ultimately show ?thesis
    using upd m'
    by (intro placedI [where je = je]) (auto simp: jobs_inv_def tubes_upd_def same_rest_def same_clients_def set_entry_def)
qed

lemma placed_reserved:
  assumes inv: "jobs_inv s {i}" and e: "mget (ji_m (jobs s)) i = Some e"
    and l: "loc_of (view (job_at s (ie_job e))) = Some l"
    and ins: "jh_inserted (jsm_mem s, heaps s l) (ie_job e) je (m', h')"
    and upd: "\<forall>ti. heap_at ti ri' = (heap_at ti (reservedJobs s))(l := h')"
  shows "placed i e s (set_entry (s\<lparr>jsm_mem := m', reservedJobs := ri'\<rparr>) i e je)"
proof -
  have j: "jinv (jsm_mem s) (ji_m (jobs s)) (heaps s) {i}" using inv by (simp add: jobs_inv_def)
  have m': "m_jobs m' = m_jobs (jsm_mem s)" "m_clients m' = m_clients (jsm_mem s)"
      "m_next (jsm_mem s) \<le> m_next m'"
      "\<forall>x < m_next (jsm_mem s). je_Job (m_entries m' x) = je_Job (m_entries (jsm_mem s) x)"
    using ins by (auto simp: jh_inserted_def)
  have "jinv m' (mput (ji_m (jobs s)) i (e\<lparr>ie_entry := Some je\<rparr>)) ((heaps s)(l := h')) {}"
    using jinv_insert [OF j e _ l ins] by simp
  moreover have "waits_wf m' (tubes s)"
    using inv waits_wf_cong [OF m'(2)] by (simp add: jobs_inv_def)
  moreover have "set (entries h') = insert je (set (entries (heaps s l)))" and "je_Job (m_entries m' je) = ie_job e"
    using ins set_mset_mset [of "entries h'"] by (auto simp: jh_inserted_def)
  ultimately show ?thesis
    using upd m'
    by (intro placedI [where je = je]) (auto simp: jobs_inv_def same_rest_def same_clients_def set_entry_def)
qed

lemma jobs_inv_enqueue:
  assumes inv: "jobs_inv s X" and "jobHeap_Enqueue (jsm_mem s, heaps s l) r = (t, je)"
  shows "jh_inserted (jsm_mem s, heaps s l) r je t"
proof (rule jobHeap_Enqueue_correct [OF assms(2)])
  show "m_next (jsm_mem s) \<notin> set (entries (heaps s l))"
    using jinv_entry(1) [of "jsm_mem s" "ji_m (jobs s)" "heaps s" X "m_next (jsm_mem s)" l] inv
    by (auto simp: jobs_inv_def)
qed

lemma set_entry_sel [simp]:
  "tubes (set_entry s i e je) = tubes s" "reservedJobs (set_entry s i e je) = reservedJobs s"
  "jsm_mem (set_entry s i e je) = jsm_mem s"
  by (simp_all add: set_entry_def)

lemma put_ready:
  assumes inv: "jobs_inv s {i}" and e: "mget (ji_m (jobs s)) i = Some e"
    and st: "State (job_at s (ie_job e)) = Ready"
  shows "\<exists>s'. enqueue_ready s i e = Some (s', Inr ()) \<and> placed i e s s' \<and> reservedJobs s' = reservedJobs s \<and>
           dom (mget (tubes s')) = insert (TubeName (job_at s (ie_job e))) (dom (mget (tubes s)))"
proof -
  note l = loc_of_ready [OF st]
  obtain m' h' je where enq: "jobHeap_Enqueue (jsm_mem s, heaps s (LReady (TubeName (job_at s (ie_job e)))))
      (ie_job e) = ((m', h'), je)" by (metis prod.exhaust)
  note ins = jobs_inv_enqueue [OF inv enq]
  obtain ti' where "EnqueueReadyJob (jsm_mem s, tubes s) (ie_job e) = ((m', ti'), Inr je)"
      "tubes_upd (tubes s) ti' (LReady (TubeName (job_at s (ie_job e)))) h'"
      "dom (mget ti') = insert (TubeName (job_at s (ie_job e))) (dom (mget (tubes s)))"
    using Enqueue_at(1) [OF refl enq] by blast
  then show ?thesis using placed_tubes [OF inv e l ins]
    by (auto simp: enqueue_ready_def on_tubes_def)
qed

lemma put_delayed:
  assumes inv: "jobs_inv s {i}" and e: "mget (ji_m (jobs s)) i = Some e"
    and st: "State (job_at s (ie_job e)) = Delayed"
  shows "\<exists>s'. enqueue_delayed s i e = Some (s', Inr ()) \<and> placed i e s s' \<and> reservedJobs s' = reservedJobs s"
proof -
  note l = loc_of_delayed [OF st]
  obtain m' h' je where enq: "jobHeap_Enqueue (jsm_mem s, heaps s (LDelayed (TubeName (job_at s (ie_job e)))))
      (ie_job e) = ((m', h'), je)" by (metis prod.exhaust)
  note ins = jobs_inv_enqueue [OF inv enq]
  obtain ti' where "EnqueueDelayedJob (jsm_mem s, tubes s) (ie_job e) = ((m', ti'), Inr je)"
      "tubes_upd (tubes s) ti' (LDelayed (TubeName (job_at s (ie_job e)))) h'"
    using Enqueue_at(2) [OF refl enq] by blast
  then show ?thesis using placed_tubes [OF inv e l ins]
    by (auto simp: enqueue_delayed_def on_tubes_def)
qed

lemma put_buried:
  assumes inv: "jobs_inv s {i}" and e: "mget (ji_m (jobs s)) i = Some e"
    and st: "State (job_at s (ie_job e)) = Buried"
  shows "\<exists>s'. enqueue_buried s i e = Some (s', Inr ()) \<and> placed i e s s' \<and> reservedJobs s' = reservedJobs s"
proof -
  note l = loc_of_buried [OF st]
  obtain m' h' je where enq: "jobHeap_Enqueue (jsm_mem s, heaps s (LBuried (TubeName (job_at s (ie_job e)))))
      (ie_job e) = ((m', h'), je)" by (metis prod.exhaust)
  note ins = jobs_inv_enqueue [OF inv enq]
  obtain ti' where "EnqueueBuriedJob (jsm_mem s, tubes s) (ie_job e) = ((m', ti'), Inr je)"
      "tubes_upd (tubes s) ti' (LBuried (TubeName (job_at s (ie_job e)))) h'"
    using Enqueue_at(3) [OF refl enq] by blast
  then show ?thesis using placed_tubes [OF inv e l ins]
    by (auto simp: enqueue_buried_def on_tubes_def)
qed

lemma put_reserved:
  assumes inv: "jobs_inv s {i}" and e: "mget (ji_m (jobs s)) i = Some e"
    and st: "State (job_at s (ie_job e)) = Reserved"
  shows "\<exists>s'. enqueue_reserved s (ReservedBy (job_at s (ie_job e))) i e = Some (s', Inr ()) \<and>
           placed i e s s' \<and> tubes s' = tubes s"
proof -
  note l = loc_of_reserved [OF st]
  obtain m' h' je where enq: "jobHeap_Enqueue (jsm_mem s, heaps s (LReserved (ReservedBy (job_at s (ie_job e)))))
      (ie_job e) = ((m', h'), je)" by (metis prod.exhaust)
  note ins = jobs_inv_enqueue [OF inv enq]
  obtain ri' where "reservedJobsIndex_Enqueue (jsm_mem s, reservedJobs s) (ReservedBy (job_at s (ie_job e)))
        (ie_job e) = ((m', ri'), Inr je)"
      "\<forall>ti. heap_at ti ri' = (heap_at ti (reservedJobs s))(LReserved (ReservedBy (job_at s (ie_job e))) := h')"
    using reserved_Enqueue_at [OF enq] by blast
  then show ?thesis using placed_reserved [OF inv e l ins]
    by (auto simp: enqueue_reserved_def on_reserved_def)
qed

text \<open>Taken, updated, placed: one entry of the table has changed.\<close>

lemma job_views_moved:
  assumes inv: "jobs_inv s {}" and e: "mget (ji_m (jobs s)) i = Some e" and t: "taken i s s1"
    and p: "placed i e (update_job s1 (ie_job e) f) s'"
  shows "job_views s' = (job_views s)(i \<mapsto> view (f (job_at s (ie_job e))))"
proof
  fix k
  have j: "jinv (jsm_mem s) (ji_m (jobs s)) (heaps s) {}" using inv by (simp add: jobs_inv_def)
  obtain je where ix: "ji_m (jobs s') = mput (ji_m (jobs s)) i (e\<lparr>ie_entry := Some je\<rparr>)"
    using p t by (auto simp: placed_def taken_def)
  have m: "m_jobs (jsm_mem s') = (m_jobs (jsm_mem s))(ie_job e := f (job_at s (ie_job e)))"
    using p t by (simp add: placed_def taken_def)
  show "job_views s' k = ((job_views s)(i \<mapsto> view (f (job_at s (ie_job e))))) k"
  proof (cases "k = i")
    case False
    then have "ie_job e' \<noteq> ie_job e" if "mget (ji_m (jobs s)) k = Some e'" for e'
      using jinv_index_inj [OF j e that] by auto
    then show ?thesis using False ix m by (cases "mget (ji_m (jobs s)) k") (auto simp: job_views_def)
  qed (use ix m in \<open>simp add: job_views_def\<close>)
qed

lemma taken_index: "taken i s s' \<Longrightarrow> jobs s' = jobs s \<and> m_jobs (jsm_mem s') = m_jobs (jsm_mem s) \<and> jobs_inv s' {i}"
  by (simp add: taken_def)

lemma moved_same_rest:
  "taken i s s1 \<Longrightarrow> placed i e (update_job s1 r f) s' \<Longrightarrow> same_rest s s'"
  unfolding taken_def placed_def using same_rest_trans same_rest_update_job
  by (metis (no_types, lifting) same_rest_def same_clients_def update_job_sel)

section \<open>The specification\<close>

text \<open>A command on one job: an error, or the job as it is afterwards.\<close>

definition on_job :: "job_table \<Rightarrow> JobID \<Rightarrow> (localJob \<Rightarrow> error + localJob) \<Rightarrow> error + job_table" where
  "on_job V i f =
     (case V i of
        None \<Rightarrow> Inl ErrEntryMissing
      | Some j \<Rightarrow> (case f j of Inl err \<Rightarrow> Inl err | Inr j' \<Rightarrow> Inr (V(i \<mapsto> j'))))"

definition holder_check :: "ClientID \<Rightarrow> localJob \<Rightarrow> error option" where
  "holder_check c j =
     (if state j \<noteq> Reserved then Some ErrInvalidJobTransition
      else if c \<noteq> [] \<and> reservedBy j \<noteq> c then Some ErrUnauthorizedOperation else None)"

definition spec_reserve :: "int64 \<Rightarrow> ClientID \<Rightarrow> localJob \<Rightarrow> error + localJob" where
  "spec_reserve now c j =
     (if state j \<noteq> Ready then Inl ErrInvalidJobTransition
      else Inr (j\<lparr>state := Reserved, reservedBy := c, expiresAt := wrap64 (now + ttr j),
                  reserveCount := reserveCount j + 1\<rparr>))"

definition spec_timeout :: "ClientID \<Rightarrow> localJob \<Rightarrow> error + localJob" where
  "spec_timeout c j =
     (case holder_check c j of
        Some err \<Rightarrow> Inl err
      | None \<Rightarrow> Inr (j\<lparr>state := Ready, reservedBy := [], timeoutCount := timeoutCount j + 1\<rparr>))"

definition spec_release :: "int64 \<Rightarrow> ClientID \<Rightarrow> uint32 \<Rightarrow> int64 \<Rightarrow> localJob \<Rightarrow> error + localJob" where
  "spec_release now c pri dly j =
     (case holder_check c j of
        Some err \<Rightarrow> Inl err
      | None \<Rightarrow>
          (let j = j\<lparr>reservedBy := [], priority := pri, releaseCount := releaseCount j + 1\<rparr>
           in Inr (if dly = 0 then j\<lparr>state := Ready\<rparr>
                   else j\<lparr>state := Delayed, delay := dly, readyAt := wrap64 (now + dly)\<rparr>)))"

definition spec_bury :: "int64 \<Rightarrow> uint32 \<Rightarrow> ClientID \<Rightarrow> localJob \<Rightarrow> error + localJob" where
  "spec_bury now pri c j =
     (case holder_check c j of
        Some err \<Rightarrow> Inl err
      | None \<Rightarrow> Inr (j\<lparr>state := Buried, reservedBy := [], buriedAt := now, priority := pri,
                       buryCount := buryCount j + 1\<rparr>))"

definition spec_kick :: "localJob \<Rightarrow> error + localJob" where
  "spec_kick j =
     (if state j \<noteq> Buried then Inl ErrInvalidJobTransition
      else Inr (j\<lparr>state := Ready, buriedAt := 0, kickCount := kickCount j + 1\<rparr>))"

definition spec_delete :: "job_table \<Rightarrow> JobID \<Rightarrow> ClientID \<Rightarrow> error + job_table" where
  "spec_delete V i c =
     (case V i of
        None \<Rightarrow> Inl ErrEntryMissing
      | Some j \<Rightarrow>
          if state j = Reserved \<and> reservedBy j \<noteq> c then Inl ErrUnauthorizedOperation
          else Inr (V(i := None)))"

definition spec_new_job ::
    "JobID \<Rightarrow> int64 \<Rightarrow> uint32 \<Rightarrow> int64 \<Rightarrow> int64 \<Rightarrow> int64 \<Rightarrow> bytes \<Rightarrow> TubeName \<Rightarrow> localJob" where
  "spec_new_job i now pri dly ttrv sz bdy tube =
     \<lparr>job_id = i, priority = pri, delay = dly, ttr = ttrv, bodySize = sz, body = bdy,
      tubeName = tube, createdAt = now, readyAt = wrap64 (now + dly),
      state = (if dly > 0 then Delayed else Ready), expiresAt = 0, reservedBy = [], buriedAt = 0,
      reserveCount = 0, timeoutCount = 0, releaseCount = 0, buryCount = 0, kickCount = 0\<rparr>"

text \<open>
  The earliest time at which the clock has to look at the delayed jobs is not later than
  any of them is ready.
\<close>

definition delay_ok :: "localJSM \<Rightarrow> bool" where
  "delay_ok s \<longleftrightarrow>
     (\<forall>i j. job_views s i = Some j \<and> state j = Delayed \<longrightarrow> nextDelayTickAt s \<le> readyAt j)"

text \<open>The call returns, keeps the invariants and the clients, and does what is specified.\<close>

definition refines :: "localJSM \<Rightarrow> unit jsm_result \<Rightarrow> error + job_table \<Rightarrow> bool" where
  "refines s res spec \<longleftrightarrow>
     (\<exists>s' r. res = Some (s', r) \<and> jobs_inv s' {} \<and> same_clients s s' \<and>
        (delay_ok s \<longrightarrow> delay_ok s') \<and>
        (case spec of
           Inl err \<Rightarrow> r = Inl err \<and> job_views s' = job_views s
         | Inr V \<Rightarrow> r = Inr () \<and> job_views s' = V))"

section \<open>The transitions refine their specification\<close>

lemma refines_error:
  "jobs_inv s {} \<Longrightarrow> refines s (Some (s, Inl err)) (Inl err)"
  by (simp add: refines_def)

lemma delay_ok_tally [simp]: "delay_ok (tally f s) = delay_ok s"
  by (simp add: delay_ok_def)

lemma refines_tally: "refines (tally f s) res spec = refines s res spec"
  by (cases spec) (simp_all add: refines_def)

lemma job_views_eq:
  "job_views s i = (case mget (ji_m (jobs s)) i of None \<Rightarrow> None | Some e \<Rightarrow> Some (view (job_at s (ie_job e))))"
  by (simp add: job_views_def split: option.splits)

lemma get_entry_eq:
  "get_entry s i = Some (s, case mget (ji_m (jobs s)) i of None \<Rightarrow> Inl ErrEntryMissing | Some e \<Rightarrow> Inr e)"
  by (simp add: get_entry_def JobIndex_Get_def)

text \<open>The end of every successful transition that does not delay the job.\<close>

lemma refines_moved:
  assumes inv: "jobs_inv s {}" and e: "mget (ji_m (jobs s)) i = Some e" and t: "taken i s s1"
    and p: "placed i e (update_job s1 (ie_job e) f) s'"
    and spec: "g (view (job_at s (ie_job e))) = Inr (view (f (job_at s (ie_job e))))"
    and nd: "state (view (f (job_at s (ie_job e)))) \<noteq> Delayed"
  shows "refines s (Some (s', Inr ())) (on_job (job_views s) i g)"
proof -
  have v: "job_views s' = (job_views s)(i \<mapsto> view (f (job_at s (ie_job e))))"
    by (rule job_views_moved [OF inv e t p])
  have r: "same_rest s s'" by (rule moved_same_rest [OF t p])
  have "delay_ok s \<longrightarrow> delay_ok s'"
    using v nd r by (auto simp: delay_ok_def same_rest_def)
  then show ?thesis
    using v r p spec e
    by (simp add: refines_def on_job_def job_views_eq [of s] placed_def same_rest_def)
qed

lemma fromBuriedToReady_refines:
  assumes inv: "jobs_inv s {}"
  shows "refines s (fromBuriedToReady s i) (on_job (job_views s) i spec_kick)"
proof (cases "mget (ji_m (jobs s)) i")
  case None
  then show ?thesis using inv refines_error
    by (simp add: fromBuriedToReady_def get_entry_eq on_job_def job_views_eq)
next
  case (Some e)
  show ?thesis
  proof (cases "State (job_at s (ie_job e)) = Buried")
    case False
    then show ?thesis using inv Some refines_error
      by (simp add: fromBuriedToReady_def get_entry_eq on_job_def job_views_eq spec_kick_def getter_view)
  next
    case True
    let ?f = "IncKickCount \<circ> UpdateState Ready \<circ> ResetBuriedAt"
    obtain je s1 where t: "ie_entry e = Some je" "on_tubes (\<lambda>ts. RemoveBuriedJob ts je) s = Some (s1, Inr je)"
        "taken i s s1"
      using take_buried [OF inv Some True] by blast
    note t1 = taken_index [OF t(3)]
    have "jobs_inv (update_job s1 (ie_job e) ?f) {i}"
      by (rule jobs_inv_update) (use t1 Some in \<open>simp_all add: job_simps\<close>)
    then obtain s' where p: "enqueue_ready (update_job s1 (ie_job e) ?f) i e = Some (s', Inr ())"
        "placed i e (update_job s1 (ie_job e) ?f) s'"
      using put_ready [of "update_job s1 (ie_job e) ?f" i e] t1 Some by (auto simp: job_simps)
    have "refines s (Some (s', Inr ())) (on_job (job_views s) i spec_kick)"
      by (rule refines_moved [OF inv Some t(3) p(2)])
        (use True in \<open>simp_all add: spec_kick_def job_simps\<close>)
    then show ?thesis using Some True t p
      by (simp add: fromBuriedToReady_def get_entry_eq)
  qed
qed

lemma fromReservedToBuried_refines:
  assumes inv: "jobs_inv s {}"
  shows "refines s (fromReservedToBuried s now i pri c) (on_job (job_views s) i (spec_bury now pri c))"
proof (cases "mget (ji_m (jobs s)) i")
  case None
  then show ?thesis using inv refines_error
    by (simp add: fromReservedToBuried_def get_entry_eq on_job_def job_views_eq)
next
  case (Some e)
  show ?thesis
  proof (cases "holder_check c (view (job_at s (ie_job e)))")
    case (Some err)
    then show ?thesis using inv \<open>mget (ji_m (jobs s)) i = Some e\<close> refines_error
      by (auto simp: fromReservedToBuried_def get_entry_eq on_job_def job_views_eq spec_bury_def holder_check_def
          unauthorized_def getter_view split: if_splits)
  next
    case None
    then have st: "State (job_at s (ie_job e)) = Reserved" "\<not> unauthorized (job_at s (ie_job e)) c"
      by (auto simp: holder_check_def unauthorized_def getter_view split: if_splits)
    let ?f = "IncBuryCount \<circ> UpdatePriority pri \<circ> UpdateState Buried \<circ> UpdateBuriedAt now \<circ> UpdateReservedBy []"
    obtain je s1 where t: "ie_entry e = Some je"
        "on_reserved (\<lambda>rs. reservedJobsIndex_Remove rs je) s = Some (s1, Inr (ie_job e))" "taken i s s1"
      using take_reserved [OF inv Some st(1)] by blast
    note t1 = taken_index [OF t(3)]
    have "jobs_inv (update_job s1 (ie_job e) ?f) {i}"
      by (rule jobs_inv_update) (use t1 Some in \<open>simp_all add: job_simps\<close>)
    then obtain s' where p: "enqueue_buried (update_job s1 (ie_job e) ?f) i e = Some (s', Inr ())"
        "placed i e (update_job s1 (ie_job e) ?f) s'"
      using put_buried [of "update_job s1 (ie_job e) ?f" i e] t1 Some by (auto simp: job_simps)
    have "refines s (Some (s', Inr ())) (on_job (job_views s) i (spec_bury now pri c))"
      by (rule refines_moved [OF inv Some t(3) p(2)])
        (use None st(1) in \<open>simp_all add: spec_bury_def job_simps\<close>)
    then show ?thesis using Some st t p
      by (simp add: fromReservedToBuried_def get_entry_eq update_job_comp)
  qed
qed

lemma fromReservedToReady_refines:
  assumes inv: "jobs_inv s {}"
  shows "refines s (fromReservedToReady s i c pri upd)
           (on_job (job_views s) i (if upd then spec_release now c pri 0 else spec_timeout c))"
proof (cases "mget (ji_m (jobs s)) i")
  case None
  then show ?thesis using inv refines_error
    by (simp add: fromReservedToReady_def get_entry_eq on_job_def job_views_eq)
next
  case (Some e)
  show ?thesis
  proof (cases "holder_check c (view (job_at s (ie_job e)))")
    case (Some err)
    then show ?thesis using inv \<open>mget (ji_m (jobs s)) i = Some e\<close> refines_error
      by (auto simp: fromReservedToReady_def get_entry_eq on_job_def job_views_eq spec_release_def
          spec_timeout_def holder_check_def unauthorized_def getter_view split: if_splits)
  next
    case None
    then have st: "State (job_at s (ie_job e)) = Reserved" "\<not> unauthorized (job_at s (ie_job e)) c"
      by (auto simp: holder_check_def unauthorized_def getter_view split: if_splits)
    let ?f = "UpdateReservedBy [] \<circ> UpdateState Ready \<circ>
      (if upd then UpdatePriority pri \<circ> IncReleaseCount else IncTimeoutCount)"
    obtain je s1 where t: "ie_entry e = Some je"
        "on_reserved (\<lambda>rs. reservedJobsIndex_Remove rs je) s = Some (s1, Inr (ie_job e))" "taken i s s1"
      using take_reserved [OF inv Some st(1)] by blast
    note t1 = taken_index [OF t(3)]
    have "jobs_inv (update_job s1 (ie_job e) ?f) {i}"
      by (rule jobs_inv_update) (use t1 Some in \<open>simp_all add: job_simps\<close>)
    then obtain s' where p: "enqueue_ready (update_job s1 (ie_job e) ?f) i e = Some (s', Inr ())"
        "placed i e (update_job s1 (ie_job e) ?f) s'"
      using put_ready [of "update_job s1 (ie_job e) ?f" i e] t1 Some by (auto simp: job_simps)
    have "refines s (Some (s', Inr ()))
        (on_job (job_views s) i (if upd then spec_release now c pri 0 else spec_timeout c))"
      by (rule refines_moved [OF inv Some t(3) p(2)])
        (use None st(1) in \<open>simp_all add: spec_release_def spec_timeout_def job_simps\<close>)
    then show ?thesis using Some st t p
      by (simp add: fromReservedToReady_def get_entry_eq update_job_comp o_assoc)
  qed
qed

lemma fromReadyToReserved_moves:
  assumes inv: "jobs_inv s {}" and e: "mget (ji_m (jobs s)) i = Some e"
    and st: "State (job_at s (ie_job e)) = Ready"
  shows "\<exists>s'. fromReadyToReserved s now i c = Some (s', Inr ()) \<and>
           refines s (Some (s', Inr ())) (on_job (job_views s) i (spec_reserve now c)) \<and>
           same_rest s s' \<and> dom (mget (tubes s')) = dom (mget (tubes s)) \<and>
           spec_reserve now c (view (job_at s (ie_job e))) = Inr (view (job_at s' (ie_job e)))"
proof -
  let ?f = "IncReserveCount \<circ> UpdateReservedBy c \<circ> UpdateState Reserved \<circ> UpdateReservation now"
  obtain je s1 where t: "ie_entry e = Some je" "on_tubes (\<lambda>ts. RemoveReadyJob ts je) s = Some (s1, Inr je)"
      "taken i s s1" "dom (mget (tubes s1)) = dom (mget (tubes s))"
    using take_ready [OF inv e st] by blast
  note t1 = taken_index [OF t(3)]
  have "jobs_inv (update_job s1 (ie_job e) ?f) {i}"
    by (rule jobs_inv_update) (use t1 e in \<open>simp_all add: job_simps\<close>)
  then obtain s' where p: "enqueue_reserved (update_job s1 (ie_job e) ?f) c i e = Some (s', Inr ())"
      "placed i e (update_job s1 (ie_job e) ?f) s'" "tubes s' = tubes s1"
    using put_reserved [of "update_job s1 (ie_job e) ?f" i e] t1 e by (auto simp: job_simps)
  have spec: "spec_reserve now c (view (job_at s (ie_job e))) = Inr (view (?f (job_at s (ie_job e))))"
    using st by (simp add: spec_reserve_def job_simps)
  then have "refines s (Some (s', Inr ())) (on_job (job_views s) i (spec_reserve now c))"
    by (rule refines_moved [OF inv e t(3) p(2)]) (simp add: job_simps)
  moreover have "job_at s' (ie_job e) = ?f (job_at s (ie_job e))"
    using p(2) t1 by (simp add: placed_def)
  moreover have "same_rest s s'" by (rule moved_same_rest [OF t(3) p(2)])
  moreover have "fromReadyToReserved s now i c = Some (s', Inr ())"
    using e st t p by (simp add: fromReadyToReserved_def get_entry_eq)
  ultimately show ?thesis using p(3) t(4) spec by auto
qed

lemma fromReadyToReserved_refines:
  assumes inv: "jobs_inv s {}"
  shows "refines s (fromReadyToReserved s now i c) (on_job (job_views s) i (spec_reserve now c))"
proof (cases "mget (ji_m (jobs s)) i")
  case None
  then show ?thesis using inv refines_error
    by (simp add: fromReadyToReserved_def get_entry_eq on_job_def job_views_eq)
next
  case (Some e)
  show ?thesis
  proof (cases "State (job_at s (ie_job e)) = Ready")
    case False
    then show ?thesis using inv Some refines_error
      by (simp add: fromReadyToReserved_def get_entry_eq on_job_def job_views_eq spec_reserve_def getter_view)
  next
    case True
    then show ?thesis using fromReadyToReserved_moves [OF inv Some True] by metis
  qed
qed

lemma delay_ok_add:
  assumes "delay_ok s" and "job_views s' = (job_views s)(i \<mapsto> j)"
    and "nextDelayTickAt s' \<le> nextDelayTickAt s" and "nextDelayTickAt s' \<le> readyAt j"
  shows "delay_ok s'"
  using assms unfolding delay_ok_def by (metis fun_upd_apply option.inject order_trans)

lemma fromReservedToDelayed_refines:
  assumes inv: "jobs_inv s {}" and d: "dly \<noteq> 0"
  shows "refines s (fromReservedToDelayed s now i c pri dly)
           (on_job (job_views s) i (spec_release now c pri dly))"
proof (cases "mget (ji_m (jobs s)) i")
  case None
  then show ?thesis using inv refines_error
    by (simp add: fromReservedToDelayed_def get_entry_eq on_job_def job_views_eq)
next
  case (Some e)
  show ?thesis
  proof (cases "holder_check c (view (job_at s (ie_job e)))")
    case (Some err)
    then show ?thesis using inv \<open>mget (ji_m (jobs s)) i = Some e\<close> refines_error
      by (auto simp: fromReservedToDelayed_def get_entry_eq on_job_def job_views_eq spec_release_def
          holder_check_def unauthorized_def getter_view split: if_splits)
  next
    case None
    then have st: "State (job_at s (ie_job e)) = Reserved" "\<not> unauthorized (job_at s (ie_job e)) c"
      by (auto simp: holder_check_def unauthorized_def getter_view split: if_splits)
    let ?f = "IncReleaseCount \<circ> UpdateReservedBy [] \<circ> UpdateReadyAt now \<circ>
      UpdateDelay dly \<circ> UpdateState Delayed \<circ> UpdatePriority pri"
    obtain je s1 where t: "ie_entry e = Some je"
        "on_reserved (\<lambda>rs. reservedJobsIndex_Remove rs je) s = Some (s1, Inr (ie_job e))" "taken i s s1"
      using take_reserved [OF inv Some st(1)] by blast
    note t1 = taken_index [OF t(3)]
    have "jobs_inv (update_job s1 (ie_job e) ?f) {i}"
      by (rule jobs_inv_update) (use t1 Some in \<open>simp_all add: job_simps\<close>)
    then obtain s' where p: "enqueue_delayed (update_job s1 (ie_job e) ?f) i e = Some (s', Inr ())"
        "placed i e (update_job s1 (ie_job e) ?f) s'"
      using put_delayed [of "update_job s1 (ie_job e) ?f" i e] t1 Some by (auto simp: job_simps)
    let ?r = "wrap64 (now + dly)"
    let ?s = "if ?r < nextDelayTickAt s' then s'\<lparr>nextDelayTickAt := ?r\<rparr> else s'"
    have v: "job_views s' = (job_views s)(i \<mapsto> view (?f (job_at s (ie_job e))))"
      by (rule job_views_moved [OF inv Some t(3) p(2)])
    have r: "same_rest s s'" by (rule moved_same_rest [OF t(3) p(2)])
    have ra: "ReadyAt (job_at s' (ie_job e)) = ?r"
      using p(2) by (simp add: placed_def job_simps)
    have "delay_ok s \<Longrightarrow> delay_ok ?s"
      by (rule delay_ok_add [of s _ i "view (?f (job_at s (ie_job e)))"])
        (use v r in \<open>auto simp: same_rest_def job_simps\<close>)
    moreover have "on_job (job_views s) i (spec_release now c pri dly) = Inr (job_views s')"
      using None st(1) d Some
      by (cases "view (job_at s (ie_job e))") (simp add: v on_job_def job_views_eq [of s] spec_release_def Let_def job_simps)
    moreover have "fromReservedToDelayed s now i c pri dly = Some (?s, Inr ())"
      using Some st t p ra by (simp add: fromReservedToDelayed_def get_entry_eq)
    moreover have "jobs_inv ?s {}" "same_clients s ?s" "job_views ?s = job_views s'"
      using p(2) r by (simp_all add: placed_def same_rest_def same_clients_def)
    ultimately show ?thesis by (simp add: refines_def)
  qed
qed

text \<open>A delayed job becomes ready if it is at the root of its heap.\<close>

definition spec_ready :: "localJob \<Rightarrow> error + localJob" where
  "spec_ready j = (if state j \<noteq> Delayed then Inl ErrInvalidJobTransition else Inr (j\<lparr>state := Ready\<rparr>))"

lemma fromDelayedToReady_refines:
  assumes inv: "jobs_inv s {}" and Some: "mget (ji_m (jobs s)) i = Some e"
    and st: "State (job_at s (ie_job e)) = Delayed"
    and root: "jobHeap_Peek (heaps s (LDelayed (TubeName (job_at s (ie_job e))))) = ie_entry e"
  shows "refines s (fromDelayedToReady s i) (on_job (job_views s) i spec_ready)"
    and "\<exists>s'. fromDelayedToReady s i = Some (s', Inr ()) \<and> dom (mget (tubes s')) = dom (mget (tubes s)) \<and>
           nextDelayTickAt s' = nextDelayTickAt s"
proof -
  let ?f = "UpdateState Ready"
  obtain je s1 where t: "ie_entry e = Some je" "on_tubes (\<lambda>ts. RemoveDelayedJob ts je) s = Some (s1, Inr je)"
      "taken i s s1" "insert (TubeName (job_at s (ie_job e))) (dom (mget (tubes s1))) = dom (mget (tubes s))"
    using take_delayed [OF inv Some st] by blast
  note t1 = taken_index [OF t(3)]
  have "jh_wf (jsm_mem s, heaps s (LDelayed (TubeName (job_at s (ie_job e)))))"
    using inv jinv_wf unfolding jobs_inv_def by blast
  then have ix: "je_index (m_entries (jsm_mem s) je) = 0"
    using root t(1) by (auto simp: jobHeap_Peek_def jh_defs split: if_splits)
  have "jobs_inv (update_job s1 (ie_job e) ?f) {i}"
    by (rule jobs_inv_update) (use t1 Some in \<open>simp_all add: job_simps\<close>)
  then obtain s' where p: "enqueue_ready (update_job s1 (ie_job e) ?f) i e = Some (s', Inr ())"
      "placed i e (update_job s1 (ie_job e) ?f) s'"
      "dom (mget (tubes s')) = insert (TubeName (job_at s (ie_job e))) (dom (mget (tubes s1)))"
    using put_ready [of "update_job s1 (ie_job e) ?f" i e] t1 Some by (auto simp: job_simps)
  have "refines s (Some (s', Inr ())) (on_job (job_views s) i spec_ready)"
    by (rule refines_moved [OF inv Some t(3) p(2)])
      (use st in \<open>simp_all add: spec_ready_def job_simps\<close>)
  moreover have eq: "fromDelayedToReady s i = Some (s', Inr ())" using Some st t p ix
    by (simp add: fromDelayedToReady_def get_entry_eq)
  ultimately show "refines s (fromDelayedToReady s i) (on_job (job_views s) i spec_ready)" by simp
  show "\<exists>s'. fromDelayedToReady s i = Some (s', Inr ()) \<and> dom (mget (tubes s')) = dom (mget (tubes s)) \<and>
           nextDelayTickAt s' = nextDelayTickAt s"
    using eq p(3) t(4) moved_same_rest [OF t(3) p(2)] by (auto simp: same_rest_def)
qed

section \<open>New jobs and deleted jobs\<close>

lemma job_views_dropped:
  assumes "jobs s' = (jobs s)\<lparr>ji_m := mdel (ji_m (jobs s)) i\<rparr>"
    and "\<And>k e. k \<noteq> i \<Longrightarrow> mget (ji_m (jobs s)) k = Some e \<Longrightarrow> job_at s' (ie_job e) = job_at s (ie_job e)"
  shows "job_views s' = (job_views s)(i := None)"
proof
  fix k
  show "job_views s' k = ((job_views s)(i := None)) k"
    using assms(1) assms(2) [of k] by (cases "mget (ji_m (jobs s)) k") (auto simp: job_views_def)
qed

text \<open>Reading the heaps does not depend on the index.\<close>

lemma on_tubes_jobs:
  "on_tubes f s = Some (s', r) \<Longrightarrow> on_tubes f (s\<lparr>jobs := x\<rparr>) = Some (s'\<lparr>jobs := x\<rparr>, r)"
  by (auto simp: on_tubes_def split: option.splits prod.splits)

lemma on_reserved_jobs:
  "on_reserved f s = Some (s', r) \<Longrightarrow> on_reserved f (s\<lparr>jobs := x\<rparr>) = Some (s'\<lparr>jobs := x\<rparr>, r)"
  by (auto simp: on_reserved_def split: option.splits prod.splits)

text \<open>The part of \<^verbatim>\<open>Delete\<close> after the check, with the index entry \<open>e\<close> of the job.\<close>

lemma Delete_dropped:
  assumes inv: "jobs_inv s {}" and e: "mget (ji_m (jobs s)) i = Some e" and t: "taken i s s1"
  shows "refines s (Some (update_job (s1\<lparr>jobs := (jobs s)\<lparr>ji_m := mdel (ji_m (jobs s)) i\<rparr>\<rparr>) (ie_job e)
           (UpdateReservedBy [] \<circ> UpdateState Deleted), Inr ())) (Inr ((job_views s)(i := None)))"
proof -
  let ?f = "UpdateReservedBy [] \<circ> UpdateState Deleted"
  let ?s = "update_job (s1\<lparr>jobs := (jobs s)\<lparr>ji_m := mdel (ji_m (jobs s)) i\<rparr>\<rparr>) (ie_job e) ?f"
  have j: "jinv (jsm_mem s) (ji_m (jobs s)) (heaps s) {}" using inv by (simp add: jobs_inv_def)
  have other: "ie_job e' \<noteq> ie_job e" if "k \<noteq> i" "mget (ji_m (jobs s)) k = Some e'" for k e'
    using jinv_index_inj [OF j e that(2)] that(1) by auto
  have t1: "jobs s1 = jobs s" "m_jobs (jsm_mem s1) = m_jobs (jsm_mem s)" "jobs_inv s1 {i}" "same_rest s s1"
    using t by (auto simp: taken_def)
  have "jobs_inv (update_job s1 (ie_job e) ?f) {i}"
    by (rule jobs_inv_update) (use t1 e in \<open>simp_all add: job_simps\<close>)
  then have "jobs_inv ?s {}"
    using jinv_drop [of _ _ _ "{i}" i] t1(1) by (simp add: jobs_inv_def update_job_def)
  moreover have v: "job_views ?s = (job_views s)(i := None)"
    by (rule job_views_dropped) (use t1 other in auto)
  moreover have "delay_ok s \<longrightarrow> delay_ok ?s"
    using v t1(4) by (auto simp: delay_ok_def same_rest_def)
  moreover have "same_clients s ?s"
    using t1(4) by (simp add: same_rest_def same_clients_def)
  ultimately show ?thesis by (simp add: refines_def)
qed

lemma Delete_buried:
  assumes inv: "jobs_inv s {}" and e: "mget (ji_m (jobs s)) i = Some e"
    and st: "State (job_at s (ie_job e)) = Buried"
  shows "refines s (Some (update_job (s\<lparr>jobs := (jobs s)\<lparr>ji_m := mdel (ji_m (jobs s)) i\<rparr>\<rparr>) (ie_job e)
           (UpdateReservedBy [] \<circ> UpdateState Deleted), Inr ())) (Inr ((job_views s)(i := None)))"
proof -
  let ?f = "UpdateReservedBy [] \<circ> UpdateState Deleted"
  let ?s = "update_job (s\<lparr>jobs := (jobs s)\<lparr>ji_m := mdel (ji_m (jobs s)) i\<rparr>\<rparr>) (ie_job e) ?f"
  have j: "jinv (jsm_mem s) (ji_m (jobs s)) (heaps s) {}" using inv by (simp add: jobs_inv_def)
  have other: "ie_job e' \<noteq> ie_job e" if "k \<noteq> i" "mget (ji_m (jobs s)) k = Some e'" for k e'
    using jinv_index_inj [OF j e that(2)] that(1) by auto
  have "jinv (upd_job (jsm_mem s) (ie_job e) ?f) (mdel (ji_m (jobs s)) i) (heaps s) {}"
    by (rule jinv_ghost [OF j e]) (use st in \<open>simp_all add: job_simps\<close>)
  moreover have "waits_wf (upd_job (jsm_mem s) (ie_job e) ?f) (tubes s)"
    using inv waits_wf_cong [of "upd_job (jsm_mem s) (ie_job e) ?f" "jsm_mem s" "tubes s"]
    by (simp add: jobs_inv_def upd_job_def)
  ultimately have "jobs_inv ?s {}" by (simp add: jobs_inv_def update_job_def)
  moreover have v: "job_views ?s = (job_views s)(i := None)"
    by (rule job_views_dropped) (use other in auto)
  moreover have "delay_ok s \<longrightarrow> delay_ok ?s"
    using v by (auto simp: delay_ok_def)
  moreover have "same_clients s ?s" by (simp add: same_clients_def)
  ultimately show ?thesis by (simp add: refines_def)
qed

lemma Delete_refines:
  assumes "jobs_inv s {}"
  shows "refines s (Delete s i c) (spec_delete (job_views s) i c)"
proof -
  define s0 where "s0 = tally (\<lambda>c. c\<lparr>nCmdDelete := nCmdDelete c + 1\<rparr>) s"
  have inv: "jobs_inv s0 {}" and v0: "job_views s0 = job_views s" using assms by (simp_all add: s0_def)
  let ?idx = "(jobs s0)\<lparr>ji_m := mdel (ji_m (jobs s0)) i\<rparr>"
  have "refines s0 (Delete s i c) (spec_delete (job_views s0) i c)"
  proof (cases "mget (ji_m (jobs s0)) i")
    case None
    then show ?thesis using inv refines_error
      by (simp add: Delete_def s0_def [symmetric] get_entry_eq spec_delete_def job_views_eq)
  next
    case (Some e)
    have j: "jinv (jsm_mem s0) (ji_m (jobs s0)) (heaps s0) {}" using inv by (simp add: jobs_inv_def)
    have loc: "loc_of (view (job_at s0 (ie_job e))) \<noteq> None" using jinv_index(3) [OF j Some] by auto
    show ?thesis
    proof (cases "state (view (job_at s0 (ie_job e))) = Reserved \<and> reservedBy (view (job_at s0 (ie_job e))) \<noteq> c")
      case True
      then show ?thesis using inv Some refines_error
        by (simp add: Delete_def s0_def [symmetric] get_entry_eq spec_delete_def job_views_eq getter_view)
    next
      case False
      have spec: "spec_delete (job_views s0) i c = Inr ((job_views s0)(i := None))"
        using False Some by (simp add: spec_delete_def job_views_eq [of s0])
      have D: "Delete s i c = and_then
          (case State (job_at s0 (ie_job e)) of
             Ready \<Rightarrow> deref (ie_entry e) (\<lambda>je. on_tubes (\<lambda>ts. RemoveReadyJob ts je) (s0\<lparr>jobs := ?idx\<rparr>))
           | Delayed \<Rightarrow> deref (ie_entry e) (\<lambda>je. on_tubes (\<lambda>ts. RemoveDelayedJob ts je) (s0\<lparr>jobs := ?idx\<rparr>))
           | Reserved \<Rightarrow> deref (ie_entry e) (\<lambda>je. on_reserved (\<lambda>rs. reservedJobsIndex_Remove rs je) (s0\<lparr>jobs := ?idx\<rparr>))
           | _ \<Rightarrow> Some (s0\<lparr>jobs := ?idx\<rparr>, Inr 0))
          (\<lambda>s _. Some (update_job s (ie_job e) (UpdateReservedBy [] \<circ> UpdateState Deleted), Inr ()))"
        using Some False
        by (auto simp: Delete_def s0_def [symmetric] get_entry_eq remove_entry_def JobIndex_Remove_def getter_view)
      note out = Delete_dropped [OF inv Some]
      show ?thesis
      proof (cases "State (job_at s0 (ie_job e))")
        case Ready
        then obtain je s1 where t: "ie_entry e = Some je" "taken i s0 s1"
            "on_tubes (\<lambda>ts. RemoveReadyJob ts je) s0 = Some (s1, Inr je)"
          using take_ready [OF inv Some] by blast
        then show ?thesis using D Ready spec out [OF t(2)] on_tubes_jobs [OF t(3), of ?idx] by simp
      next
        case Delayed
        then obtain je s1 where t: "ie_entry e = Some je" "taken i s0 s1"
            "on_tubes (\<lambda>ts. RemoveDelayedJob ts je) s0 = Some (s1, Inr je)"
          using take_delayed [OF inv Some] by blast
        then show ?thesis using D Delayed spec out [OF t(2)] on_tubes_jobs [OF t(3), of ?idx] by simp
      next
        case Reserved
        then obtain je s1 where t: "ie_entry e = Some je" "taken i s0 s1"
            "on_reserved (\<lambda>rs. reservedJobsIndex_Remove rs je) s0 = Some (s1, Inr (ie_job e))"
          using take_reserved [OF inv Some] by blast
        then show ?thesis using D Reserved spec out [OF t(2)] on_reserved_jobs [OF t(3), of ?idx] by simp
      next
        case Buried
        then show ?thesis using D spec Delete_buried [OF inv Some] by simp
      qed (use loc in \<open>auto simp: loc_of_def getter_view\<close>)
    qed
  qed
  then show ?thesis using v0 by (simp add: s0_def refines_tally)
qed

text \<open>
  \<open>created i j s s1 r\<close>: \<open>s1\<close> is \<open>s\<close> with the job \<open>j\<close> allocated at \<open>r\<close> and \<open>i\<close> as the last id
  given out; nothing refers to the job yet.
\<close>

definition created :: "JobID \<Rightarrow> Job \<Rightarrow> localJSM \<Rightarrow> localJSM \<Rightarrow> ref \<Rightarrow> bool" where
  "created i j s s1 r \<longleftrightarrow>
     (\<exists>m n. new_job (jsm_mem s) j = (m, r) \<and>
        s1 = s\<lparr>jsm_mem := m, maxJobID := i, nextDelayTickAt := n\<rparr>)"

lemma created_facts:
  assumes inv: "jobs_inv s {}" and c: "created i j s s1 r"
  shows "jobs_inv s1 {}" and "job_at s1 r = j" and "job_views s1 = job_views s"
    and "jobs s1 = jobs s" and "same_clients s s1" and "tubes s1 = tubes s" and "maxJobID s1 = i"
    and "\<And>k e. mget (ji_m (jobs s)) k = Some e \<Longrightarrow> ie_job e \<noteq> r \<and> job_at s1 (ie_job e) = job_at s (ie_job e)"
    and "stat s1 = stat s"
proof -
  have j: "jinv (jsm_mem s) (ji_m (jobs s)) (heaps s) {}" using inv by (simp add: jobs_inv_def)
  obtain m n where m: "new_job (jsm_mem s) j = (m, r)"
      and s1: "s1 = s\<lparr>jsm_mem := m, maxJobID := i, nextDelayTickAt := n\<rparr>"
    using c by (auto simp: created_def)
  have m': "r = m_next (jsm_mem s)" "m_jobs m = (m_jobs (jsm_mem s))(r := j)" "m_entries m = m_entries (jsm_mem s)"
      "m_clients m = m_clients (jsm_mem s)" "m_next m = Suc (m_next (jsm_mem s))"
    using m by (auto simp: new_job_def)
  have "jinv m (ji_m (jobs s)) (heaps s) {}" by (rule jinv_mem [OF j]) (use m' in auto)
  then show "jobs_inv s1 {}" using inv m' waits_wf_cong [OF m'(4)] s1 by (simp add: jobs_inv_def)
  show "job_at s1 r = j" and "jobs s1 = jobs s" and "same_clients s s1" and "tubes s1 = tubes s"
    and "maxJobID s1 = i" and "stat s1 = stat s"
    using s1 m' by (simp_all add: same_clients_def)
  show e: "ie_job e \<noteq> r \<and> job_at s1 (ie_job e) = job_at s (ie_job e)"
    if "mget (ji_m (jobs s)) k = Some e" for k e
    using jinv_index(2) [OF j that] m' s1 by auto
  show "job_views s1 = job_views s"
  proof
    fix k show "job_views s1 k = job_views s k"
      using e [of k] s1 by (cases "mget (ji_m (jobs s)) k") (auto simp: job_views_def)
  qed
qed

lemma add_job_exists:
  assumes inv: "jobs_inv s {}" and c: "created (ID j) j s s1 r" and "job_views s (ID j) \<noteq> None"
  shows "add_job s1 r = Some (s1, Inl (Wrapped ErrEntryExists))"
  using created_facts [OF inv c] assms(3)
  by (auto simp: add_job_def JobIndex_Add_def job_views_eq split: option.splits)

lemma add_job_new:
  assumes inv: "jobs_inv s {}" and c: "created (ID j) j s s1 r" and new: "job_views s (ID j) = None"
  shows "\<exists>s2 e. add_job s1 r = Some (s2, Inr e) \<and> ie_job e = r \<and> jobs_inv s2 {ID j} \<and>
           s2 = s1\<lparr>jobs := jobs s2\<rparr> \<and> ji_m (jobs s2) = mput (ji_m (jobs s)) (ID j) e"
proof -
  let ?e = "\<lparr>ie_job = r, ie_entry = None\<rparr>"
  let ?s2 = "s1\<lparr>jobs := (jobs s1)\<lparr>ji_m := mput (ji_m (jobs s1)) (ID j) ?e\<rparr>\<rparr>"
  note f = created_facts [OF inv c]
  have j: "jinv (jsm_mem s) (ji_m (jobs s)) (heaps s) {}" using inv by (simp add: jobs_inv_def)
  obtain m n where m: "new_job (jsm_mem s) j = (m, r)"
      and s1: "s1 = s\<lparr>jsm_mem := m, maxJobID := ID j, nextDelayTickAt := n\<rparr>"
    using c by (auto simp: created_def)
  have n: "mget (ji_m (jobs s)) (ID j) = None" using new by (simp add: job_views_eq split: option.splits)
  have "jobs_inv ?s2 {ID j}"
    using jinv_add [OF j n m] f(1) s1 by (simp add: jobs_inv_def)
  moreover have "add_job s1 r = Some (?s2, Inr ?e)"
    using n f(2,4) by (simp add: add_job_def JobIndex_Add_def Let_def)
  ultimately show ?thesis using f(4) by auto
qed

lemma job_views_added:
  assumes "ji_m (jobs s') = mput (ji_m (jobs s)) i e'" and "view (job_at s' (ie_job e')) = j"
    and "\<And>k e. mget (ji_m (jobs s)) k = Some e \<Longrightarrow> job_at s' (ie_job e) = job_at s (ie_job e)"
  shows "job_views s' = (job_views s)(i \<mapsto> j)"
proof
  fix k
  show "job_views s' k = ((job_views s)(i \<mapsto> j)) k"
    using assms(1,2) assms(3) [of k] by (cases "mget (ji_m (jobs s)) k") (auto simp: job_views_def)
qed

lemma AList_update_twice: "mput (mput m k v) k v' = mput m k v'"
  by (induction m) auto

lemma enter_job:
  assumes inv: "jobs_inv s {}" and c: "created (ID j) j s s1 r" and new: "job_views s (ID j) = None"
    and st: "State j = Initial"
  shows "\<exists>s'. fromInitialToReady s1 r = Some (s', Inr ()) \<and> jobs_inv s' {} \<and>
           job_views s' = (job_views s)(ID j \<mapsto> (view j)\<lparr>state := Ready\<rparr>) \<and> same_rest s1 s' \<and> job_at s' r = UpdateState Ready j"
    and "\<exists>s'. fromInitialToDelayed s1 r = Some (s', Inr ()) \<and> jobs_inv s' {} \<and>
           job_views s' = (job_views s)(ID j \<mapsto> (view j)\<lparr>state := Delayed\<rparr>) \<and> same_rest s1 s' \<and> job_at s' r = UpdateState Delayed j"
proof -
  note f = created_facts [OF inv c]
  obtain s2 e where a: "add_job s1 r = Some (s2, Inr e)" "ie_job e = r" "jobs_inv s2 {ID j}"
      "s2 = s1\<lparr>jobs := jobs s2\<rparr>" "ji_m (jobs s2) = mput (ji_m (jobs s)) (ID j) e"
    using add_job_new [OF inv c new] by blast
  have s2: "jsm_mem s2 = jsm_mem s1" "same_rest s1 s2" by (subst a(4); simp add: same_rest_def same_clients_def)+
  have i: "mget (ji_m (jobs s2)) (ID j) = Some e" using a(5) by simp
  have u: "jobs_inv (update_job s2 (ie_job e) (UpdateState st)) {ID j}" for st
    by (rule jobs_inv_update [OF a(3) i]) (simp add: job_simps)
  have views: "job_views s' = (job_views s)(ID j \<mapsto> (view j)\<lparr>state := st'\<rparr>) \<and> same_rest s1 s' \<and>
      job_at s' r = UpdateState st' j"
    if p: "placed (ID j) e (update_job s2 (ie_job e) (UpdateState st')) s'" for s' st'
  proof -
    obtain je where "ji_m (jobs s') = mput (ji_m (jobs s)) (ID j) (e\<lparr>ie_entry := Some je\<rparr>)"
      using p a(5) by (auto simp: placed_def AList_update_twice)
    moreover have m: "m_jobs (jsm_mem s') = (m_jobs (jsm_mem s1))(r := UpdateState st' j)"
      using p a(2) s2(1) f(2) by (simp add: placed_def)
    moreover have "view (UpdateState st' j) = (view j)\<lparr>state := st'\<rparr>"
      using st by (simp add: job_simps)
    ultimately have "job_views s' = (job_views s)(ID j \<mapsto> (view j)\<lparr>state := st'\<rparr>)"
      using a(2) f(8) by (intro job_views_added) auto
    moreover have "same_rest s1 s'"
      using p s2(2) by (auto simp: placed_def same_rest_def same_clients_def)
    ultimately show ?thesis using m by simp
  qed
  have g: "State (job_at s1 r) = Initial" "ID (UpdateState st' j) = ID j" "State (UpdateState st' j) = st'" for st'
    using st f(2) by (simp_all add: job_simps)
  obtain s' where p: "enqueue_ready (update_job s2 (ie_job e) (UpdateState Ready)) (ID j) e = Some (s', Inr ())"
      "placed (ID j) e (update_job s2 (ie_job e) (UpdateState Ready)) s'"
    using put_ready [OF u [of Ready], of e] i g a(2) s2(1) f(2) by auto
  then show "\<exists>s'. fromInitialToReady s1 r = Some (s', Inr ()) \<and> jobs_inv s' {} \<and>
           job_views s' = (job_views s)(ID j \<mapsto> (view j)\<lparr>state := Ready\<rparr>) \<and> same_rest s1 s' \<and> job_at s' r = UpdateState Ready j"
    using views [OF p(2)] a g s2(1) f(2) by (auto simp: fromInitialToReady_def placed_def)
  obtain s' where p: "enqueue_delayed (update_job s2 (ie_job e) (UpdateState Delayed)) (ID j) e = Some (s', Inr ())"
      "placed (ID j) e (update_job s2 (ie_job e) (UpdateState Delayed)) s'"
    using put_delayed [OF u [of Delayed], of e] i g a(2) s2(1) f(2) by auto
  then show "\<exists>s'. fromInitialToDelayed s1 r = Some (s', Inr ()) \<and> jobs_inv s' {} \<and>
           job_views s' = (job_views s)(ID j \<mapsto> (view j)\<lparr>state := Delayed\<rparr>) \<and> same_rest s1 s' \<and> job_at s' r = UpdateState Delayed j"
    using views [OF p(2)] a g s2(1) f(2) by (auto simp: fromInitialToDelayed_def placed_def)
qed

lemma fromInitial_exists:
  assumes inv: "jobs_inv s {}" and c: "created (ID j) j s s1 r" and old: "job_views s (ID j) \<noteq> None"
    and st: "State j = Initial"
  shows "fromInitialToReady s1 r = Some (s1, Inl (Wrapped ErrEntryExists))"
    and "fromInitialToDelayed s1 r = Some (s1, Inl (Wrapped ErrEntryExists))"
  using add_job_exists [OF inv c old] created_facts(2) [OF inv c] st
  by (simp_all add: fromInitialToReady_def fromInitialToDelayed_def)

text \<open>
  \<^verbatim>\<open>Put\<close> gives out the next id. If the counter has wrapped around to an id that is still
  in use the job is refused, and the counter has moved on.
\<close>

lemma Put_correct:
  assumes "jobs_inv s {}"
  defines "i \<equiv> maxJobID s + 1"
  shows "\<exists>s'. Put s now pri dly ttrv sz bdy tube =
           Some (s', if job_views s i = None then Inr i else Inl (Wrapped ErrEntryExists)) \<and>
         jobs_inv s' {} \<and> same_clients s s' \<and> maxJobID s' = i \<and> (delay_ok s \<longrightarrow> delay_ok s') \<and>
         job_views s' = (if job_views s i = None
           then (job_views s)(i \<mapsto> spec_new_job i now pri dly ttrv sz bdy tube) else job_views s)"
proof -
  define s0 where "s0 = tally (\<lambda>c. c\<lparr>nCmdPut := nCmdPut c + 1\<rparr>) s"
  have inv: "jobs_inv s0 {}" using assms(1) by (simp add: s0_def)
  let ?j = "LocalJob ((spec_new_job i now pri dly ttrv sz bdy tube)\<lparr>state := Initial\<rparr>)"
  have j: "ID ?j = i" "State ?j = Initial" "Delay ?j = dly" "ReadyAt ?j = wrap64 (now + dly)"
    by (simp_all add: spec_new_job_def localJob_defs)
  obtain m r where m: "new_job (jsm_mem s0) ?j = (m, r)" by fastforce
  let ?n = "if dly > 0 \<and> wrap64 (now + dly) < nextDelayTickAt s0 then wrap64 (now + dly) else nextDelayTickAt s0"
  define s1 where "s1 = s0\<lparr>jsm_mem := m, maxJobID := i, nextDelayTickAt := ?n\<rparr>"
  have c: "created (ID ?j) ?j s0 s1 r"
    unfolding created_def j(1) s1_def using m by blast
  note f = created_facts [OF inv c]
  have j1: "Delay (m_jobs m r) = dly" "ReadyAt (m_jobs m r) = wrap64 (now + dly)"
    using f(2) j by (auto simp: s1_def)
  have nj: "NewJob s0 now pri dly ttrv sz bdy tube =
      and_then (if dly > 0 then fromInitialToDelayed s1 r else fromInitialToReady s1 r)
        (\<lambda>s _. Some (s, Inr r))"
    using m j1 by (cases s) (simp add: NewJob_def NextJobID_def spec_new_job_def i_def s0_def s1_def tally_def)
  have P: "Put s now pri dly ttrv sz bdy tube = and_then (NewJob s0 now pri dly ttrv sz bdy tube) (\<lambda>s r.
      Some (tally (\<lambda>c. c\<lparr>nTotalJobs := nTotalJobs c + 1\<rparr>) s, Inr (ID (job_at s r))))"
    by (simp add: Put_def s0_def)
  have v1: "job_views s1 = job_views s" and sc: "same_clients s s1" using f(3,5) by (simp_all add: s0_def)
  have n1: "nextDelayTickAt s1 \<le> nextDelayTickAt s" "dly > 0 \<Longrightarrow> nextDelayTickAt s1 \<le> wrap64 (now + dly)"
    by (simp_all add: s1_def s0_def)
  have d1: "delay_ok s \<longrightarrow> delay_ok s1"
    using v1 n1(1) unfolding delay_ok_def by (metis order_trans)
  show ?thesis
  proof (cases "job_views s i = None")
    case False
    then have "job_views s0 (ID ?j) \<noteq> None" using j(1) by (simp add: s0_def)
    note ex = fromInitial_exists [OF inv c this j(2)]
    show ?thesis
      using False P nj ex f(1,7) v1 sc d1 j(1) by (intro exI [of _ s1]) simp
  next
    case True
    then have new: "job_views s0 (ID ?j) = None" using j(1) by (simp add: s0_def)
    let ?st = "if dly > 0 then Delayed else Ready"
    obtain s' where s': "(if dly > 0 then fromInitialToDelayed s1 r else fromInitialToReady s1 r) = Some (s', Inr ())"
        "jobs_inv s' {}" "job_views s' = (job_views s0)(i \<mapsto> (view ?j)\<lparr>state := ?st\<rparr>)" "same_rest s1 s'"
        "job_at s' r = UpdateState ?st ?j"
      using enter_job [OF inv c new j(2)] j(1) by (cases "dly > 0") auto
    have v: "job_views s' = (job_views s)(i \<mapsto> spec_new_job i now pri dly ttrv sz bdy tube)"
      using s'(3) by (simp add: s0_def spec_new_job_def)
    have "ID (job_at s' r) = i" using s'(5) j(1) by (simp add: localJob_defs)
    moreover have "same_clients s s'" "maxJobID s' = i" and n': "nextDelayTickAt s' = nextDelayTickAt s1"
      using s'(4) sc same_clients_trans f(7) j(1) by (auto simp: same_rest_def)
    moreover have "delay_ok s'" if "delay_ok s"
    proof (cases "dly > 0")
      case True
      show ?thesis
        by (rule delay_ok_add [OF that v]) (use n1 n' True in \<open>auto simp: spec_new_job_def\<close>)
    next
      case False
      then show ?thesis using that v n1(1) n' unfolding delay_ok_def
        by (auto simp: spec_new_job_def intro: order_trans)
    qed
    ultimately show ?thesis
      using True P nj s'(1,2) v
      by (intro exI [of _ "tally (\<lambda>c. c\<lparr>nTotalJobs := nTotalJobs c + 1\<rparr>) s'"]) simp
  qed
qed

section \<open>The commands refine their specification\<close>

lemma Reserve_refines:
  "jobs_inv s {} \<Longrightarrow> refines s (Reserve s now i c) (on_job (job_views s) i (spec_reserve now c))"
  by (simp add: Reserve_def fromReadyToReserved_refines)

lemma Release_refines:
  assumes "jobs_inv s {}"
  shows "refines s (Release s i c) (on_job (job_views s) i (spec_timeout c))"
proof -
  let ?s = "tally (\<lambda>c. c\<lparr>nJobTimeouts := nJobTimeouts c + 1\<rparr>) s"
  have "refines ?s (fromReservedToReady ?s i c 0 False) (on_job (job_views ?s) i (spec_timeout c))"
    using fromReservedToReady_refines [of ?s i c 0 False] assms by simp
  then show ?thesis by (simp add: Release_def refines_tally)
qed

lemma ReleaseWith_refines:
  assumes "jobs_inv s {}"
  shows "refines s (ReleaseWith s now i c pri dly) (on_job (job_views s) i (spec_release now c pri dly))"
proof -
  let ?s = "tally (\<lambda>c. c\<lparr>nCmdRelease := nCmdRelease c + 1\<rparr>) s"
  have "refines ?s (ReleaseWith s now i c pri dly) (on_job (job_views ?s) i (spec_release now c pri dly))"
    using fromReservedToReady_refines [of ?s i c pri True now]
      fromReservedToDelayed_refines [of ?s dly now i c pri] assms
    by (cases "dly = 0") (simp_all add: ReleaseWith_def)
  then show ?thesis by (simp add: refines_tally)
qed

lemma Bury_refines:
  assumes "jobs_inv s {}"
  shows "refines s (Bury s now i pri c) (on_job (job_views s) i (spec_bury now pri c))"
proof -
  let ?s = "tally (\<lambda>c. c\<lparr>nCmdBury := nCmdBury c + 1\<rparr>) s"
  have "refines ?s (Bury s now i pri c) (on_job (job_views ?s) i (spec_bury now pri c))"
    using fromReservedToBuried_refines [of ?s now i pri c] assms by (simp add: Bury_def)
  then show ?thesis by (simp add: refines_tally)
qed

lemma Kick_refines:
  assumes "jobs_inv s {}"
  shows "refines s (Kick s i) (on_job (job_views s) i spec_kick)"
proof -
  let ?s = "tally (\<lambda>c. c\<lparr>nCmdKick := nCmdKick c + 1\<rparr>) s"
  have "refines ?s (Kick s i) (on_job (job_views ?s) i spec_kick)"
    using fromBuriedToReady_refines [of ?s i] assms by (simp add: Kick_def)
  then show ?thesis by (simp add: refines_tally)
qed

section \<open>The next job of a place\<close>

fun view_key :: "less_fn \<Rightarrow> localJob \<Rightarrow> int \<times> uint64" where
  "view_key ByPriority v = (uint (priority v), job_id v)"
| "view_key ByReadyAt v = (readyAt v, job_id v)"
| "view_key ByExpiresAt v = (expiresAt v, job_id v)"
| "view_key ByBuriedAt v = (buriedAt v, job_id v)"

lemma job_key_view: "job_key f j = view_key f (view j)"
  by (cases f) (simp_all add: getter_view)

text \<open>The ids of the jobs at a place, according to the table.\<close>

definition ids_at :: "job_table \<Rightarrow> loc \<Rightarrow> JobID set" where
  "ids_at V l = {i. \<exists>v. V i = Some v \<and> loc_of v = Some l}"

definition has_ghost :: "localJSM \<Rightarrow> loc \<Rightarrow> bool" where
  "has_ghost s l \<longleftrightarrow> (\<exists>e \<in> set (entries (heaps s l)). State (job_of (jsm_mem s) e) = Deleted)"

lemma ghosts_are_buried:
  assumes inv: "jobs_inv s {}" and "has_ghost s l"
  shows "\<exists>t. l = LBuried t"
proof -
  obtain e where e: "e \<in> set (entries (heaps s l))" "State (job_of (jsm_mem s) e) = Deleted"
    using assms(2) by (auto simp: has_ghost_def)
  then show ?thesis
    using jinv_entry(3) [of "jsm_mem s" "ji_m (jobs s)" "heaps s" "{}" e l] inv
    by (auto simp: jobs_inv_def live_entry_def ghost_entry_def loc_of_def getter_view)
qed

text \<open>In a heap without ghosts, the entries are the jobs of the place.\<close>

lemma entry_live:
  assumes inv: "jobs_inv s {}" and "\<not> has_ghost s l" and e: "e \<in> set (entries (heaps s l))"
  shows "live_entry (jsm_mem s) (ji_m (jobs s)) {} l e"
  using jinv_entry(3) [of "jsm_mem s" "ji_m (jobs s)" "heaps s" "{}" e l] assms
  by (auto simp: jobs_inv_def has_ghost_def ghost_entry_def)

lemma entry_index:
  assumes inv: "jobs_inv s {}" and g: "\<not> has_ghost s l" and e: "e \<in> set (entries (heaps s l))"
  shows "mget (ji_m (jobs s)) (ID (job_of (jsm_mem s) e)) =
           Some \<lparr>ie_job = je_Job (m_entries (jsm_mem s) e), ie_entry = Some e\<rparr>"
proof -
  have j: "jinv (jsm_mem s) (ji_m (jobs s)) (heaps s) {}" using inv by (simp add: jobs_inv_def)
  obtain i where i: "mget (ji_m (jobs s)) i = Some \<lparr>ie_job = je_Job (m_entries (jsm_mem s) e), ie_entry = Some e\<rparr>"
    using entry_live [OF assms] by (auto simp: live_entry_def)
  then show ?thesis using jinv_index(1) [OF j i] by (simp add: job_of_def)
qed

lemma entry_views:
  assumes inv: "jobs_inv s {}" and g: "\<not> has_ghost s l" and e: "e \<in> set (entries (heaps s l))"
  shows "job_views s (ID (job_of (jsm_mem s) e)) = Some (view (job_of (jsm_mem s) e))"
    and "loc_of (view (job_of (jsm_mem s) e)) = Some l"
  using entry_live [OF assms] entry_index [OF assms] by (simp_all add: job_views_eq job_of_def live_entry_def)

lemma views_entry:
  assumes inv: "jobs_inv s {}" and i: "job_views s i = Some v" and l: "loc_of v = Some l"
  obtains e ie where "e \<in> set (entries (heaps s l))" and "view (job_of (jsm_mem s) e) = v"
    and "mget (ji_m (jobs s)) i = Some ie" and "ie_entry ie = Some e" and "job_id v = i"
    and "job_at s (ie_job ie) = job_of (jsm_mem s) e"
proof -
  have j: "jinv (jsm_mem s) (ji_m (jobs s)) (heaps s) {}" using inv by (simp add: jobs_inv_def)
  obtain ie where ie: "mget (ji_m (jobs s)) i = Some ie" "view (job_at s (ie_job ie)) = v"
    using i by (auto simp: job_views_eq split: option.splits)
  then obtain e where "ie_entry ie = Some e" "e \<in> set (entries (heaps s l))"
      "job_of (jsm_mem s) e = job_at s (ie_job ie)"
    using jobs_inv_entry [OF inv ie(1)] l by metis
  then show ?thesis using that ie jinv_index(1) [OF j ie(1)] by (auto simp: getter_view)
qed

lemma peek_least:
  assumes inv: "jobs_inv s {}" and g: "\<not> has_ghost s l" and p: "jobHeap_Peek (heaps s l) = Some e"
  shows "job_views s (ID (job_of (jsm_mem s) e)) = Some (view (job_of (jsm_mem s) e))"
    and "loc_of (view (job_of (jsm_mem s) e)) = Some l"
    and "\<And>i v. job_views s i = Some v \<Longrightarrow> loc_of v = Some l \<Longrightarrow>
           view_key (loc_order l) (view (job_of (jsm_mem s) e)) \<le> view_key (loc_order l) v"
proof -
  have e: "e \<in> set (entries (heaps s l))" using jobHeap_Peek_mem [OF p] .
  show "job_views s (ID (job_of (jsm_mem s) e)) = Some (view (job_of (jsm_mem s) e))"
    and "loc_of (view (job_of (jsm_mem s) e)) = Some l"
    using entry_views [OF inv g e] .
  fix i v assume v: "job_views s i = Some v" "loc_of v = Some l"
  obtain x where x: "x \<in> set (entries (heaps s l))" "view (job_of (jsm_mem s) x) = v"
    using views_entry [OF inv v] by metis
  have "jh_ordered (jsm_mem s, heaps s l)" and "lessFn (heaps s l) = loc_order l"
    using inv g by (auto simp: jobs_inv_def jinv_def heaps_ok_def has_ghost_def ordered_right_def)
  then show "view_key (loc_order l) (view (job_of (jsm_mem s) e)) \<le> view_key (loc_order l) v"
    using jobHeap_Peek_least [of "jsm_mem s", OF _ p x(1)] x(2) by (simp add: job_key_view)
qed

lemma peek_none:
  assumes inv: "jobs_inv s {}" and p: "jobHeap_Peek (heaps s l) = None"
  shows "ids_at (job_views s) l = {}" and "\<not> has_ghost s l"
proof -
  have "entries (heaps s l) = []" using p by (simp add: jobHeap_Peek_def split: if_splits)
  then show "\<not> has_ghost s l" by (simp add: has_ghost_def)
  show "ids_at (job_views s) l = {}"
  proof (rule ccontr)
    assume "ids_at (job_views s) l \<noteq> {}"
    then obtain i v where "job_views s i = Some v" "loc_of v = Some l" by (auto simp: ids_at_def)
    then obtain e where "e \<in> set (entries (heaps s l))" using views_entry [OF inv] by metis
    then show False using \<open>entries (heaps s l) = []\<close> by simp
  qed
qed

text \<open>What the index returns is the root of the heap of the place.\<close>

lemma next_job_peek:
  "NextReadyJob (tubes s) t = (case jobHeap_Peek (heaps s (LReady t)) of None \<Rightarrow> Inl ErrEntryMissing | Some e \<Rightarrow> Inr e)"
  "NextDelayedJob (tubes s) t = (case jobHeap_Peek (heaps s (LDelayed t)) of None \<Rightarrow> Inl ErrEntryMissing | Some e \<Rightarrow> Inr e)"
  "NextBuriedJob (tubes s) t = (case jobHeap_Peek (heaps s (LBuried t)) of None \<Rightarrow> Inl ErrEntryMissing | Some e \<Rightarrow> Inr e)"
  "NextReservedJob (reservedJobs s) c = (case jobHeap_Peek (heaps s (LReserved c)) of None \<Rightarrow> Inl ErrEntryMissing | Some e \<Rightarrow> Inr e)"
  by (auto simp: NextReadyJob_def NextDelayedJob_def NextBuriedJob_def NextReservedJob_def getByName_find
      tube_at_def jobHeap_Peek_def NewPriorityJobs_def NewDelayedJobs_def NewBuriedJobs_def
      NewReservedJobs_def split: option.splits)

lemma finite_views: "finite (dom (job_views s))"
proof -
  have "dom (job_views s) = dom (mget (ji_m (jobs s)))" by (auto simp: job_views_def dom_def)
  then show ?thesis by (simp add: finite_dom_map_of)
qed

lemma finite_ids_at: "finite (ids_at (job_views s) l)"
  by (rule finite_subset [OF _ finite_views [of s]]) (auto simp: ids_at_def)

text \<open>A job that moves to another place leaves no ghost behind.\<close>

lemma moved_no_ghost:
  assumes inv: "jobs_inv s {}" and t: "taken i s s1" and p: "placed i e (update_job s1 (ie_job e) f) s'"
    and f: "State (f (job_at s (ie_job e))) \<noteq> Deleted" and g: "\<not> has_ghost s l"
  shows "\<not> has_ghost s' l"
proof -
  let ?s2 = "update_job s1 (ie_job e) f"
  obtain je where je: "je_Job (m_entries (jsm_mem s') je) = ie_job e"
      "\<And>l. set (entries (heaps s' l)) \<subseteq> insert je (set (entries (heaps ?s2 l)))"
    using p by (auto simp: placed_def)
  have jobs': "job_at s' r = (if r = ie_job e then f (job_at s (ie_job e)) else job_at s r)" for r
    using p t by (simp add: placed_def taken_def)
  have same: "same_rest s s'" by (rule moved_same_rest [OF t p])
  have "State (job_of (jsm_mem s') x) \<noteq> Deleted" if x: "x \<in> set (entries (heaps s' l))" for x
  proof (cases "x = je")
    case True
    then show ?thesis using je(1) f by (simp add: job_of_def jobs')
  next
    case False
    then have "x \<in> set (entries (heaps ?s2 l))" using je(2) x by blast
    then have old: "x \<in> set (entries (heaps s l))" using t by (auto simp: taken_def)
    then have "x < m_next (jsm_mem s)"
      using jinv_entry(1) [of "jsm_mem s" "ji_m (jobs s)" "heaps s" "{}" x l] inv by (simp add: jobs_inv_def)
    then have "je_Job (m_entries (jsm_mem s') x) = je_Job (m_entries (jsm_mem s) x)"
      using same by (simp add: same_rest_def)
    moreover have "State (job_of (jsm_mem s) x) \<noteq> Deleted" using g old by (auto simp: has_ghost_def)
    ultimately show ?thesis using f by (auto simp: job_of_def jobs')
  qed
  then show ?thesis by (auto simp: has_ghost_def)
qed

lemma Kick_no_ghost:
  assumes inv: "jobs_inv s {}" and g: "\<not> has_ghost s l" and k: "Kick s i = Some (s', Inr ())"
  shows "\<not> has_ghost s' l"
proof -
  let ?s = "tally (\<lambda>c. c\<lparr>nCmdKick := nCmdKick c + 1\<rparr>) s"
  let ?f = "IncKickCount \<circ> UpdateState Ready \<circ> ResetBuriedAt"
  have inv': "jobs_inv ?s {}" and g': "\<not> has_ghost ?s l" using inv g by (simp_all add: has_ghost_def)
  have k': "fromBuriedToReady ?s i = Some (s', Inr ())" using k by (simp add: Kick_def Let_def)
  obtain e where e: "mget (ji_m (jobs ?s)) i = Some e" "State (job_at ?s (ie_job e)) = Buried"
    using k' by (auto simp: fromBuriedToReady_def get_entry_eq split: option.splits if_splits)
  obtain je s1 where t: "ie_entry e = Some je" "on_tubes (\<lambda>ts. RemoveBuriedJob ts je) ?s = Some (s1, Inr je)"
      "taken i ?s s1"
    using take_buried [OF inv' e] by blast
  note t1 = taken_index [OF t(3)]
  have "jobs_inv (update_job s1 (ie_job e) ?f) {i}"
    by (rule jobs_inv_update) (use t1 e in \<open>simp_all add: job_simps\<close>)
  then obtain s2 where p: "enqueue_ready (update_job s1 (ie_job e) ?f) i e = Some (s2, Inr ())"
      "placed i e (update_job s1 (ie_job e) ?f) s2"
    using put_ready [of "update_job s1 (ie_job e) ?f" i e] t1 e by (auto simp: job_simps)
  have "s' = s2" using k' e t(1,2) p(1) by (simp add: fromBuriedToReady_def get_entry_eq)
  moreover have "State (?f (job_at ?s (ie_job e))) \<noteq> Deleted" by (simp add: job_simps)
  ultimately show ?thesis using moved_no_ghost [OF inv' t(3) p(2) _ g'] by blast
qed

end
