(* ===== verification/JSM_Clients.thy ===== *)
theory JSM_Clients
  imports JSM_Jobs
begin

text \<open>
  The clients of the state machine: the index of clients, the heap of clients by the time
  they need processing, and the wait queues of the tubes agree with each other, and every
  client that waits or holds a job is in the heap early enough. The operations on clients
  keep this and leave the jobs alone.
\<close>

section \<open>Frames\<close>

text \<open>What the operations on clients leave alone.\<close>

definition same_jobs :: "localJSM \<Rightarrow> localJSM \<Rightarrow> bool" where
  "same_jobs s s' \<longleftrightarrow>
     m_jobs (jsm_mem s') = m_jobs (jsm_mem s) \<and> m_entries (jsm_mem s') = m_entries (jsm_mem s) \<and>
     m_next (jsm_mem s) \<le> m_next (jsm_mem s') \<and> jobs s' = jobs s \<and> heaps s' = heaps s \<and>
     nextDelayTickAt s' = nextDelayTickAt s \<and> maxJobID s' = maxJobID s"

lemma same_jobs_refl [simp]: "same_jobs s s"
  by (simp add: same_jobs_def)

lemma same_jobs_trans: "same_jobs s t \<Longrightarrow> same_jobs t u \<Longrightarrow> same_jobs s u"
  by (auto simp: same_jobs_def)

lemma same_jobs_views: "same_jobs s s' \<Longrightarrow> job_views s' = job_views s"
  by (simp add: same_jobs_def job_views_def)

lemma same_jobs_inv:
  assumes "same_jobs s s'" and "jobs_inv s X" and "waits_wf (jsm_mem s') (tubes s')"
  shows "jobs_inv s' X"
proof -
  have "jinv (jsm_mem s') (ji_m (jobs s)) (heaps s) X"
    by (rule jinv_mem [of "jsm_mem s"]) (use assms in \<open>auto simp: same_jobs_def jobs_inv_def\<close>)
  then show ?thesis using assms by (simp add: same_jobs_def jobs_inv_def)
qed

lemma same_jobs_job_of: "same_jobs s s' \<Longrightarrow> job_of (jsm_mem s') = job_of (jsm_mem s)"
  by (auto simp: same_jobs_def job_of_def fun_eq_iff)

section \<open>Wait queues\<close>

definition same_heaps :: "tubeIndex \<Rightarrow> tubeIndex \<Rightarrow> bool" where
  "same_heaps ti ti' \<longleftrightarrow> (\<forall>ri. heap_at ti' ri = heap_at ti ri)"

lemma same_heaps_trans: "same_heaps ti ti' \<Longrightarrow> same_heaps ti' ti'' \<Longrightarrow> same_heaps ti ti''"
  by (simp add: same_heaps_def)

lemma same_heaps_waiting:
  "tube_at ti1 = tube_at ti \<Longrightarrow> same_heaps ti (mput ti1 t ((tube_at ti t)\<lparr>waiting := q\<rparr>))"
  by (simp add: same_heaps_def fun_eq_iff all_loc)

lemma waiters_exists: "waiters ti t \<noteq> [] \<Longrightarrow> mget ti t = Some (tube_at ti t)"
  by (auto simp: waiters_def tube_at_def split: option.splits)

lemma unwatch_ok:
  assumes "waits_wf m ti" and "distinct ts" and "\<And>t. t \<in> set ts \<Longrightarrow> cli \<in> set (waiters ti t)"
  shows "\<exists>ti'. unwatch m ti cli ts = Some ti' \<and> waits_wf m ti' \<and> same_heaps ti ti' \<and>
           dom (mget ti') = dom (mget ti) \<and>
           (\<forall>t. waiters ti' t = (if t \<in> set ts then remove1 cli (waiters ti t) else waiters ti t))"
  using assms
proof (induction ts arbitrary: ti)
  case Nil
  then show ?case by (simp add: same_heaps_def)
next
  case (Cons t ts)
  let ?q = "waiting (tube_at ti t)"
  have c: "cli \<in> set (q_items ?q)" and wf: "q_wf m ?q"
    using Cons.prems by (auto simp: waiters_def waits_wf_def)
  obtain q r where r: "clientResvQueue_Remove m ?q cli = (q, r)" by fastforce
  note q = cq.Remove_items [OF wf c r]
  let ?ti = "mput ti t ((tube_at ti t)\<lparr>waiting := q\<rparr>)"
  have "waiters ti t \<noteq> []" using c by (auto simp: waiters_def)
  then have ex: "mget ti t = Some (tube_at ti t)" by (rule waiters_exists)
  have w: "waiters ?ti t' = (if t' = t then remove1 cli (waiters ti t) else waiters ti t')" for t'
    using q(1) by (simp add: waiters_def)
  have wf': "waits_wf m ?ti" using Cons.prems(1) q(2) by (simp add: waits_wf_def)
  have d: "distinct ts" and t: "t \<notin> set ts" using Cons.prems(2) by auto
  have "cli \<in> set (waiters ?ti u)" if "u \<in> set ts" for u
    using Cons.prems(3) [of u] that t unfolding w by auto
  from Cons.IH [OF wf' d this]
  obtain ti' where ti': "unwatch m ?ti cli ts = Some ti'" "waits_wf m ti'" "same_heaps ?ti ti'"
      "dom (mget ti') = dom (mget ?ti)"
      "\<forall>u. waiters ti' u = (if u \<in> set ts then remove1 cli (waiters ?ti u) else waiters ?ti u)"
    by blast
  show ?case
  proof (intro exI [of _ ti'] conjI allI)
    show "unwatch m ti cli (t # ts) = Some ti'" using ex r q(3) ti'(1) by simp
    show "waits_wf m ti'" by (fact ti'(2))
    show "same_heaps ti ti'" using same_heaps_trans [OF same_heaps_waiting ti'(3)] by simp
    show "dom (mget ti') = dom (mget ti)" using ex ti'(4) by (auto simp: dom_def)
    show "waiters ti' u = (if u \<in> set (t # ts) then remove1 cli (waiters ti u) else waiters ti u)" for u
      using ti'(5) w t by simp
  qed
qed

lemma wait_on_ok:
  assumes "waits_wf m ti" and "distinct ts"
    and "\<And>t. t \<in> set ts \<Longrightarrow> cli_id m cli \<notin> cli_id m ` set (waiters ti t)"
  shows "\<exists>ti'. wait_on m ti cli ts = Some ti' \<and> waits_wf m ti' \<and> same_heaps ti ti' \<and>
           dom (mget ti') = dom (mget ti) \<union> set ts \<and>
           (\<forall>t. waiters ti' t = (if t \<in> set ts then waiters ti t @ [cli] else waiters ti t))"
  using assms
proof (induction ts arbitrary: ti)
  case Nil
  then show ?case by (simp add: same_heaps_def)
next
  case (Cons t ts)
  let ?q = "waiting (tube_at ti t)"
  have c: "cli_id m cli \<notin> cli_id m ` set (q_items ?q)" and wf: "q_wf m ?q"
    using Cons.prems by (auto simp: waiters_def waits_wf_def)
  obtain q r where r: "clientResvQueue_Enqueue m ?q cli = (q, r)" by fastforce
  have q: "q_wf m q" "q_items q = q_items ?q @ [cli]" "r = None"
    using cq.Enqueue_cases [OF wf r] c by auto
  obtain ti1 where ti1: "getByName ti t True = (ti1, Inr (tube_at ti t))" "tube_at ti1 = tube_at ti"
      "dom (mget ti1) = insert t (dom (mget ti))"
    using getByName_create by blast
  let ?ti = "mput ti1 t ((tube_at ti t)\<lparr>waiting := q\<rparr>)"
  have w: "waiters ?ti t' = (if t' = t then waiters ti t @ [cli] else waiters ti t')" for t'
    using q(2) ti1(2) by (simp add: waiters_def)
  have wf': "waits_wf m ?ti" using Cons.prems(1) q(1) ti1(2) by (simp add: waits_wf_def)
  have d: "distinct ts" and t: "t \<notin> set ts" using Cons.prems(2) by auto
  have "cli_id m cli \<notin> cli_id m ` set (waiters ?ti u)" if "u \<in> set ts" for u
    using Cons.prems(3) [of u] that t unfolding w by auto
  from Cons.IH [OF wf' d this]
  obtain ti' where ti': "wait_on m ?ti cli ts = Some ti'" "waits_wf m ti'" "same_heaps ?ti ti'"
      "dom (mget ti') = dom (mget ?ti) \<union> set ts"
      "\<forall>u. waiters ti' u = (if u \<in> set ts then waiters ?ti u @ [cli] else waiters ?ti u)"
    by blast
  show ?case
  proof (intro exI [of _ ti'] conjI allI)
    have "EnqueueToWaitQ m ti t cli = (?ti, None)" using ti1 r q(3) by (simp add: EnqueueToWaitQ_def)
    then show "wait_on m ti cli (t # ts) = Some ti'" using ti'(1) by simp
    show "waits_wf m ti'" by (fact ti'(2))
    show "same_heaps ti ti'" using same_heaps_trans [OF same_heaps_waiting [OF ti1(2)] ti'(3)] .
    show "dom (mget ti') = dom (mget ti) \<union> set (t # ts)" using ti1(3) ti'(4) by (auto simp: dom_def)
    show "waiters ti' u = (if u \<in> set (t # ts) then waiters ti u @ [cli] else waiters ti u)" for u
      using ti'(5) w t by simp
  qed
qed

section \<open>The invariant of the clients\<close>

definition cinv :: "localJSM \<Rightarrow> bool" where
  "cinv s \<longleftrightarrow>
     q_wf (jsm_mem s) (clients s) \<and> waits_wf (jsm_mem s) (tubes s) \<and>
     ch_wf (jsm_mem s, clientHeap s) \<and> ch_ordered (jsm_mem s, clientHeap s) \<and>
     set (clientHeap s) \<subseteq> set (q_items (clients s)) \<and>
     (\<forall>c \<in> set (q_items (clients s)).
        c < m_next (jsm_mem s) \<and> (c \<in> set (clientHeap s) \<or> HeapIndex (cli_at s c) = -1) \<and>
        (IsWaitingForResv (cli_at s c) \<longrightarrow>
           distinct (WatchedTubes (cli_at s c)) \<and> ResvDeadlineAt (cli_at s c) < maxTime \<and>
           (\<forall>t \<in> set (WatchedTubes (cli_at s c)). c \<in> set (waiters (tubes s) t)))) \<and>
     (\<forall>t. \<forall>c \<in> set (waiters (tubes s) t).
        c \<in> set (q_items (clients s)) \<and> IsWaitingForResv (cli_at s c) \<and>
        t \<in> set (WatchedTubes (cli_at s c)))"

text \<open>
  Every waiting client is in the heap no later than its deadline, and every holder of a
  reserved job no later than the reservation expires; \<open>E\<close> are clients an operation is
  working on.
\<close>

definition tinv :: "localJSM \<Rightarrow> ref set \<Rightarrow> bool" where
  "tinv s E \<longleftrightarrow>
     (\<forall>c \<in> set (q_items (clients s)) - E. IsWaitingForResv (cli_at s c) \<longrightarrow>
        c \<in> set (clientHeap s) \<and> TickAt (cli_at s c) \<le> ResvDeadlineAt (cli_at s c)) \<and>
     (\<forall>i v. job_views s i = Some v \<and> state v = Reserved \<longrightarrow>
        reservedBy v \<in> cli_id (jsm_mem s) ` E \<or>
        (\<exists>c \<in> set (clientHeap s). cli_id (jsm_mem s) c = reservedBy v \<and>
           TickAt (cli_at s c) \<le> expiresAt v))"

text \<open>Clocks and times to run that keep all sums within 64 bits.\<close>

definition sane_time :: "int64 \<Rightarrow> bool" where
  "sane_time now \<longleftrightarrow> 0 \<le> now \<and> now < 2 ^ 62"

definition sane_ttr :: "int64 \<Rightarrow> bool" where
  "sane_ttr x \<longleftrightarrow> - (2 ^ 62) < x \<and> x < 2 ^ 62"

definition sane :: "localJSM \<Rightarrow> bool" where
  "sane s \<longleftrightarrow>
     (\<forall>i v. job_views s i = Some v \<longrightarrow> sane_ttr (ttr v) \<and>
        (state v = Reserved \<longrightarrow> - (2 ^ 62) < expiresAt v \<and> expiresAt v < maxTime))"

lemma sane_sum: "sane_time now \<Longrightarrow> sane_ttr x \<Longrightarrow> wrap64 (now + x) = now + x"
  by (rule wrap64_id) (simp add: sane_time_def sane_ttr_def in_int64_def)

lemma cinvD:
  assumes "cinv s"
  shows "q_wf (jsm_mem s) (clients s)" and "waits_wf (jsm_mem s) (tubes s)"
    and "ch_wf (jsm_mem s, clientHeap s)" and "ch_ordered (jsm_mem s, clientHeap s)"
    and "set (clientHeap s) \<subseteq> set (q_items (clients s))"
    and "c \<in> set (q_items (clients s)) \<Longrightarrow> c < m_next (jsm_mem s)"
    and "c \<in> set (q_items (clients s)) \<Longrightarrow> c \<in> set (clientHeap s) \<or> HeapIndex (cli_at s c) = -1"
    and "c \<in> set (q_items (clients s)) \<Longrightarrow> IsWaitingForResv (cli_at s c) \<Longrightarrow>
           distinct (WatchedTubes (cli_at s c)) \<and> ResvDeadlineAt (cli_at s c) < maxTime"
    and "c \<in> set (q_items (clients s)) \<Longrightarrow> IsWaitingForResv (cli_at s c) \<Longrightarrow>
           t \<in> set (WatchedTubes (cli_at s c)) \<Longrightarrow> c \<in> set (waiters (tubes s) t)"
    and "c \<in> set (waiters (tubes s) t) \<Longrightarrow> c \<in> set (q_items (clients s)) \<and>
           IsWaitingForResv (cli_at s c) \<and> t \<in> set (WatchedTubes (cli_at s c))"
  using assms unfolding cinv_def by blast+

lemma cinv_HeapIndex:
  assumes "cinv s" and "c \<in> set (q_items (clients s))"
  shows "HeapIndex (cli_at s c) < 0 \<longleftrightarrow> c \<notin> set (clientHeap s)"
proof (cases "c \<in> set (clientHeap s)")
  case True
  then obtain i where "HeapIndex (cli_at s c) = int i"
    using ch_wf_index [OF cinvD(3) [OF assms(1)]] by metis
  then show ?thesis using True by simp
next
  case False
  then show ?thesis using cinvD(7) [OF assms] by simp
qed

lemma cinv_same_id:
  assumes "cinv s" and "c \<in> set (q_items (clients s))" and "d \<in> set (q_items (clients s))"
    and "cli_id (jsm_mem s) c = cli_id (jsm_mem s) d"
  shows "c = d"
  using cinvD(1) [OF assms(1)] assms(2-4)
  by (auto simp: q_wf_def Let_def distinct_map dest: inj_onD)

text \<open>Only heap indices and processing times differ.\<close>

definition cli_same :: "localJSM \<Rightarrow> localJSM \<Rightarrow> bool" where
  "cli_same s s' \<longleftrightarrow>
     (\<forall>c. CliID (cli_at s' c) = CliID (cli_at s c) \<and> WatchedTubes (cli_at s' c) = WatchedTubes (cli_at s c) \<and>
        ResvDeadlineAt (cli_at s' c) = ResvDeadlineAt (cli_at s c) \<and>
        IsWaitingForResv (cli_at s' c) = IsWaitingForResv (cli_at s c) \<and>
        ReqID (cli_at s' c) = ReqID (cli_at s c))"

lemma cli_same_trans: "cli_same s t \<Longrightarrow> cli_same t u \<Longrightarrow> cli_same s u"
  by (simp add: cli_same_def)

lemma waits_wf_ids:
  assumes "waits_wf m ti" and "\<And>c. cli_id m' c = cli_id m c"
  shows "waits_wf m' ti"
  using assms q_wf_cong unfolding waits_wf_def by blast

lemma cinv_heap:
  assumes inv: "cinv s" and same: "cli_same s s'" and "clients s' = clients s" and "tubes s' = tubes s"
    and "m_next (jsm_mem s') = m_next (jsm_mem s)"
    and "ch_wf (jsm_mem s', clientHeap s')" and "ch_ordered (jsm_mem s', clientHeap s')"
    and "set (clientHeap s') \<subseteq> set (q_items (clients s))"
    and "\<And>c. c \<in> set (q_items (clients s)) \<Longrightarrow> c \<in> set (clientHeap s') \<or> HeapIndex (cli_at s' c) = -1"
  shows "cinv s'"
proof -
  have sel: "WatchedTubes (cli_at s' c) = WatchedTubes (cli_at s c)"
      "ResvDeadlineAt (cli_at s' c) = ResvDeadlineAt (cli_at s c)"
      "IsWaitingForResv (cli_at s' c) = IsWaitingForResv (cli_at s c)" for c
    using same by (simp_all add: cli_same_def)
  have ids: "cli_id (jsm_mem s') c = cli_id (jsm_mem s) c" for c using same by (simp add: cli_same_def)
  have "q_wf (jsm_mem s') (clients s)" using q_wf_cong cinvD(1) [OF inv] ids by blast
  moreover have "waits_wf (jsm_mem s') (tubes s)" using waits_wf_ids cinvD(2) [OF inv] ids by blast
  ultimately show ?thesis
    using inv assms(6-9) unfolding cinv_def assms(3-5) sel by blast
qed

section \<open>When a client is processed next\<close>

lemma reserved_root:
  assumes inv: "jobs_inv s {}" and p: "jsm_NextReservedJob s c = Inr e"
  shows "job_views s (ID (job_of (jsm_mem s) e)) = Some (view (job_of (jsm_mem s) e))"
    and "state (view (job_of (jsm_mem s) e)) = Reserved" and "reservedBy (view (job_of (jsm_mem s) e)) = c"
    and "\<And>i v. job_views s i = Some v \<Longrightarrow> state v = Reserved \<Longrightarrow> reservedBy v = c \<Longrightarrow>
           expiresAt (view (job_of (jsm_mem s) e)) \<le> expiresAt v"
proof -
  have pk: "jobHeap_Peek (heaps s (LReserved c)) = Some e"
    using p next_job_peek(4) [of s c] by (simp add: jsm_NextReservedJob_def split: option.splits)
  have g: "\<not> has_ghost s (LReserved c)" using ghosts_are_buried [OF inv] by fastforce
  note l = peek_least [OF inv g pk]
  show "job_views s (ID (job_of (jsm_mem s) e)) = Some (view (job_of (jsm_mem s) e))" by (fact l(1))
  show st: "state (view (job_of (jsm_mem s) e)) = Reserved" "reservedBy (view (job_of (jsm_mem s) e)) = c"
    using l(2) by (cases "state (view (job_of (jsm_mem s) e))"; simp add: loc_of_def)+
  fix i v assume "job_views s i = Some v" "state v = Reserved" "reservedBy v = c"
  then show "expiresAt (view (job_of (jsm_mem s) e)) \<le> expiresAt v"
    using l(3) [of i v] by (auto simp: loc_of_def less_eq_prod_def)
qed

lemma reserved_none:
  assumes inv: "jobs_inv s {}" and p: "jsm_NextReservedJob s c = Inl err"
  shows "err = ErrEntryMissing"
    and "job_views s i = Some v \<Longrightarrow> state v = Reserved \<Longrightarrow> reservedBy v \<noteq> c"
proof -
  have pk: "jobHeap_Peek (heaps s (LReserved c)) = None" and e: "err = ErrEntryMissing"
    using p next_job_peek(4) [of s c] by (auto simp: jsm_NextReservedJob_def split: option.splits)
  show "err = ErrEntryMissing" by (fact e)
  show "reservedBy v \<noteq> c" if "job_views s i = Some v" "state v = Reserved"
  proof
    assume "reservedBy v = c"
    then have "i \<in> ids_at (job_views s) (LReserved c)" using that by (simp add: ids_at_def loc_of_def)
    then show False using peek_none(1) [OF inv pk] by simp
  qed
qed

lemma next_tick_bounds:
  assumes inv: "jobs_inv s {}" and sane: "sane s"
  shows "next_tick s c \<le> maxTime"
    and "IsWaitingForResv (cli_at s c) \<Longrightarrow> next_tick s c \<le> ResvDeadlineAt (cli_at s c)"
    and "job_views s i = Some v \<Longrightarrow> state v = Reserved \<Longrightarrow> reservedBy v = CliID (cli_at s c) \<Longrightarrow>
           next_tick s c \<le> expiresAt v"
proof -
  show "next_tick s c \<le> maxTime"
    by (auto simp: next_tick_def Let_def minTime_def split: sum.splits)
  show "IsWaitingForResv (cli_at s c) \<Longrightarrow> next_tick s c \<le> ResvDeadlineAt (cli_at s c)"
    by (auto simp: next_tick_def Let_def minTime_def split: sum.splits)
  assume v: "job_views s i = Some v" "state v = Reserved" "reservedBy v = CliID (cli_at s c)"
  show "next_tick s c \<le> expiresAt v"
  proof (cases "jsm_NextReservedJob s (CliID (cli_at s c))")
    case (Inl err)
    then show ?thesis using reserved_none(2) [OF inv Inl v(1,2)] v(3) by simp
  next
    case (Inr e)
    let ?x = "expiresAt (view (job_of (jsm_mem s) e))"
    note r = reserved_root [OF inv Inr]
    have "?x \<le> expiresAt v" using r(4) [OF v] .
    moreover have "- (2 ^ 62) < ?x \<and> ?x < maxTime" using sane r(1,2) unfolding sane_def by blast
    then have "wrap64 (?x - 1) = ?x - 1" by (intro wrap64_id) (simp add: in_int64_def maxTime_def)
    ultimately show ?thesis using Inr
      by (auto simp: next_tick_def Let_def minTime_def getter_view)
  qed
qed

text \<open>A client with nothing due before \<open>now\<close> is not processed before \<open>now\<close>.\<close>

lemma next_tick_later:
  assumes inv: "jobs_inv s {}" and "now \<le> maxTime"
    and "IsWaitingForResv (cli_at s c) \<Longrightarrow> now \<le> ResvDeadlineAt (cli_at s c)"
    and "\<And>e. jsm_NextReservedJob s (CliID (cli_at s c)) = Inr e \<Longrightarrow> now \<le> ExpiresAt (job_of (jsm_mem s) e)"
    and "\<And>e. jsm_NextReservedJob s (CliID (cli_at s c)) = Inr e \<Longrightarrow> IsWaitingForResv (cli_at s c) \<Longrightarrow>
           now \<le> wrap64 (ExpiresAt (job_of (jsm_mem s) e) - 1)"
  shows "now \<le> next_tick s c"
  using assms(2-5)
  by (auto simp: next_tick_def Let_def minTime_def split: sum.splits)

section \<open>Updating the time of a client\<close>

lemma update_cli_sel [simp]:
  "jobs (update_cli s c f) = jobs s" "tubes (update_cli s c f) = tubes s"
  "reservedJobs (update_cli s c f) = reservedJobs s" "clients (update_cli s c f) = clients s"
  "clientHeap (update_cli s c f) = clientHeap s" "nextDelayTickAt (update_cli s c f) = nextDelayTickAt s"
  "maxJobID (update_cli s c f) = maxJobID s" "stat (update_cli s c f) = stat s"
  "m_jobs (jsm_mem (update_cli s c f)) = m_jobs (jsm_mem s)"
  "m_entries (jsm_mem (update_cli s c f)) = m_entries (jsm_mem s)"
  "m_next (jsm_mem (update_cli s c f)) = m_next (jsm_mem s)"
  "m_clients (jsm_mem (update_cli s c f)) = (m_clients (jsm_mem s))(c := f (cli_at s c))"
  by (simp_all add: update_cli_def upd_client_def)

text \<open>
  \<open>retimed c n s s'\<close>: the client \<open>c\<close> is in the heap with the time \<open>n\<close>, the others are as
  they were.
\<close>

definition retimed :: "ref \<Rightarrow> int64 \<Rightarrow> localJSM \<Rightarrow> localJSM \<Rightarrow> bool" where
  "retimed c n s s' \<longleftrightarrow>
     same_jobs s s' \<and> cli_same s s' \<and> clients s' = clients s \<and> tubes s' = tubes s \<and>
     reservedJobs s' = reservedJobs s \<and> stat s' = stat s \<and> m_next (jsm_mem s') = m_next (jsm_mem s) \<and>
     set (clientHeap s') = insert c (set (clientHeap s)) \<and> TickAt (cli_at s' c) = n \<and>
     (\<forall>d. d \<noteq> c \<longrightarrow> TickAt (cli_at s' d) = TickAt (cli_at s d)) \<and>
     (\<forall>d. d \<notin> insert c (set (clientHeap s)) \<longrightarrow> cli_at s' d = cli_at s d)"

lemma same_jobs_mem:
  "m_jobs m = m_jobs (jsm_mem s) \<Longrightarrow> m_entries m = m_entries (jsm_mem s) \<Longrightarrow>
   m_next m = m_next (jsm_mem s) \<Longrightarrow> same_jobs s (s\<lparr>jsm_mem := m, clientHeap := h\<rparr>)"
  by (simp add: same_jobs_def)

lemma enqueue_client:
  fixes n :: int64
  assumes inv: "cinv s" and c: "c \<in> set (q_items (clients s))" "c \<notin> set (clientHeap s)"
  defines "s1 \<equiv> update_cli s c (\<lambda>e. e\<lparr>TickAt := n\<rparr>)"
  shows "\<exists>m h. clientResvHeap_Enqueue (jsm_mem s1, clientHeap s1) c = (m, h) \<and>
           retimed c n s (s1\<lparr>jsm_mem := m, clientHeap := h\<rparr>) \<and> cinv (s1\<lparr>jsm_mem := m, clientHeap := h\<rparr>)"
proof -
  obtain m h where e: "clientResvHeap_Enqueue (jsm_mem s1, clientHeap s) c = (m, h)" by fastforce
  have same1: "cli_at s1 x = (if x = c then (cli_at s c)\<lparr>TickAt := n\<rparr> else cli_at s x)" for x
    by (simp add: s1_def)
  have keys: "ch_key (jsm_mem s1, clientHeap s) x = ch_key (jsm_mem s, clientHeap s) x"
    if "x \<in> set (clientHeap s)" for x
    using that c(2) same1 by (auto simp: ch_key_def)
  have "HeapIndex (cli_at s1 x) = HeapIndex (cli_at s x)" for x using same1 by simp
  then have wf1: "ch_wf (jsm_mem s1, clientHeap s)" using cinvD(3) [OF inv] by (simp add: ch_wf_def ch_elems_def)
  have ord1: "ch_ordered (jsm_mem s1, clientHeap s)"
    using cinvD(4) [OF inv] heap_ordered_cong [of "clientHeap s", OF keys] by (simp add: ch_ordered_def ch_elems_def)
  have ins: "mset h = add_mset c (mset (clientHeap s))" "ch_wf (m, h)" "ch_ordered (m, h)"
      "same_but_heap_index (insert c (set (clientHeap s))) (jsm_mem s1) m"
    using clientResvHeap_Enqueue_correct [OF wf1 c(2)] e ord1
    by (auto simp: ch_inserted_def ch_elems_def ch_fr_def)
  have h: "set h = insert c (set (clientHeap s))" using ins(1) by (metis set_mset_add_mset_insert set_mset_mset)
  note sb = same_but_heap_indexD [OF ins(4)]
  have r: "retimed c n s (s1\<lparr>jsm_mem := m, clientHeap := h\<rparr>)"
  proof -
    have "cli_at (s1\<lparr>jsm_mem := m, clientHeap := h\<rparr>) x = cli_at s x" if "x \<notin> insert c (set (clientHeap s))" for x
      using sb(11) [OF that] same1 that by simp
    moreover have "cli_same s (s1\<lparr>jsm_mem := m, clientHeap := h\<rparr>)"
      using sb(1-6) same1 by (simp add: cli_same_def)
    moreover have "same_jobs s (s1\<lparr>jsm_mem := m, clientHeap := h\<rparr>)"
      using sb(8-10) by (simp add: same_jobs_def s1_def)
    moreover have "TickAt (m_clients m x) = (if x = c then n else TickAt (cli_at s x))" for x
      using sb(5) [of x] same1 [of x] by simp
    ultimately show ?thesis using h sb(10) by (simp add: retimed_def s1_def)
  qed
  have "cinv (s1\<lparr>jsm_mem := m, clientHeap := h\<rparr>)"
  proof (rule cinv_heap [OF inv])
    show "cli_same s (s1\<lparr>jsm_mem := m, clientHeap := h\<rparr>)" using r by (simp add: retimed_def)
    fix x assume x: "x \<in> set (q_items (clients s))"
    show "x \<in> set (clientHeap (s1\<lparr>jsm_mem := m, clientHeap := h\<rparr>)) \<or>
        HeapIndex (cli_at (s1\<lparr>jsm_mem := m, clientHeap := h\<rparr>) x) = -1"
    proof (cases "x \<in> insert c (set (clientHeap s))")
      case False
      then show ?thesis using cinvD(7) [OF inv x] sb(11) [OF False] same1 [of x] by auto
    qed (simp add: h)
  qed (use r ins h cinvD(5) [OF inv] c(1) in \<open>auto simp: retimed_def s1_def\<close>)
  with r e show ?thesis by (auto simp: s1_def)
qed

lemma retime_client:
  assumes inv: "cinv s" and c: "c \<in> set (clientHeap s)"
  shows "\<exists>m h. clientResvHeap_UpdateTickAt (jsm_mem s, clientHeap s) c n = Some (m, h) \<and>
           retimed c n s (s\<lparr>jsm_mem := m, clientHeap := h\<rparr>) \<and> cinv (s\<lparr>jsm_mem := m, clientHeap := h\<rparr>)"
proof -
  let ?m1 = "upd_client (jsm_mem s) c (\<lambda>e. e\<lparr>TickAt := n\<rparr>)"
  obtain m h where u: "clientResvHeap_UpdateTickAt (jsm_mem s, clientHeap s) c n = Some (m, h)"
      "mset h = mset (clientHeap s)" "ch_wf (m, h)" "same_but_heap_index (set (clientHeap s)) ?m1 m"
      "ch_ordered (m, h)"
    using clientResvHeap_UpdateTickAt_correct [OF cinvD(3) [OF inv] c, of n] cinvD(4) [OF inv] by blast
  have h: "set h = set (clientHeap s)" using u(2) by (metis set_mset_mset)
  note sb = same_but_heap_indexD [OF u(4)]
  have same1: "m_clients ?m1 x = (if x = c then (cli_at s c)\<lparr>TickAt := n\<rparr> else cli_at s x)"
      "m_jobs ?m1 = m_jobs (jsm_mem s)" "m_entries ?m1 = m_entries (jsm_mem s)" "m_next ?m1 = m_next (jsm_mem s)" for x
    by (simp_all add: upd_client_def)
  have r: "retimed c n s (s\<lparr>jsm_mem := m, clientHeap := h\<rparr>)"
  proof -
    have "cli_at (s\<lparr>jsm_mem := m, clientHeap := h\<rparr>) x = cli_at s x" if "x \<notin> set (clientHeap s)" for x
      using sb(11) [OF that] same1(1) [of x] that c by auto
    moreover have "cli_same s (s\<lparr>jsm_mem := m, clientHeap := h\<rparr>)"
      using sb(1-6) same1(1) by (simp add: cli_same_def)
    moreover have "same_jobs s (s\<lparr>jsm_mem := m, clientHeap := h\<rparr>)"
      using sb(8-10) same1(2-4) by (simp add: same_jobs_def)
    moreover have "TickAt (m_clients m x) = (if x = c then n else TickAt (cli_at s x))" for x
      using sb(5) [of x] same1(1) [of x] by simp
    ultimately show ?thesis using h sb(10) same1(4) c by (simp add: retimed_def insert_absorb)
  qed
  have "cinv (s\<lparr>jsm_mem := m, clientHeap := h\<rparr>)"
  proof (rule cinv_heap [OF inv])
    show "cli_same s (s\<lparr>jsm_mem := m, clientHeap := h\<rparr>)" using r by (simp add: retimed_def)
    fix x assume x: "x \<in> set (q_items (clients s))"
    show "x \<in> set (clientHeap (s\<lparr>jsm_mem := m, clientHeap := h\<rparr>)) \<or>
        HeapIndex (cli_at (s\<lparr>jsm_mem := m, clientHeap := h\<rparr>) x) = -1"
    proof (cases "x \<in> set (clientHeap s)")
      case False
      then show ?thesis using cinvD(7) [OF inv x] sb(11) [OF False] same1(1) [of x] c by auto
    qed (simp add: h)
  qed (use r u h cinvD(5) [OF inv] in \<open>auto simp: retimed_def\<close>)
  with r u(1) show ?thesis by auto
qed

lemma retimed_tinv:
  assumes cinv: "cinv s" "cinv s'" and t: "tinv s {c}" and r: "retimed c n s s'"
    and n: "IsWaitingForResv (cli_at s c) \<Longrightarrow> n \<le> ResvDeadlineAt (cli_at s c)"
      "\<And>i v. job_views s i = Some v \<Longrightarrow> state v = Reserved \<Longrightarrow> reservedBy v = CliID (cli_at s c) \<Longrightarrow>
         n \<le> expiresAt v"
  shows "tinv s' {}"
proof -
  have r': "same_jobs s s'" "clients s' = clients s" "set (clientHeap s') = insert c (set (clientHeap s))"
      "TickAt (cli_at s' c) = n" "\<And>d. d \<noteq> c \<Longrightarrow> TickAt (cli_at s' d) = TickAt (cli_at s d)"
    using r by (auto simp: retimed_def)
  have sel: "CliID (cli_at s' d) = CliID (cli_at s d)" "ResvDeadlineAt (cli_at s' d) = ResvDeadlineAt (cli_at s d)"
      "IsWaitingForResv (cli_at s' d) = IsWaitingForResv (cli_at s d)" for d
    using r by (auto simp: retimed_def cli_same_def)
  have v: "job_views s' = job_views s" using same_jobs_views [OF r'(1)] .
  have w: "d \<in> set (clientHeap s') \<and> TickAt (cli_at s' d) \<le> ResvDeadlineAt (cli_at s' d)"
    if d: "d \<in> set (q_items (clients s'))" "IsWaitingForResv (cli_at s' d)" for d
  proof (cases "d = c")
    case True
    then show ?thesis using d n(1) r'(3,4) sel by auto
  next
    case False
    then show ?thesis using t d r'(2,3) r'(5) [OF False] sel unfolding tinv_def by auto
  qed
  have j: "\<exists>d\<in>set (clientHeap s'). cli_id (jsm_mem s') d = reservedBy v \<and> TickAt (cli_at s' d) \<le> expiresAt v"
    if iv: "job_views s i = Some v" "state v = Reserved" for i v
  proof (cases "reservedBy v = CliID (cli_at s c)")
    case True
    then show ?thesis using n(2) [OF iv] r'(3,4) sel(1) by auto
  next
    case False
    then obtain d where d: "d \<in> set (clientHeap s)" "cli_id (jsm_mem s) d = reservedBy v" "TickAt (cli_at s d) \<le> expiresAt v"
      using t iv unfolding tinv_def by blast
    then have "d \<noteq> c" using False by auto
    then show ?thesis using d r'(3) r'(5) [of d] sel(1) by auto
  qed
  show ?thesis unfolding tinv_def v using w j by blast
qed

text \<open>
  \<open>ticked c s s'\<close>: what \<^verbatim>\<open>updateClientTickAt\<close> does. The client is in the heap with its
  next time, or it has nothing left to wait for and is in the heap no more.
\<close>

definition ticked :: "ref \<Rightarrow> localJSM \<Rightarrow> localJSM \<Rightarrow> bool" where
  "ticked c s s' \<longleftrightarrow>
     same_jobs s s' \<and> cli_same s s' \<and> tubes s' = tubes s \<and> reservedJobs s' = reservedJobs s \<and>
     stat s' = stat s \<and> set (clientHeap s') \<subseteq> insert c (set (clientHeap s)) \<and>
     (\<forall>d. d \<noteq> c \<longrightarrow> TickAt (cli_at s' d) = TickAt (cli_at s d)) \<and>
     TickAt (cli_at s' c) = next_tick s c \<and>
     set (q_items (clients s')) \<subseteq> set (q_items (clients s)) \<and>
     set (q_items (clients s)) - {c} \<subseteq> set (q_items (clients s')) \<and>
     (c \<notin> set (clientHeap s') \<longrightarrow> maxTime \<le> next_tick s c)"

lemma drop_client:
  assumes inv: "cinv s" and c: "c \<in> set (clientHeap s)" and w: "\<not> IsWaitingForResv (cli_at s c)"
  shows "\<exists>m h q. clientResvHeap_Remove (jsm_mem s, clientHeap s) c = Some ((m, h), None) \<and>
           clientResvQueue_Remove m (clients s) c = (q, None) \<and>
           same_but_heap_index (set (clientHeap s)) (jsm_mem s) m \<and>
           set h = set (clientHeap s) - {c} \<and> set (q_items q) = set (q_items (clients s)) - {c} \<and>
           cinv (update_cli (s\<lparr>jsm_mem := m, clientHeap := h, clients := q\<rparr>) c (\<lambda>e. e\<lparr>TickAt := n\<rparr>))"
proof -
  have cc: "c \<in> set (q_items (clients s))" using cinvD(5) [OF inv] c by blast
  obtain t where t: "clientResvHeap_Remove (jsm_mem s, clientHeap s) c = Some (t, None)"
      "ch_removed (jsm_mem s, clientHeap s) c t"
    using clientResvHeap_Remove_correct [OF cinvD(3) [OF inv] c] by blast
  obtain m h where mh: "t = (m, h)" by fastforce
  have r: "mset (clientHeap s) = add_mset c (mset h)" "ch_wf (m, h)" "ch_ordered (m, h)"
      "same_but_heap_index (set (clientHeap s)) (jsm_mem s) m" "HeapIndex (m_clients m c) = -1"
    using t(2) mh cinvD(4) [OF inv] by (auto simp: ch_removed_def ch_elems_def ch_fr_def)
  have h: "set h = set (clientHeap s) - {c}"
  proof -
    have "distinct (clientHeap s)" using cinvD(3) [OF inv] by (simp add: ch_wf_def ch_elems_def)
    then have "distinct (c # h)" using r(1) by (metis mset.simps(2) mset_eq_imp_distinct_iff)
    moreover have "set (clientHeap s) = insert c (set h)"
      using r(1) by (metis set_mset_add_mset_insert set_mset_mset)
    ultimately show ?thesis by auto
  qed
  note sb = same_but_heap_indexD [OF r(4)]
  have qm: "q_wf m (clients s)" using q_wf_cong [OF cinvD(1) [OF inv]] sb(1) by blast
  obtain q e where q: "clientResvQueue_Remove m (clients s) c = (q, e)" by fastforce
  note qr = cq.Remove_items [OF qm cc q]
  have dq: "distinct (q_items (clients s))"
    using cinvD(1) [OF inv] distinct_map unfolding q_wf_def Let_def by blast
  then have qs: "set (q_items q) = set (q_items (clients s)) - {c}" using qr(1) by simp
  let ?s = "update_cli (s\<lparr>jsm_mem := m, clientHeap := h, clients := q\<rparr>) c (\<lambda>e. e\<lparr>TickAt := n\<rparr>)"
  have at: "cli_at ?s x = (if x = c then (m_clients m c)\<lparr>TickAt := n\<rparr> else m_clients m x)" for x by simp
  have ids: "cli_id (jsm_mem ?s) x = cli_id m x" for x by (simp add: at)
  have nw: "c \<notin> set (waiters (tubes s) u)" for u using cinvD(10) [OF inv] w by blast
  have wf': "q_wf (jsm_mem ?s) q" "waits_wf (jsm_mem ?s) (tubes s)"
    using q_wf_cong [OF qr(2)] ids waits_wf_ids [OF cinvD(2) [OF inv], of "jsm_mem ?s"] sb(1) by auto
  have ch': "ch_wf (jsm_mem ?s, h)"
    using r(2) unfolding ch_wf_def ch_elems_def by (auto simp: update_cli_def upd_client_def)
  have "heap_ordered (ch_key (jsm_mem ?s, h)) h = heap_ordered (ch_key (m, h)) h"
    by (rule heap_ordered_cong) (use h in \<open>auto simp: ch_key_def update_cli_def upd_client_def\<close>)
  then have co: "ch_ordered (jsm_mem ?s, h)" using r(3) by (simp add: ch_ordered_def ch_elems_def)
  have cl: "x < m_next (jsm_mem ?s) \<and> (x \<in> set h \<or> HeapIndex (cli_at ?s x) = -1) \<and>
      (IsWaitingForResv (cli_at ?s x) \<longrightarrow> distinct (WatchedTubes (cli_at ?s x)) \<and>
         ResvDeadlineAt (cli_at ?s x) < maxTime \<and>
         (\<forall>t \<in> set (WatchedTubes (cli_at ?s x)). x \<in> set (waiters (tubes s) t)))"
    if "x \<in> set (q_items q)" for x
  proof -
    have x: "x \<in> set (q_items (clients s))" "x \<noteq> c" using that qs by auto
    have "x \<in> set h \<or> HeapIndex (m_clients m x) = -1"
    proof (cases "x \<in> set (clientHeap s)")
      case False
      then show ?thesis using cinvD(7) [OF inv x(1)] sb(11) [OF False] by simp
    qed (use h x(2) in simp)
    then show ?thesis
      using x cinvD(6,8,9) [OF inv x(1)] sb(2-4,10) by (simp add: at)
  qed
  have wt: "x \<in> set (q_items q) \<and> IsWaitingForResv (cli_at ?s x) \<and> u \<in> set (WatchedTubes (cli_at ?s x))"
    if "x \<in> set (waiters (tubes s) u)" for x u
    using cinvD(10) [OF inv that] that nw qs sb(2,4) by (auto simp: at)
  have sel: "clients ?s = q" "tubes ?s = tubes s" "clientHeap ?s = h" by simp_all
  have "set h \<subseteq> set (q_items q)" using h qs cinvD(5) [OF inv] by auto
  then have "cinv ?s"
    unfolding cinv_def sel using wf' ch' co cl wt by blast
  then show ?thesis using t(1) mh q qr(3) r(4) h qs by auto
qed

text \<open>A client that neither waits nor holds a job does not matter.\<close>

lemma tinv_drop:
  assumes t: "tinv s {}" and v: "job_views s' = job_views s" and same: "cli_same s s'"
    and sub: "set (q_items (clients s')) \<subseteq> set (q_items (clients s))"
    and heap: "set (clientHeap s) - {c} \<subseteq> set (clientHeap s')"
    and other: "\<And>d. d \<noteq> c \<Longrightarrow> TickAt (cli_at s' d) = TickAt (cli_at s d)"
    and w: "\<not> IsWaitingForResv (cli_at s c)"
    and nores: "\<And>i v. job_views s i = Some v \<Longrightarrow> state v = Reserved \<Longrightarrow> reservedBy v \<noteq> CliID (cli_at s c)"
  shows "tinv s' {}"
proof -
  have sel: "CliID (cli_at s' d) = CliID (cli_at s d)" "ResvDeadlineAt (cli_at s' d) = ResvDeadlineAt (cli_at s d)"
      "IsWaitingForResv (cli_at s' d) = IsWaitingForResv (cli_at s d)" for d
    using same by (auto simp: cli_same_def)
  have a: "d \<in> set (clientHeap s') \<and> TickAt (cli_at s' d) \<le> ResvDeadlineAt (cli_at s' d)"
    if d: "d \<in> set (q_items (clients s'))" "IsWaitingForResv (cli_at s' d)" for d
  proof -
    have dc: "d \<noteq> c" using d(2) w sel(3) by auto
    have "d \<in> set (clientHeap s)" "TickAt (cli_at s d) \<le> ResvDeadlineAt (cli_at s d)"
      using t d sub sel(3) unfolding tinv_def by auto
    then show ?thesis using dc heap other [OF dc] sel(2) by auto
  qed
  have b: "\<exists>d\<in>set (clientHeap s'). cli_id (jsm_mem s') d = reservedBy v \<and> TickAt (cli_at s' d) \<le> expiresAt v"
    if iv: "job_views s i = Some v" "state v = Reserved" for i v
  proof -
    obtain d where d: "d \<in> set (clientHeap s)" "cli_id (jsm_mem s) d = reservedBy v" "TickAt (cli_at s d) \<le> expiresAt v"
      using t iv unfolding tinv_def by blast
    then have dc: "d \<noteq> c" using nores [OF iv] by auto
    then show ?thesis using d heap other [OF dc] sel(1) by auto
  qed
  show ?thesis unfolding tinv_def v using a b by blast
qed

lemma updateClientTickAt_ok:
  assumes jinv: "jobs_inv s {}" and sane: "sane s" and inv: "cinv s"
    and c: "c \<in> set (q_items (clients s))" and t: "tinv s {c}"
  shows "\<exists>s'. updateClientTickAt s c = Some s' \<and> ticked c s s' \<and> cinv s' \<and> tinv s' {}"
proof -
  let ?n = "next_tick s c"
  note b = next_tick_bounds [OF jinv sane, where c = c]
  note idx = cinv_HeapIndex [OF inv c]
  have ticked: "ticked c s s'" if "retimed c ?n s s'" for s'
    using that by (auto simp: ticked_def retimed_def)
  show ?thesis
  proof (cases "?n < maxTime")
    case True
    show ?thesis
    proof (cases "c \<in> set (clientHeap s)")
      case heap: True
      obtain m h where r: "clientResvHeap_UpdateTickAt (jsm_mem s, clientHeap s) c ?n = Some (m, h)"
          "retimed c ?n s (s\<lparr>jsm_mem := m, clientHeap := h\<rparr>)" "cinv (s\<lparr>jsm_mem := m, clientHeap := h\<rparr>)"
        using retime_client [OF inv heap] by blast
      have "updateClientTickAt s c = Some (s\<lparr>jsm_mem := m, clientHeap := h\<rparr>)"
        using True heap idx r(1) by (simp add: updateClientTickAt_def)
      moreover have "tinv (s\<lparr>jsm_mem := m, clientHeap := h\<rparr>) {}"
        by (rule retimed_tinv [OF inv r(3) t r(2)]) (use b in auto)
      ultimately show ?thesis using ticked [OF r(2)] r(3) by blast
    next
      case heap: False
      let ?s1 = "update_cli s c (\<lambda>e. e\<lparr>TickAt := ?n\<rparr>)"
      obtain m h where r: "clientResvHeap_Enqueue (jsm_mem ?s1, clientHeap ?s1) c = (m, h)"
          "retimed c ?n s (?s1\<lparr>jsm_mem := m, clientHeap := h\<rparr>)" "cinv (?s1\<lparr>jsm_mem := m, clientHeap := h\<rparr>)"
        using enqueue_client [OF inv c heap] by blast
      have "updateClientTickAt s c = Some (?s1\<lparr>jsm_mem := m, clientHeap := h\<rparr>)"
        using True heap idx r(1) by (simp add: updateClientTickAt_def)
      moreover have "tinv (?s1\<lparr>jsm_mem := m, clientHeap := h\<rparr>) {}"
        by (rule retimed_tinv [OF inv r(3) t r(2)]) (use b in auto)
      ultimately show ?thesis using ticked [OF r(2)] r(3) by blast
    qed
  next
    case False
    then have w: "\<not> IsWaitingForResv (cli_at s c)" using b(2) cinvD(8) [OF inv c] by linarith
    have nores: "reservedBy v \<noteq> CliID (cli_at s c)" if "job_views s i = Some v" "state v = Reserved" for i v
    proof -
      have "expiresAt v < maxTime" using sane that unfolding sane_def by blast
      then show ?thesis using b(3) [OF that] False by linarith
    qed
    have t0: "tinv s {}"
    proof -
      have "reservedBy v \<notin> cli_id (jsm_mem s) ` {c}" if "job_views s i = Some v \<and> state v = Reserved" for i v
        using nores that by auto
      moreover have "d \<in> set (q_items (clients s)) - {c}"
        if "d \<in> set (q_items (clients s)) - {}" "IsWaitingForResv (cli_at s d)" for d
        using that w by auto
      ultimately show ?thesis using t unfolding tinv_def by metis
    qed
    show ?thesis
    proof (cases "c \<in> set (clientHeap s)")
      case heap: True
      obtain m h q where r: "clientResvHeap_Remove (jsm_mem s, clientHeap s) c = Some ((m, h), None)"
          "clientResvQueue_Remove m (clients s) c = (q, None)"
          "same_but_heap_index (set (clientHeap s)) (jsm_mem s) m"
          "set h = set (clientHeap s) - {c}" "set (q_items q) = set (q_items (clients s)) - {c}"
          "cinv (update_cli (s\<lparr>jsm_mem := m, clientHeap := h, clients := q\<rparr>) c (\<lambda>e. e\<lparr>TickAt := ?n\<rparr>))"
        using drop_client [OF inv heap w, of ?n] by blast
      let ?s = "update_cli (s\<lparr>jsm_mem := m, clientHeap := h, clients := q\<rparr>) c (\<lambda>e. e\<lparr>TickAt := ?n\<rparr>)"
      note sb = same_but_heap_indexD [OF r(3)]
      have u: "updateClientTickAt s c = Some ?s"
        using False heap idx r(1,2) by (simp add: updateClientTickAt_def Let_def)
      have "same_jobs s ?s" and "cli_same s ?s" and "\<forall>d. d \<noteq> c \<longrightarrow> TickAt (cli_at ?s d) = TickAt (cli_at s d)"
        using sb by (simp_all add: same_jobs_def cli_same_def)
      then have tk: "ticked c s ?s" using r(4,5) False by (auto simp: ticked_def)
      have "job_views ?s = job_views s" using tk same_jobs_views by (auto simp: ticked_def)
      then have "tinv ?s {}"
        by (rule tinv_drop [OF t0 _ _ _ _ _ w nores]) (use tk r(4,5) in \<open>auto simp: ticked_def\<close>)
      then show ?thesis using u tk r(6) by blast
    next
      case heap: False
      let ?s = "update_cli s c (\<lambda>e. e\<lparr>TickAt := ?n\<rparr>)"
      have u: "updateClientTickAt s c = Some ?s"
        using False heap idx by (simp add: updateClientTickAt_def Let_def)
      have "same_jobs s ?s" and "cli_same s ?s" by (simp_all add: same_jobs_def cli_same_def)
      then have tk: "ticked c s ?s" using False by (auto simp: ticked_def)
      have v: "job_views ?s = job_views s" using tk same_jobs_views by (auto simp: ticked_def)
      have "heap_ordered (ch_key (jsm_mem ?s, clientHeap s)) (clientHeap s) =
          heap_ordered (ch_key (jsm_mem s, clientHeap s)) (clientHeap s)"
        by (rule heap_ordered_cong) (use heap in \<open>auto simp: ch_key_def\<close>)
      moreover have "ch_wf (jsm_mem ?s, clientHeap s)"
        using cinvD(3) [OF inv] unfolding ch_wf_def ch_elems_def by (auto simp: update_cli_def upd_client_def)
      moreover have "x \<in> set (clientHeap ?s) \<or> HeapIndex (cli_at ?s x) = -1"
        if "x \<in> set (q_items (clients s))" for x
        using cinvD(7) [OF inv that] by auto
      ultimately have "cinv ?s"
        using cinv_heap [OF inv, of ?s] tk cinvD(4,5) [OF inv] by (simp add: ticked_def ch_ordered_def ch_elems_def)
      moreover have "tinv ?s {}"
        by (rule tinv_drop [OF t0 v _ _ _ _ w nores]) (use tk in \<open>auto simp: ticked_def\<close>)
      ultimately show ?thesis using u tk by blast
    qed
  qed
qed

end
