(* ===== verification/JSM_Reserve.thy ===== *)
theory JSM_Reserve
  imports JSM_Clients
begin

text \<open>
  Reservations: a client starts waiting, is matched with the most urgent ready job of a tube
  it watches, keeps the job alive by touching it, and stops waiting. The operations return
  without a panic and keep the invariant of the whole state machine.
\<close>

section \<open>The invariant of the state machine\<close>

definition jsm_ok :: "localJSM \<Rightarrow> ref set \<Rightarrow> bool" where
  "jsm_ok s E \<longleftrightarrow> jobs_inv s {} \<and> delay_ok s \<and> sane s \<and> cinv s \<and> tinv s E"

lemma jobs_inv_waits: "jobs_inv s X \<Longrightarrow> waits_wf (jsm_mem s) (tubes s)"
  by (simp add: jobs_inv_def)

lemma ch_cong:
  assumes "\<And>c. c \<in> set h \<Longrightarrow> HeapIndex (m_clients m' c) = HeapIndex (m_clients m c)"
    and "\<And>c. c \<in> set h \<Longrightarrow> client_key (m_clients m' c) = client_key (m_clients m c)"
  shows "ch_wf (m', h) = ch_wf (m, h)" and "ch_ordered (m', h) = ch_ordered (m, h)"
proof -
  show "ch_wf (m', h) = ch_wf (m, h)" using assms(1) by (auto simp: ch_wf_def ch_elems_def)
  have "heap_ordered (ch_key (m', h)) h = heap_ordered (ch_key (m, h)) h"
    by (rule heap_ordered_cong) (simp add: ch_key_def assms(2))
  then show "ch_ordered (m', h) = ch_ordered (m, h)" by (simp add: ch_ordered_def ch_elems_def)
qed

lemma cinv_same_clients:
  assumes inv: "cinv s" and same: "same_clients s s'" and wf: "waits_wf (jsm_mem s') (tubes s')"
  shows "cinv s'"
proof -
  have eq: "cli_at s' = cli_at s" "clients s' = clients s" "clientHeap s' = clientHeap s"
      "waiters (tubes s') = waiters (tubes s)" and n: "m_next (jsm_mem s) \<le> m_next (jsm_mem s')"
    using same by (auto simp: same_clients_def)
  have "q_wf (jsm_mem s') (clients s)" using cinvD(1) [OF inv] by (rule q_wf_cong) (simp add: eq)
  moreover have "ch_wf (jsm_mem s', clientHeap s)" "ch_ordered (jsm_mem s', clientHeap s)"
    using cinvD(3,4) [OF inv] ch_cong [of "clientHeap s" "jsm_mem s'" "jsm_mem s"] eq(1) by simp_all
  moreover have "c < m_next (jsm_mem s')" if "c \<in> set (q_items (clients s))" for c
    using cinvD(6) [OF inv that] n by simp
  ultimately show ?thesis using inv wf unfolding cinv_def eq by blast
qed

lemma tinv_same_clients:
  assumes t: "tinv s E" and same: "same_clients s s'" and sub: "E \<subseteq> E'"
    and r: "\<And>i v. job_views s' i = Some v \<Longrightarrow> state v = Reserved \<Longrightarrow>
        reservedBy v \<in> cli_id (jsm_mem s) ` E' \<or>
        (\<exists>i' v'. job_views s i' = Some v' \<and> state v' = Reserved \<and> reservedBy v' = reservedBy v \<and>
           expiresAt v' \<le> expiresAt v)"
  shows "tinv s' E'"
proof -
  have eq: "cli_at s' = cli_at s" "clients s' = clients s" "clientHeap s' = clientHeap s"
    using same by (auto simp: same_clients_def)
  have "reservedBy v \<in> cli_id (jsm_mem s) ` E' \<or>
      (\<exists>c \<in> set (clientHeap s). cli_id (jsm_mem s) c = reservedBy v \<and> TickAt (cli_at s c) \<le> expiresAt v)"
    if v: "job_views s' i = Some v \<and> state v = Reserved" for i v
  proof (cases "reservedBy v \<in> cli_id (jsm_mem s) ` E'")
    case False
    then obtain i' v' where v': "job_views s i' = Some v'" "state v' = Reserved" "reservedBy v' = reservedBy v"
        "expiresAt v' \<le> expiresAt v"
      using r [of i v] v by blast
    then have "reservedBy v \<in> cli_id (jsm_mem s) ` E \<or>
        (\<exists>c \<in> set (clientHeap s). cli_id (jsm_mem s) c = reservedBy v \<and> TickAt (cli_at s c) \<le> expiresAt v')"
      using t unfolding tinv_def by metis
    then show ?thesis using sub v'(4) by fastforce
  qed simp
  then show ?thesis using t sub unfolding tinv_def eq by blast
qed

text \<open>
  \<open>no_new_holds V V'\<close>: every job of \<open>V'\<close> was in \<open>V\<close> with the same time to run, and is
  reserved only if it already was, by the same client and until the same time.
\<close>

definition no_new_holds :: "job_table \<Rightarrow> job_table \<Rightarrow> bool" where
  "no_new_holds V V' \<longleftrightarrow>
     (\<forall>i v. V' i = Some v \<longrightarrow> (\<exists>v'. V i = Some v' \<and> ttr v' = ttr v \<and>
        (state v = Reserved \<longrightarrow> state v' = Reserved \<and> reservedBy v' = reservedBy v \<and>
           expiresAt v' = expiresAt v)))"

lemma no_new_holds_refl [simp]: "no_new_holds V V"
  by (auto simp: no_new_holds_def)

lemma no_new_holds_upd:
  "V i = Some v \<Longrightarrow> ttr v' = ttr v \<Longrightarrow> state v' \<noteq> Reserved \<Longrightarrow> no_new_holds V (V(i \<mapsto> v'))"
  by (auto simp: no_new_holds_def)

lemma no_new_holds_on_job:
  assumes "on_job V i f = Inr V'"
    and "\<And>v v'. V i = Some v \<Longrightarrow> f v = Inr v' \<Longrightarrow> ttr v' = ttr v \<and> state v' \<noteq> Reserved"
  shows "no_new_holds V V'"
proof -
  obtain v v' where v: "V i = Some v" "f v = Inr v'" "V' = V(i \<mapsto> v')"
    using assms(1) by (auto simp: on_job_def split: option.splits sum.splits)
  then show ?thesis using no_new_holds_upd [of V i v v'] assms(2) by blast
qed

lemma jsm_ok_no_new_holds:
  assumes ok: "jsm_ok s E" and same: "same_clients s s'" and v: "no_new_holds (job_views s) (job_views s')"
    and s': "jobs_inv s' {}" "delay_ok s'"
  shows "jsm_ok s' E"
proof -
  have inv: "sane s" "cinv s" "tinv s E" using ok by (simp_all add: jsm_ok_def)
  have "cinv s'" using cinv_same_clients [OF inv(2) same jobs_inv_waits [OF s'(1)]] .
  moreover have "tinv s' E"
    by (rule tinv_same_clients [OF inv(3) same order_refl])
      (use v in \<open>unfold no_new_holds_def, metis order_refl\<close>)
  moreover have "sane s'" using inv(1) v unfolding sane_def no_new_holds_def by metis
  ultimately show ?thesis using s' by (simp add: jsm_ok_def)
qed

text \<open>A command that refines a specification without new reservations keeps the invariant.\<close>

lemma jsm_ok_refines:
  assumes ok: "jsm_ok s E" and r: "refines s res spec"
    and v: "\<And>V. spec = Inr V \<Longrightarrow> no_new_holds (job_views s) V"
  obtains s' where "res = Some (s', map_sum (\<lambda>e. e) (\<lambda>_. ()) spec)" and "jsm_ok s' E" and "same_clients s s'"
    and "job_views s' = (case spec of Inl _ \<Rightarrow> job_views s | Inr V \<Rightarrow> V)"
proof -
  obtain s' q where s': "res = Some (s', q)" "jobs_inv s' {}" "same_clients s s'" "delay_ok s \<longrightarrow> delay_ok s'"
      "case spec of Inl err \<Rightarrow> q = Inl err \<and> job_views s' = job_views s | Inr V \<Rightarrow> q = Inr () \<and> job_views s' = V"
    using r unfolding refines_def by blast
  have "no_new_holds (job_views s) (job_views s')" using v s'(5) by (cases spec) auto
  then have "jsm_ok s' E" using jsm_ok_no_new_holds [OF ok s'(3) _ s'(2)] s'(4) ok by (simp add: jsm_ok_def)
  then show ?thesis using that s' by (cases spec) auto
qed

lemma same_jobs_jsm_ok:
  assumes ok: "jsm_ok s E" and sj: "same_jobs s s'" and s': "cinv s'" "tinv s' E'"
  shows "jsm_ok s' E'"
proof -
  have v: "job_views s' = job_views s" by (rule same_jobs_views [OF sj])
  have d: "nextDelayTickAt s' = nextDelayTickAt s" using sj by (simp add: same_jobs_def)
  have "jobs_inv s' {}" using same_jobs_inv [OF sj _ cinvD(2) [OF s'(1)]] ok by (simp add: jsm_ok_def)
  then show ?thesis using ok s' unfolding jsm_ok_def delay_ok_def sane_def v d by blast
qed

section \<open>A client stops waiting\<close>

definition unwaited :: "ref \<Rightarrow> localJSM \<Rightarrow> localJSM \<Rightarrow> bool" where
  "unwaited c s s' \<longleftrightarrow>
     same_jobs s s' \<and> clients s' = clients s \<and> clientHeap s' = clientHeap s \<and>
     reservedJobs s' = reservedJobs s \<and> stat s' = stat s \<and> dom (mget (tubes s')) = dom (mget (tubes s)) \<and>
     m_next (jsm_mem s') = m_next (jsm_mem s) \<and>
     cli_at s' = (cli_at s)(c := (cli_at s c)\<lparr>IsWaitingForResv := False, ResvDeadlineAt := maxTime\<rparr>) \<and>
     (\<forall>t. waiters (tubes s') t = remove1 c (waiters (tubes s) t))"

lemma unReserve_ok:
  assumes inv: "cinv s" and c: "c \<in> set (q_items (clients s))" and w: "IsWaitingForResv (cli_at s c)"
  shows "\<exists>s'. unReserve s c = Some s' \<and> unwaited c s s' \<and> cinv s'"
proof -
  let ?f = "\<lambda>e. e\<lparr>IsWaitingForResv := False, ResvDeadlineAt := maxTime\<rparr>"
  let ?s = "update_cli s c ?f" and ?ts = "WatchedTubes (cli_at s c)"
  have ids: "cli_id (jsm_mem ?s) x = cli_id (jsm_mem s) x" for x by simp
  have wf: "waits_wf (jsm_mem ?s) (tubes s)" by (rule waits_wf_ids [OF cinvD(2) [OF inv] ids])
  obtain ti where ti: "unwatch (jsm_mem ?s) (tubes s) c ?ts = Some ti" "waits_wf (jsm_mem ?s) ti"
      "same_heaps (tubes s) ti" "dom (mget ti) = dom (mget (tubes s))"
      "\<And>t. waiters ti t = (if t \<in> set ?ts then remove1 c (waiters (tubes s) t) else waiters (tubes s) t)"
    using unwatch_ok [OF wf, of ?ts c] cinvD(8,9) [OF inv c w] by blast
  have notin: "c \<notin> set (waiters (tubes s) t)" if "t \<notin> set ?ts" for t
    using cinvD(10) [OF inv] that by blast
  have wt: "waiters ti t = remove1 c (waiters (tubes s) t)" for t
    using ti(5) notin by (simp add: remove1_idem)
  let ?s' = "?s\<lparr>tubes := ti\<rparr>"
  have u: "unwaited c s ?s'"
    using ti(3,4) wt by (auto simp: unwaited_def same_jobs_def same_heaps_def)
  have "distinct (waiters (tubes s) t)" for t
    using cinvD(2) [OF inv] distinct_map unfolding waits_wf_def waiters_def q_wf_def Let_def by blast
  then have ws: "set (waiters ti t) = set (waiters (tubes s) t) - {c}" for t using wt by simp
  have sel: "clients ?s' = clients s" "clientHeap ?s' = clientHeap s" "tubes ?s' = ti" by simp_all
  have at: "cli_at ?s' x = (if x = c then ?f (cli_at s c) else cli_at s x)" for x by simp
  have "q_wf (jsm_mem ?s') (clients s)" by (rule q_wf_cong [OF cinvD(1) [OF inv]]) (simp add: at)
  moreover have "ch_wf (jsm_mem ?s', clientHeap s)" "ch_ordered (jsm_mem ?s', clientHeap s)"
    using cinvD(3,4) [OF inv] ch_cong [of "clientHeap s" "jsm_mem ?s'" "jsm_mem s"] at
    by (simp_all add: client_key_def)
  moreover have "x < m_next (jsm_mem ?s') \<and> (x \<in> set (clientHeap s) \<or> HeapIndex (cli_at ?s' x) = -1) \<and>
      (IsWaitingForResv (cli_at ?s' x) \<longrightarrow> distinct (WatchedTubes (cli_at ?s' x)) \<and>
         ResvDeadlineAt (cli_at ?s' x) < maxTime \<and>
         (\<forall>t \<in> set (WatchedTubes (cli_at ?s' x)). x \<in> set (waiters ti t)))"
    if x: "x \<in> set (q_items (clients s))" for x
    using cinvD(6,7,8,9) [OF inv x] by (auto simp: at ws)
  moreover have "x \<in> set (q_items (clients s)) \<and> IsWaitingForResv (cli_at ?s' x) \<and>
      t \<in> set (WatchedTubes (cli_at ?s' x))" if "x \<in> set (waiters ti t)" for x t
    using cinvD(10) [OF inv, of x t] that by (auto simp: at ws)
  moreover have "waits_wf (jsm_mem ?s') ti" using ti(2) by simp
  ultimately have "cinv ?s'" unfolding cinv_def sel using cinvD(5) [OF inv] by blast
  then show ?thesis using ti(1) u by (auto simp: unReserve_def Let_def)
qed

lemma unwaited_tinv:
  assumes t: "tinv s E" and u: "unwaited c s s'"
  shows "tinv s' E"
proof -
  have eq: "clients s' = clients s" "clientHeap s' = clientHeap s" "job_views s' = job_views s"
    using u same_jobs_views by (auto simp: unwaited_def)
  have at: "cli_at s' x = (if x = c then (cli_at s c)\<lparr>IsWaitingForResv := False, ResvDeadlineAt := maxTime\<rparr>
      else cli_at s x)" for x
    using u by (simp add: unwaited_def)
  have id: "cli_id (jsm_mem s') x = cli_id (jsm_mem s) x" "TickAt (cli_at s' x) = TickAt (cli_at s x)" for x
    by (simp_all add: at)
  have "IsWaitingForResv (cli_at s' x) \<Longrightarrow> IsWaitingForResv (cli_at s x) \<and> cli_at s' x = cli_at s x" for x
    by (auto simp: at split: if_splits)
  then show ?thesis using t unfolding tinv_def eq id by metis
qed

lemma unwaited_jsm_ok:
  assumes ok: "jsm_ok s E" and u: "unwaited c s s'" and c: "cinv s'"
  shows "jsm_ok s' E"
proof (rule same_jobs_jsm_ok [OF ok])
  show "same_jobs s s'" using u by (simp add: unwaited_def)
  show "tinv s' E" using unwaited_tinv [OF _ u] ok by (simp add: jsm_ok_def)
qed (fact c)

text \<open>The same for the time at which the client is processed next.\<close>

lemma ticked_jsm_ok:
  assumes ok: "jsm_ok s {c}" and c: "c \<in> set (q_items (clients s))"
  shows "\<exists>s'. updateClientTickAt s c = Some s' \<and> ticked c s s' \<and> jsm_ok s' {}"
proof -
  obtain s' where s': "updateClientTickAt s c = Some s'" "ticked c s s'" "cinv s'" "tinv s' {}"
    using updateClientTickAt_ok [OF _ _ _ c] ok unfolding jsm_ok_def by blast
  have "jsm_ok s' {}" using same_jobs_jsm_ok [OF ok _ s'(3,4)] s'(2) by (simp add: ticked_def)
  then show ?thesis using s'(1,2) by blast
qed

section \<open>The waiting clients\<close>

text \<open>
  What the clients wait for, by the id of the client, and the line of clients of every tube.
\<close>

definition waiting_on :: "localJSM \<Rightarrow> ClientID \<Rightarrow> (string \<times> TubeName list \<times> int64) option" where
  "waiting_on s i =
     (case clientResvQueue_Find (clients s) i of
        Inl _ \<Rightarrow> None
      | Inr c \<Rightarrow>
          if IsWaitingForResv (cli_at s c)
          then Some (ReqID (cli_at s c), WatchedTubes (cli_at s c), ResvDeadlineAt (cli_at s c)) else None)"

definition wait_line :: "localJSM \<Rightarrow> TubeName \<Rightarrow> ClientID list" where
  "wait_line s t = map (cli_id (jsm_mem s)) (waiters (tubes s) t)"

lemma waiting_on_iff:
  assumes "cinv s"
  shows "waiting_on s i = Some x \<longleftrightarrow>
     (\<exists>c \<in> set (q_items (clients s)). CliID (cli_at s c) = i \<and> IsWaitingForResv (cli_at s c) \<and>
        x = (ReqID (cli_at s c), WatchedTubes (cli_at s c), ResvDeadlineAt (cli_at s c)))"
proof (cases "clientResvQueue_Find (clients s) i")
  case (Inl err)
  then show ?thesis using cq.Find_error [OF cinvD(1) [OF assms], of i err] by (auto simp: waiting_on_def)
next
  case (Inr c)
  then have c: "c \<in> set (q_items (clients s))" "CliID (cli_at s c) = i"
    using cq.Find_iff [OF cinvD(1) [OF assms]] by auto
  have u: "d \<in> set (q_items (clients s)) \<and> CliID (cli_at s d) = i \<longleftrightarrow> d = c" for d
    using cinv_same_id [OF assms _ c(1)] c by metis
  have "waiting_on s i = Some x \<longleftrightarrow> IsWaitingForResv (cli_at s c) \<and>
      x = (ReqID (cli_at s c), WatchedTubes (cli_at s c), ResvDeadlineAt (cli_at s c))"
    using Inr by (auto simp: waiting_on_def)
  then show ?thesis using u by metis
qed

lemma waiting_on_eqI:
  assumes "\<And>i x. f i = Some x \<longleftrightarrow> g i = Some x"
  shows "f = g"
  using assms by (metis ext option.exhaust)

lemma waiting_on_client:
  assumes "cinv s" and "c \<in> set (q_items (clients s))" and "IsWaitingForResv (cli_at s c)"
  shows "waiting_on s (CliID (cli_at s c)) = Some (ReqID (cli_at s c), WatchedTubes (cli_at s c), ResvDeadlineAt (cli_at s c))"
  using waiting_on_iff [OF assms(1)] assms(2,3) by blast

lemma same_clients_waiting:
  "same_clients s s' \<Longrightarrow> waiting_on s' = waiting_on s \<and> wait_line s' = wait_line s"
  by (auto simp: same_clients_def waiting_on_def wait_line_def fun_eq_iff split: sum.splits)

lemma waiting_tally [simp]: "waiting_on (tally f s) = waiting_on s" "wait_line (tally f s) = wait_line s"
  by (auto simp: waiting_on_def wait_line_def fun_eq_iff split: sum.splits)

lemma wait_line_remove:
  assumes inv: "cinv s" and c: "c \<in> set (q_items (clients s))"
  shows "map (cli_id (jsm_mem s)) (remove1 c (waiters (tubes s) t)) = remove1 (CliID (cli_at s c)) (wait_line s t)"
proof -
  have "map (cli_id (jsm_mem s)) (remove1 c xs) = remove1 (CliID (cli_at s c)) (map (cli_id (jsm_mem s)) xs)"
    if "set xs \<subseteq> set (q_items (clients s))" for xs
    using that
  proof (induction xs)
    case (Cons x xs)
    then have "CliID (cli_at s c) = CliID (cli_at s x) \<longleftrightarrow> c = x"
      using cinv_same_id [OF inv _ c] by (metis list.set_intros(1) subset_iff)
    then show ?case using Cons by simp
  qed simp
  moreover have "set (waiters (tubes s) t) \<subseteq> set (q_items (clients s))" using cinvD(10) [OF inv] by blast
  ultimately show ?thesis by (simp add: wait_line_def)
qed

lemma unwaited_waiting:
  assumes u: "unwaited c s s'" and inv: "cinv s" "cinv s'" and c: "c \<in> set (q_items (clients s))"
  shows "waiting_on s' = (waiting_on s)(CliID (cli_at s c) := None)"
    and "wait_line s' t = remove1 (CliID (cli_at s c)) (wait_line s t)"
proof -
  have q: "clients s' = clients s" and w: "waiters (tubes s') t = remove1 c (waiters (tubes s) t)"
    using u by (simp_all add: unwaited_def)
  have at: "cli_at s' d = (if d = c then (cli_at s c)\<lparr>IsWaitingForResv := False, ResvDeadlineAt := maxTime\<rparr>
      else cli_at s d)" for d
    using u by (simp add: unwaited_def)
  show "waiting_on s' = (waiting_on s)(CliID (cli_at s c) := None)"
  proof (rule waiting_on_eqI)
    fix i x
    have id: "d \<noteq> c \<Longrightarrow> CliID (cli_at s d) \<noteq> CliID (cli_at s c)" if "d \<in> set (q_items (clients s))" for d
      using cinv_same_id [OF inv(1) that c] by blast
    show "waiting_on s' i = Some x \<longleftrightarrow> ((waiting_on s)(CliID (cli_at s c) := None)) i = Some x"
    proof (cases "i = CliID (cli_at s c)")
      case True
      have "\<not> IsWaitingForResv (cli_at s' d)" if "d \<in> set (q_items (clients s))" "CliID (cli_at s' d) = i" for d
        using that True id [OF that(1)] by (cases "d = c") (simp_all add: at)
      then have "waiting_on s' i \<noteq> Some x" unfolding waiting_on_iff [OF inv(2)] q by blast
      then show ?thesis using True by simp
    next
      case False
      then have "waiting_on s' i = Some x \<longleftrightarrow> waiting_on s i = Some x"
        unfolding waiting_on_iff [OF inv(1)] waiting_on_iff [OF inv(2)] q
        by (intro bex_cong refl) (auto simp: at)
      then show ?thesis using False by simp
    qed
  qed
  have "wait_line s' t = map (cli_id (jsm_mem s)) (remove1 c (waiters (tubes s) t))"
    by (simp add: wait_line_def w at)
  then show "wait_line s' t = remove1 (CliID (cli_at s c)) (wait_line s t)"
    using wait_line_remove [OF inv(1) c] by simp
qed

lemma ticked_waiting:
  assumes tk: "ticked c s s'" and inv: "cinv s" "cinv s'" and jinv: "jobs_inv s {}" "sane s"
  shows "waiting_on s' = waiting_on s" and "wait_line s' = wait_line s"
proof -
  have same: "CliID (cli_at s' d) = CliID (cli_at s d)" "WatchedTubes (cli_at s' d) = WatchedTubes (cli_at s d)"
      "ResvDeadlineAt (cli_at s' d) = ResvDeadlineAt (cli_at s d)"
      "IsWaitingForResv (cli_at s' d) = IsWaitingForResv (cli_at s d)" "ReqID (cli_at s' d) = ReqID (cli_at s d)" for d
    using tk by (auto simp: ticked_def cli_same_def)
  have keep: "d \<in> set (q_items (clients s'))" if d: "d \<in> set (q_items (clients s))" "IsWaitingForResv (cli_at s d)" for d
  proof (rule ccontr)
    assume n: "d \<notin> set (q_items (clients s'))"
    then have "d = c" using tk d(1) by (auto simp: ticked_def)
    moreover have "d \<notin> set (clientHeap s')" using n cinvD(5) [OF inv(2)] by blast
    ultimately have "maxTime \<le> next_tick s d" using tk by (simp add: ticked_def)
    then show False using next_tick_bounds(2) [OF jinv d(2)] cinvD(8) [OF inv(1) d] by linarith
  qed
  have sub: "set (q_items (clients s')) \<subseteq> set (q_items (clients s))" using tk by (simp add: ticked_def)
  show "waiting_on s' = waiting_on s"
    by (rule waiting_on_eqI)
      (use keep sub in \<open>unfold waiting_on_iff [OF inv(1)] waiting_on_iff [OF inv(2)] same, blast\<close>)
  show "wait_line s' = wait_line s" using tk by (simp add: wait_line_def fun_eq_iff same ticked_def)
qed

section \<open>A client is matched with a job\<close>

lemma jsm_ok_tally [simp]: "jsm_ok (tally f s) E = jsm_ok s E"
  unfolding jsm_ok_def sane_def cinv_def tinv_def by simp

definition held :: "int64 \<Rightarrow> ClientID \<Rightarrow> localJob \<Rightarrow> localJob" where
  "held now c v =
     v\<lparr>state := Reserved, reservedBy := c, expiresAt := wrap64 (now + ttr v),
       reserveCount := reserveCount v + 1\<rparr>"

lemma Reserve_ok:
  assumes ok: "jsm_ok s E" and now: "sane_time now"
    and v: "job_views s i = Some v" "state v = Ready"
  shows "\<exists>s'. Reserve s now i (CliID (cli_at s c)) = Some (s', Inr ()) \<and> jsm_ok s' (insert c E) \<and>
           same_rest s s' \<and> dom (mget (tubes s')) = dom (mget (tubes s)) \<and>
           job_views s' = (job_views s)(i \<mapsto> held now (CliID (cli_at s c)) v) \<and>
           (\<forall>e. mget (ji_m (jobs s)) i = Some e \<longrightarrow>
              view (job_at s' (ie_job e)) = held now (CliID (cli_at s c)) v)"
proof -
  let ?c = "CliID (cli_at s c)"
  have inv: "jobs_inv s {}" "delay_ok s" "sane s" "cinv s" "tinv s E" using ok by (simp_all add: jsm_ok_def)
  obtain e where e: "mget (ji_m (jobs s)) i = Some e" "view (job_at s (ie_job e)) = v"
    using v(1) by (auto simp: job_views_eq split: option.splits)
  then have st: "State (job_at s (ie_job e)) = Ready" using v(2) by (simp add: getter_view)
  obtain s' where s': "fromReadyToReserved s now i ?c = Some (s', Inr ())"
      "refines s (Some (s', Inr ())) (on_job (job_views s) i (spec_reserve now ?c))"
      "same_rest s s'" "dom (mget (tubes s')) = dom (mget (tubes s))"
      "spec_reserve now ?c (view (job_at s (ie_job e))) = Inr (view (job_at s' (ie_job e)))"
    using fromReadyToReserved_moves [OF inv(1) e(1) st, of now ?c] by blast
  have "on_job (job_views s) i (spec_reserve now ?c) = Inr ((job_views s)(i \<mapsto> held now ?c v))"
    using v by (simp add: on_job_def spec_reserve_def held_def)
  then have r: "jobs_inv s' {}" "same_clients s s'" "delay_ok s'"
      "job_views s' = (job_views s)(i \<mapsto> held now ?c v)"
    using s'(2) inv(2) by (auto simp: refines_def)
  have ttr: "sane_ttr (ttr v)" using inv(3) v(1) unfolding sane_def by blast
  then have "- (2 ^ 62) < expiresAt (held now ?c v) \<and> expiresAt (held now ?c v) < maxTime"
    using sane_sum [OF now ttr] now by (simp add: held_def sane_time_def sane_ttr_def maxTime_def)
  moreover have "ttr (held now ?c v) = ttr v" by (simp add: held_def)
  ultimately have "sane s'" using inv(3) ttr unfolding sane_def r(4) by auto
  moreover have "cinv s'" using cinv_same_clients [OF inv(4) r(2) jobs_inv_waits [OF r(1)]] .
  moreover have "tinv s' (insert c E)"
  proof (rule tinv_same_clients [OF inv(5) r(2)])
    fix k w assume w: "job_views s' k = Some w" "state w = Reserved"
    show "reservedBy w \<in> cli_id (jsm_mem s) ` insert c E \<or>
        (\<exists>i' v'. job_views s i' = Some v' \<and> state v' = Reserved \<and> reservedBy v' = reservedBy w \<and>
           expiresAt v' \<le> expiresAt w)"
      using w unfolding r(4) by (cases "k = i") (auto simp: held_def)
  qed auto
  moreover have "view (job_at s' (ie_job e)) = held now ?c v"
    using s'(5) e(2) v(2) by (simp add: spec_reserve_def held_def)
  ultimately show ?thesis using s' r e(1) by (auto simp: Reserve_def jsm_ok_def)
qed

text \<open>
  \<open>matched s now t c s' r\<close>: the waiting client \<open>c\<close> holds the most urgent ready job of \<open>t\<close>,
  waits on no tube any more, and \<open>r\<close> is the answer for it.
\<close>

definition most_urgent :: "job_table \<Rightarrow> TubeName \<Rightarrow> JobID \<Rightarrow> localJob \<Rightarrow> bool" where
  "most_urgent V t i v \<longleftrightarrow>
     V i = Some v \<and> state v = Ready \<and> tubeName v = t \<and>
     (\<forall>k w. V k = Some w \<and> state w = Ready \<and> tubeName w = t \<longrightarrow>
        (uint (priority v), i) \<le> (uint (priority w), k))"

definition match_reply :: "ClientResvEntry \<Rightarrow> JobID \<Rightarrow> localJob \<Rightarrow> Reservation" where
  "match_reply c i v =
     \<lparr>rv_RequestId = ReqID c, rv_ClientId = CliID c, rv_JobId = i, rv_Status = Matched,
      rv_BodySize = bodySize v, rv_Body = Some (body v), rv_Error = None\<rparr>"

definition matched :: "localJSM \<Rightarrow> int64 \<Rightarrow> TubeName \<Rightarrow> ref \<Rightarrow> localJSM \<Rightarrow> Reservation \<Rightarrow> bool" where
  "matched s now t c s' r \<longleftrightarrow>
     (\<exists>i v. most_urgent (job_views s) t i v \<and> r = match_reply (cli_at s c) i v \<and>
        job_views s' = (job_views s)(i \<mapsto> held now (CliID (cli_at s c)) v)) \<and>
     dom (mget (tubes s')) = dom (mget (tubes s)) \<and> nextDelayTickAt s' = nextDelayTickAt s \<and>
     waiting_on s' = (waiting_on s)(CliID (cli_at s c) := None) \<and>
     (\<forall>u. wait_line s' u = remove1 (CliID (cli_at s c)) (wait_line s u))"

lemma loc_ready: "loc_of v = Some (LReady t) \<longleftrightarrow> state v = Ready \<and> tubeName v = t"
  by (cases "state v") (auto simp: loc_of_def)

lemma ready_root:
  assumes inv: "jobs_inv s {}" and p: "NextReadyJob (tubes s) t = Inr e"
  shows "most_urgent (job_views s) t (ID (job_of (jsm_mem s) e)) (view (job_of (jsm_mem s) e))"
    and "e < m_next (jsm_mem s)"
    and "\<exists>ie. mget (ji_m (jobs s)) (ID (job_of (jsm_mem s) e)) = Some ie \<and> ie_job ie = je_Job (m_entries (jsm_mem s) e)"
proof -
  have pk: "jobHeap_Peek (heaps s (LReady t)) = Some e"
    using p next_job_peek(1) [of s t] by (simp split: option.splits)
  have g: "\<not> has_ghost s (LReady t)" using ghosts_are_buried [OF inv] by fastforce
  note l = peek_least [OF inv g pk]
  have "(uint (priority (view (job_of (jsm_mem s) e))), ID (job_of (jsm_mem s) e)) \<le> (uint (priority w), k)"
    if w: "job_views s k = Some w" "state w = Ready" "tubeName w = t" for k w
  proof -
    have lw: "loc_of w = Some (LReady t)" using w(2,3) loc_ready by simp
    obtain x where "job_id w = k" using views_entry [OF inv w(1) lw] by metis
    then show ?thesis using l(3) [OF w(1) lw] by (simp add: getter_view)
  qed
  then show "most_urgent (job_views s) t (ID (job_of (jsm_mem s) e)) (view (job_of (jsm_mem s) e))"
    using l(1,2) loc_ready unfolding most_urgent_def by blast
  show "e < m_next (jsm_mem s)"
    using jinv_entry(1) [of "jsm_mem s" "ji_m (jobs s)" "heaps s" "{}" e "LReady t"] jobHeap_Peek_mem [OF pk] inv
    by (simp add: jobs_inv_def)
  show "\<exists>ie. mget (ji_m (jobs s)) (ID (job_of (jsm_mem s) e)) = Some ie \<and> ie_job ie = je_Job (m_entries (jsm_mem s) e)"
    using entry_index [OF inv g jobHeap_Peek_mem [OF pk]] by auto
qed

lemma ready_none:
  assumes inv: "jobs_inv s {}" and p: "NextReadyJob (tubes s) t = Inl err"
  shows "err = ErrEntryMissing" and "ids_at (job_views s) (LReady t) = {}"
  using p next_job_peek(1) [of s t] peek_none(1) [OF inv, of "LReady t"] by (auto split: option.splits)

lemma waitq:
  assumes "waits_wf m ti" and "t \<in> dom (mget ti)"
  shows "WaitQLen ti t = Inr (length (waiters ti t))"
    and "DequeueFromWaitQ ti t = (case waiters ti t of [] \<Rightarrow> Inl ErrContainerEmpty | c # _ \<Rightarrow> Inr c)"
proof -
  obtain x where x: "mget ti t = Some x" using assms(2) by auto
  have "q_wf m (waiting x)" using assms(1) x unfolding waits_wf_def tube_at_def by (metis option.simps(5))
  then show "WaitQLen ti t = Inr (length (waiters ti t))"
    using x by (simp add: WaitQLen_def getByName_find waiters_def tube_at_def cq.QLen_eq)
  show "DequeueFromWaitQ ti t = (case waiters ti t of [] \<Rightarrow> Inl ErrContainerEmpty | c # _ \<Rightarrow> Inr c)"
    using x by (simp add: DequeueFromWaitQ_def getByName_find waiters_def tube_at_def cq.Dequeue_eq)
qed

lemma serve_ok:
  assumes ok: "jsm_ok s E" and E: "E \<subseteq> {c}" and now: "sane_time now"
    and c: "c \<in> set (waiters (tubes s) t)" and e: "NextReadyJob (tubes s) t = Inr e"
  shows "\<exists>s1 s2 s3. Reserve s now (ID (job_of (jsm_mem s) e)) (CliID (cli_at s c)) = Some (s1, Inr ()) \<and>
           unReserve s1 c = Some s2 \<and> updateClientTickAt s2 c = Some s3 \<and> jsm_ok s3 {} \<and>
           matched s now t c s3
             \<lparr>rv_RequestId = ReqID (cli_at s2 c), rv_ClientId = CliID (cli_at s2 c),
              rv_JobId = ID (job_of (jsm_mem s2) e), rv_Status = Matched,
              rv_BodySize = BodySize (job_of (jsm_mem s2) e),
              rv_Body = Some (Body (job_of (jsm_mem s2) e)), rv_Error = None\<rparr>"
proof -
  let ?i = "ID (job_of (jsm_mem s) e)" and ?v = "view (job_of (jsm_mem s) e)"
  let ?h = "held now (CliID (cli_at s c)) ?v"
  have inv: "jobs_inv s {}" "cinv s" using ok by (simp_all add: jsm_ok_def)
  note root = ready_root [OF inv(1) e]
  have v: "job_views s ?i = Some ?v" "state ?v = Ready" using root(1) by (simp_all add: most_urgent_def)
  have cl: "c \<in> set (q_items (clients s))" "IsWaitingForResv (cli_at s c)" using cinvD(10) [OF inv(2) c] by auto
  obtain s1 where s1: "Reserve s now ?i (CliID (cli_at s c)) = Some (s1, Inr ())" "jsm_ok s1 (insert c E)"
      "same_rest s s1" "dom (mget (tubes s1)) = dom (mget (tubes s))"
      "job_views s1 = (job_views s)(?i \<mapsto> ?h)"
      "\<And>ie. mget (ji_m (jobs s)) ?i = Some ie \<Longrightarrow> view (job_at s1 (ie_job ie)) = ?h"
    using Reserve_ok [OF ok now v, of c] by blast
  have r1: "clients s1 = clients s" "cli_at s1 = cli_at s" "nextDelayTickAt s1 = nextDelayTickAt s"
      "je_Job (m_entries (jsm_mem s1) e) = je_Job (m_entries (jsm_mem s) e)"
    using s1(3) root(2) by (auto simp: same_rest_def same_clients_def)
  obtain s2 where s2: "unReserve s1 c = Some s2" "unwaited c s1 s2" "cinv s2"
    using unReserve_ok [of s1 c] s1(2) cl r1 by (auto simp: jsm_ok_def)
  have E1: "insert c E = {c}" using E by auto
  have ok2: "jsm_ok s2 {c}" using unwaited_jsm_ok [OF s1(2) s2(2,3)] E1 by simp
  have r2: "clients s2 = clients s1" "dom (mget (tubes s2)) = dom (mget (tubes s1))"
      "same_jobs s1 s2"
      "ReqID (cli_at s2 c) = ReqID (cli_at s1 c)" "CliID (cli_at s2 c) = CliID (cli_at s1 c)"
    using s2(2) by (auto simp: unwaited_def)
  obtain s3 where s3: "updateClientTickAt s2 c = Some s3" "ticked c s2 s3" "jsm_ok s3 {}"
    using ticked_jsm_ok [OF ok2] cl(1) r1(1) r2(1) by auto
  obtain ie where ie: "mget (ji_m (jobs s)) ?i = Some ie" "ie_job ie = je_Job (m_entries (jsm_mem s) e)"
    using root(3) by blast
  have "view (job_of (jsm_mem s2) e) = ?h"
    using s1(6) [OF ie(1)] ie(2) r1(4) same_jobs_job_of [OF r2(3)] by (simp add: job_of_def)
  then have j: "ID (job_of (jsm_mem s2) e) = ?i" "BodySize (job_of (jsm_mem s2) e) = bodySize ?v"
      "Body (job_of (jsm_mem s2) e) = body ?v"
    by (simp_all add: getter_view held_def)
  have "job_views s3 = (job_views s)(?i \<mapsto> ?h)"
    using same_jobs_views [OF r2(3)] same_jobs_views [of s2 s3] s3(2) s1(5) by (simp add: ticked_def)
  moreover have "tubes s3 = tubes s2" "nextDelayTickAt s3 = nextDelayTickAt s"
    using s3(2) r2(3) r1(3) by (simp_all add: ticked_def same_jobs_def)
  moreover have "waiting_on s3 = waiting_on s2" "wait_line s3 = wait_line s2"
    using ticked_waiting [OF s3(2)] ok2 s3(3) by (simp_all add: jsm_ok_def)
  moreover have "waiting_on s2 = (waiting_on s1)(CliID (cli_at s1 c) := None)"
      "\<And>u. wait_line s2 u = remove1 (CliID (cli_at s1 c)) (wait_line s1 u)"
    using unwaited_waiting [OF s2(2) _ s2(3)] s1(2) cl(1) r1(1) by (simp_all add: jsm_ok_def)
  moreover have "waiting_on s1 = waiting_on s" "wait_line s1 = wait_line s"
    using same_clients_waiting s1(3) by (simp_all add: same_rest_def)
  ultimately have "matched s now t c s3 (match_reply (cli_at s c) ?i ?v)"
    using root(1) s1(4) r1(2) r2(2) unfolding matched_def by auto
  then show ?thesis using s1(1) s2(1) s3(1,3) j r1(2) r2(4,5) unfolding match_reply_def by auto
qed

text \<open>Nothing to match, or the client (the first one waiting, if none is given) gets its job.\<close>

lemma tryReserveJob_cases:
  assumes ok: "jsm_ok s E" and now: "sane_time now" and t: "t \<in> dom (mget (tubes s))"
    and cli: "case cli of None \<Rightarrow> E = {} | Some c \<Rightarrow> E \<subseteq> {c} \<and> c \<in> set (waiters (tubes s) t)"
  obtains (none) f where "tryReserveJob s now t cli = Some (tally f s, Inl ErrNoReservationFound)"
      and "waiters (tubes s) t = [] \<or> ids_at (job_views s) (LReady t) = {}"
  | (match) s' r c where "tryReserveJob s now t cli = Some (s', Inr r)" and "jsm_ok s' {}"
      and "c \<in> set (waiters (tubes s) t)" and "c = (case cli of None \<Rightarrow> hd (waiters (tubes s) t) | Some c \<Rightarrow> c)"
      and "matched s now t c s' r"
proof -
  have inv: "jobs_inv s {}" "cinv s" using ok by (simp_all add: jsm_ok_def)
  note q = waitq [OF cinvD(2) [OF inv(2)] t]
  define c where "c = (case cli of None \<Rightarrow> hd (waiters (tubes s) t) | Some c \<Rightarrow> c)"
  let ?f = "\<lambda>c. c\<lparr>nCmdPeekReady := nCmdPeekReady c + 1\<rparr>"
  let ?s = "tally ?f s"
  show ?thesis
  proof (cases "waiters (tubes s) t = []")
    case True
    then have "tryReserveJob s now t cli = Some (tally (\<lambda>c. c) s, Inl ErrNoReservationFound)"
      using q(1) by (simp add: tryReserveJob_def tally_def)
    then show ?thesis using none True by blast
  next
    case w: False
    then have c: "c \<in> set (waiters (tubes s) t)" using cli by (auto simp: c_def split: option.splits)
    show ?thesis
    proof (cases "NextReadyJob (tubes s) t")
      case (Inl err)
      then have "tryReserveJob s now t cli = Some (?s, Inl ErrNoReservationFound)"
        using q(1) w ready_none(1) [OF inv(1) Inl] by (simp add: tryReserveJob_def PeekReadyJob_def)
      then show ?thesis using none ready_none(2) [OF inv(1) Inl] by blast
    next
      case (Inr e)
      have "jsm_ok ?s E" "E \<subseteq> {c}" using ok cli by (auto simp: c_def split: option.splits)
      then obtain s1 s2 s3 where s: "Reserve ?s now (ID (job_of (jsm_mem ?s) e)) (CliID (cli_at ?s c)) = Some (s1, Inr ())"
          "unReserve s1 c = Some s2" "updateClientTickAt s2 c = Some s3" "jsm_ok s3 {}"
          "matched ?s now t c s3
             \<lparr>rv_RequestId = ReqID (cli_at s2 c), rv_ClientId = CliID (cli_at s2 c),
              rv_JobId = ID (job_of (jsm_mem s2) e), rv_Status = Matched,
              rv_BodySize = BodySize (job_of (jsm_mem s2) e),
              rv_Body = Some (Body (job_of (jsm_mem s2) e)), rv_Error = None\<rparr>"
        using serve_ok [of ?s E c now t e] now c Inr by auto
      let ?r = "\<lparr>rv_RequestId = ReqID (cli_at s2 c), rv_ClientId = CliID (cli_at s2 c),
              rv_JobId = ID (job_of (jsm_mem s2) e), rv_Status = Matched,
              rv_BodySize = BodySize (job_of (jsm_mem s2) e),
              rv_Body = Some (Body (job_of (jsm_mem s2) e)), rv_Error = None\<rparr>"
      have pick: "(case cli of Some c \<Rightarrow> Inr c | None \<Rightarrow> DequeueFromWaitQ (tubes ?s) t) = Inr c"
        using q(2) w by (auto simp: c_def split: option.splits list.splits)
      have "IsWaitingForResv (cli_at s c)" using cinvD(10) [OF inv(2) c] by simp
      then have "tryReserveJob s now t cli = Some (s3, Inr ?r)"
        using q(1) w Inr pick s(1-3) by (simp add: tryReserveJob_def PeekReadyJob_def Let_def)
      moreover have "matched s now t c s3 ?r" using s(5) by (simp add: matched_def)
      ultimately show ?thesis using match [of s3 ?r c] s(4) c unfolding c_def by blast
    qed
  qed
qed

section \<open>A client starts waiting\<close>

lemma waiters_not:
  "cinv s \<Longrightarrow> \<not> (c \<in> set (q_items (clients s)) \<and> IsWaitingForResv (cli_at s c)) \<Longrightarrow> c \<notin> set (waiters (tubes s) t)"
  using cinvD(10) by blast

lemma begin_wait:
  assumes inv: "cinv s"
    and eq: "cli_at s1 = (cli_at s)(c := e)" "tubes s1 = tubes s" "clientHeap s1 = clientHeap s"
      "m_next (jsm_mem s) \<le> m_next (jsm_mem s1)"
    and q: "q_wf (jsm_mem s1) (clients s1)" "set (q_items (clients s1)) = insert c (set (q_items (clients s)))"
    and c: "c < m_next (jsm_mem s1)" "c \<in> set (q_items (clients s)) \<Longrightarrow> \<not> IsWaitingForResv (cli_at s c) \<and>
        HeapIndex e = HeapIndex (cli_at s c) \<and> client_key e = client_key (cli_at s c)"
      "c \<notin> set (q_items (clients s)) \<Longrightarrow> HeapIndex e = -1"
    and e: "IsWaitingForResv e" "distinct (WatchedTubes e)" "ResvDeadlineAt e < maxTime"
  shows "\<exists>ti. wait_on (jsm_mem s1) (tubes s1) c (WatchedTubes e) = Some ti \<and> cinv (s1\<lparr>tubes := ti\<rparr>) \<and>
           same_heaps (tubes s) ti \<and> dom (mget ti) = dom (mget (tubes s)) \<union> set (WatchedTubes e) \<and>
           (\<forall>t. waiters ti t =
              (if t \<in> set (WatchedTubes e) then waiters (tubes s) t @ [c] else waiters (tubes s) t))"
proof -
  have nw: "c \<notin> set (waiters (tubes s) t)" for t using waiters_not [OF inv] c(2) by blast
  have wf: "waits_wf (jsm_mem s1) (tubes s)"
    unfolding waits_wf_def
  proof
    fix t
    have "q_wf (jsm_mem s) (waiting (tube_at (tubes s) t))" using cinvD(2) [OF inv] by (simp add: waits_wf_def)
    then show "q_wf (jsm_mem s1) (waiting (tube_at (tubes s) t))"
      by (rule q_wf_cong) (use nw [of t] in \<open>auto simp: eq(1) waiters_def\<close>)
  qed
  have id: "cli_id (jsm_mem s1) c \<notin> cli_id (jsm_mem s1) ` set (waiters (tubes s) t)" for t
  proof
    assume "cli_id (jsm_mem s1) c \<in> cli_id (jsm_mem s1) ` set (waiters (tubes s) t)"
    then obtain d where d: "d \<in> set (waiters (tubes s) t)" "cli_id (jsm_mem s1) c = cli_id (jsm_mem s1) d" by auto
    have "inj_on (cli_id (jsm_mem s1)) (set (q_items (clients s1)))"
      using q(1) by (simp add: q_wf_def Let_def distinct_map)
    then have "d = c" using d q(2) cinvD(10) [OF inv d(1)] by (auto dest: inj_onD)
    then show False using d(1) nw by simp
  qed
  obtain ti where ti: "wait_on (jsm_mem s1) (tubes s) c (WatchedTubes e) = Some ti" "waits_wf (jsm_mem s1) ti"
      "same_heaps (tubes s) ti" "dom (mget ti) = dom (mget (tubes s)) \<union> set (WatchedTubes e)"
      "\<And>t. waiters ti t = (if t \<in> set (WatchedTubes e) then waiters (tubes s) t @ [c] else waiters (tubes s) t)"
    using wait_on_ok [OF wf e(2) id] by blast
  let ?s = "s1\<lparr>tubes := ti\<rparr>"
  have hc: "c \<in> set (q_items (clients s))" if "c \<in> set (clientHeap s)" using that cinvD(5) [OF inv] by blast
  have keep: "HeapIndex (cli_at ?s x) = HeapIndex (cli_at s x)" "client_key (cli_at ?s x) = client_key (cli_at s x)"
    if "x \<in> set (clientHeap s)" for x
    using that c(2) hc by (auto simp: eq(1))
  have "ch_wf (jsm_mem ?s, clientHeap s)" "ch_ordered (jsm_mem ?s, clientHeap s)"
    using cinvD(3,4) [OF inv] ch_cong [of "clientHeap s" "jsm_mem ?s" "jsm_mem s", OF keep] by blast+
  moreover have "x < m_next (jsm_mem ?s) \<and> (x \<in> set (clientHeap s) \<or> HeapIndex (cli_at ?s x) = -1) \<and>
      (IsWaitingForResv (cli_at ?s x) \<longrightarrow> distinct (WatchedTubes (cli_at ?s x)) \<and>
         ResvDeadlineAt (cli_at ?s x) < maxTime \<and>
         (\<forall>t \<in> set (WatchedTubes (cli_at ?s x)). x \<in> set (waiters ti t)))"
    if x: "x \<in> set (q_items (clients s1))" for x
  proof (cases "x = c")
    case True
    have "c \<in> set (clientHeap s) \<or> HeapIndex e = -1"
      by (cases "c \<in> set (q_items (clients s))") (use c(2,3) cinvD(7) [OF inv, of c] in auto)
    then show ?thesis using True c(1) e(2,3) ti(5) by (auto simp: eq(1))
  next
    case False
    then have x': "x \<in> set (q_items (clients s))" using x q(2) by simp
    then show ?thesis using False cinvD(6,7,8,9) [OF inv x'] ti(5) eq(4) by (auto simp: eq(1))
  qed
  moreover have "x \<in> set (q_items (clients s1)) \<and> IsWaitingForResv (cli_at ?s x) \<and>
      t \<in> set (WatchedTubes (cli_at ?s x))" if x: "x \<in> set (waiters ti t)" for x t
  proof (cases "x = c")
    case True
    then show ?thesis using x ti(5) nw e(1) q(2) by (auto simp: eq(1) split: if_splits)
  next
    case False
    then have "x \<in> set (waiters (tubes s) t)" using x ti(5) by (auto split: if_splits)
    then show ?thesis using cinvD(10) [OF inv, of x t] False q(2) by (auto simp: eq(1))
  qed
  moreover have "set (clientHeap s) \<subseteq> set (q_items (clients s1))" using cinvD(5) [OF inv] q(2) by blast
  moreover have "q_wf (jsm_mem ?s) (clients s1)" "waits_wf (jsm_mem ?s) ti" using q(1) ti(2) by simp_all
  moreover have sel: "clients ?s = clients s1" "clientHeap ?s = clientHeap s" "tubes ?s = ti" using eq(3) by simp_all
  ultimately have "cinv ?s" unfolding cinv_def sel by blast
  then show ?thesis using ti eq(2) by auto
qed

lemma begin_wait_tinv:
  assumes t: "tinv s {}" and at: "cli_at s' = (cli_at s)(c := e)" and h: "clientHeap s' = clientHeap s"
    and q: "set (q_items (clients s')) = insert c (set (q_items (clients s)))" and v: "job_views s' = job_views s"
    and c: "c \<in> set (clientHeap s) \<Longrightarrow> client_key e = client_key (cli_at s c)"
  shows "tinv s' {c}"
proof -
  have k: "cli_id (jsm_mem s') d = cli_id (jsm_mem s) d \<and> TickAt (cli_at s' d) = TickAt (cli_at s d)"
    if "d \<in> set (clientHeap s)" for d
    using c that by (auto simp: at client_key_def)
  have "cli_at s' d = cli_at s d" if "d \<in> set (q_items (clients s')) - {c}" for d using that by (auto simp: at)
  then have "\<forall>d \<in> set (q_items (clients s')) - {c}. IsWaitingForResv (cli_at s' d) \<longrightarrow>
        d \<in> set (clientHeap s) \<and> TickAt (cli_at s' d) \<le> ResvDeadlineAt (cli_at s' d)"
    using t q unfolding tinv_def by auto
  moreover have "\<exists>d \<in> set (clientHeap s). cli_id (jsm_mem s') d = reservedBy w \<and> TickAt (cli_at s' d) \<le> expiresAt w"
    if w: "job_views s i = Some w \<and> state w = Reserved" for i w
  proof -
    obtain d where "d \<in> set (clientHeap s)" "cli_id (jsm_mem s) d = reservedBy w" "TickAt (cli_at s d) \<le> expiresAt w"
      using t w unfolding tinv_def by blast
    then show ?thesis using k by metis
  qed
  ultimately show ?thesis unfolding tinv_def h v by blast
qed

text \<open>\<open>started c e s s1\<close>: the entry \<open>e\<close> of the client \<open>c\<close> says that it waits.\<close>

definition started :: "ref \<Rightarrow> ClientResvEntry \<Rightarrow> localJSM \<Rightarrow> localJSM \<Rightarrow> bool" where
  "started c e s s1 \<longleftrightarrow>
     cli_at s1 = (cli_at s)(c := e) \<and> tubes s1 = tubes s \<and> clientHeap s1 = clientHeap s \<and> same_jobs s s1 \<and>
     q_wf (jsm_mem s1) (clients s1) \<and> set (q_items (clients s1)) = insert c (set (q_items (clients s))) \<and>
     c < m_next (jsm_mem s1) \<and>
     (c \<in> set (q_items (clients s)) \<longrightarrow> \<not> IsWaitingForResv (cli_at s c) \<and>
        HeapIndex e = HeapIndex (cli_at s c) \<and> client_key e = client_key (cli_at s c)) \<and>
     (c \<notin> set (q_items (clients s)) \<longrightarrow> HeapIndex e = -1)"

lemma resv_client_started:
  assumes inv: "cinv s" and w: "waiting_on s i = None"
  shows "\<exists>s1 c e. resv_client s i req ts dl = Some (s1, Inr c) \<and> started c e s s1 \<and>
           CliID e = i \<and> ReqID e = req \<and> WatchedTubes e = ts \<and> ResvDeadlineAt e = dl \<and> IsWaitingForResv e"
proof (cases "clientResvQueue_Find (clients s) i")
  case (Inl err)
  note f = cq.Find_error [OF cinvD(1) [OF inv], of i err]
  let ?c = "m_next (jsm_mem s)"
  let ?e = "\<lparr>CliID = i, WatchedTubes = ts, ResvDeadlineAt = dl, IsWaitingForResv = True, TickAt = 0,
      ReqID = req, HeapIndex = -1\<rparr>"
  define m where "m = fst (new_client (jsm_mem s) ?e)"
  have m: "new_client (jsm_mem s) ?e = (m, ?c)" "m_clients m = (m_clients (jsm_mem s))(?c := ?e)"
      "m_jobs m = m_jobs (jsm_mem s)" "m_entries m = m_entries (jsm_mem s)" "m_next m = Suc ?c"
    by (simp_all add: m_def new_client_def)
  have new: "?c \<notin> set (q_items (clients s))" using cinvD(6) [OF inv] by blast
  have q1: "q_wf m (clients s)" by (rule q_wf_cong [OF cinvD(1) [OF inv]]) (use new m(2) in auto)
  have "cli_id m ` set (q_items (clients s)) = cli_id (jsm_mem s) ` set (q_items (clients s))"
    by (rule image_cong) (use new m(2) in auto)
  then have "cli_id m ?c \<notin> cli_id m ` set (q_items (clients s))" using f Inl m(2) by simp
  then obtain q where q: "clientResvQueue_Enqueue m (clients s) ?c = (q, None)" "q_wf m q"
      "q_items q = q_items (clients s) @ [?c]"
    using cq.Enqueue_new [OF q1, of ?c] cq.Contains_iff [OF q1] by blast
  let ?s = "s\<lparr>jsm_mem := m, clients := q\<rparr>"
  have "resv_client s i req ts dl = Some (?s, Inr ?c)"
    using Inl f m(1) q(1) by (simp add: resv_client_def)
  moreover have "started ?c ?e s ?s"
    using m(2-5) q(2,3) new by (simp add: started_def same_jobs_def fun_eq_iff)
  ultimately show ?thesis by fastforce
next
  case (Inr c)
  let ?e = "(cli_at s c)\<lparr>ReqID := req, WatchedTubes := ts, ResvDeadlineAt := dl, IsWaitingForResv := True\<rparr>"
  let ?s = "update_cli s c (\<lambda>c. c\<lparr>ReqID := req, WatchedTubes := ts, ResvDeadlineAt := dl, IsWaitingForResv := True\<rparr>)"
  have c: "c \<in> set (q_items (clients s))" "CliID (cli_at s c) = i"
    using cq.Find_iff [OF cinvD(1) [OF inv]] Inr by auto
  have nw: "\<not> IsWaitingForResv (cli_at s c)" using w Inr by (auto simp: waiting_on_def)
  have "q_wf (jsm_mem ?s) (clients s)" by (rule q_wf_cong [OF cinvD(1) [OF inv]]) simp
  then have "started c ?e s ?s"
    using c(1) nw cinvD(6) [OF inv c(1)]
    by (simp add: started_def same_jobs_def client_key_def insert_absorb fun_eq_iff)
  moreover have "resv_client s i req ts dl = Some (?s, Inr c)" using Inr nw by (simp add: resv_client_def)
  moreover have "CliID ?e = i \<and> ReqID ?e = req \<and> WatchedTubes ?e = ts \<and> ResvDeadlineAt ?e = dl \<and> IsWaitingForResv ?e"
    using c(2) by simp
  ultimately show ?thesis by blast
qed

lemma started_waiting:
  assumes inv: "cinv s" "cinv s2" and q: "set (q_items (clients s2)) = insert c (set (q_items (clients s)))"
    and at: "cli_at s2 = (cli_at s)(c := e)" and e: "IsWaitingForResv e"
    and c: "c \<in> set (q_items (clients s)) \<Longrightarrow> \<not> IsWaitingForResv (cli_at s c) \<and> CliID e = CliID (cli_at s c)"
  shows "waiting_on s2 = (waiting_on s)(CliID e \<mapsto> (ReqID e, WatchedTubes e, ResvDeadlineAt e))"
proof (rule waiting_on_eqI)
  fix i x
  have a: "cli_at s2 d = (if d = c then e else cli_at s d)" for d by (simp add: at)
  have c2: "c \<in> set (q_items (clients s2))" using q by simp
  show "waiting_on s2 i = Some x \<longleftrightarrow>
      ((waiting_on s)(CliID e \<mapsto> (ReqID e, WatchedTubes e, ResvDeadlineAt e))) i = Some x"
  proof (cases "i = CliID e")
    case True
    have "waiting_on s2 (CliID e) = Some (ReqID e, WatchedTubes e, ResvDeadlineAt e)"
      using waiting_on_client [OF inv(2) c2] a [of c] e by simp
    then show ?thesis using True by auto
  next
    case False
    have "d \<in> set (q_items (clients s2)) \<and> CliID (cli_at s2 d) = i \<and> IsWaitingForResv (cli_at s2 d) \<and>
          x = (ReqID (cli_at s2 d), WatchedTubes (cli_at s2 d), ResvDeadlineAt (cli_at s2 d)) \<longleftrightarrow>
        d \<in> set (q_items (clients s)) \<and> CliID (cli_at s d) = i \<and> IsWaitingForResv (cli_at s d) \<and>
          x = (ReqID (cli_at s d), WatchedTubes (cli_at s d), ResvDeadlineAt (cli_at s d))" for d
      using False c q by (cases "d = c") (auto simp: a)
    then have "waiting_on s2 i = Some x \<longleftrightarrow> waiting_on s i = Some x"
      unfolding waiting_on_iff [OF inv(1)] waiting_on_iff [OF inv(2)] Bex_def by simp
    then show ?thesis using False by simp
  qed
qed

lemma resv_client_waits:
  assumes ok: "jsm_ok s {}" and w: "waiting_on s i = None" and ts: "distinct ts" and dl: "dl < maxTime"
  shows "\<exists>s1 c ti. resv_client s i req ts dl = Some (s1, Inr c) \<and> WatchedTubes (cli_at s1 c) = ts \<and>
           wait_on (jsm_mem s1) (tubes s1) c ts = Some ti \<and> jsm_ok (s1\<lparr>tubes := ti\<rparr>) {c} \<and>
           c \<in> set (q_items (clients s1)) \<and> CliID (cli_at s1 c) = i \<and> ReqID (cli_at s1 c) = req \<and>
           (\<forall>t \<in> set ts. c \<in> set (waiters ti t)) \<and> same_jobs s (s1\<lparr>tubes := ti\<rparr>) \<and>
           waiting_on (s1\<lparr>tubes := ti\<rparr>) = (waiting_on s)(i \<mapsto> (req, ts, dl)) \<and>
           (\<forall>t. wait_line (s1\<lparr>tubes := ti\<rparr>) t = wait_line s t @ (if t \<in> set ts then [i] else []))"
proof -
  have inv: "cinv s" "tinv s {}" using ok by (simp_all add: jsm_ok_def)
  obtain s1 c e where s1: "resv_client s i req ts dl = Some (s1, Inr c)" "started c e s s1"
      "CliID e = i" "ReqID e = req" "WatchedTubes e = ts" "ResvDeadlineAt e = dl" "IsWaitingForResv e"
    using resv_client_started [OF inv(1) w, of req ts dl] by blast
  have st: "cli_at s1 = (cli_at s)(c := e)" "tubes s1 = tubes s" "clientHeap s1 = clientHeap s" "same_jobs s s1"
      "q_wf (jsm_mem s1) (clients s1)" "set (q_items (clients s1)) = insert c (set (q_items (clients s)))"
      "c < m_next (jsm_mem s1)" "m_next (jsm_mem s) \<le> m_next (jsm_mem s1)"
      "c \<in> set (q_items (clients s)) \<Longrightarrow> \<not> IsWaitingForResv (cli_at s c) \<and>
        HeapIndex e = HeapIndex (cli_at s c) \<and> client_key e = client_key (cli_at s c)"
      "c \<notin> set (q_items (clients s)) \<Longrightarrow> HeapIndex e = -1"
    using s1(2) unfolding started_def same_jobs_def by blast+
  have at: "cli_at s1 c = e" by (simp add: st(1))
  obtain ti where ti: "wait_on (jsm_mem s1) (tubes s1) c ts = Some ti" "cinv (s1\<lparr>tubes := ti\<rparr>)"
      "same_heaps (tubes s) ti"
      "\<And>t. waiters ti t = (if t \<in> set ts then waiters (tubes s) t @ [c] else waiters (tubes s) t)"
    using begin_wait [OF inv(1) st(1-3,8,5,6,7,9,10) s1(7)] ts dl s1(5,6) by auto
  let ?s = "s1\<lparr>tubes := ti\<rparr>"
  have sj: "same_jobs s ?s" using st(4) ti(3) by (simp add: same_jobs_def same_heaps_def st(2))
  have t2: "tinv ?s {c}"
    by (rule begin_wait_tinv [OF inv(2), where e = e])
      (use st(1,3,6,9) same_jobs_views [OF sj] cinvD(5) [OF inv(1)] in auto)
  have ok2: "jsm_ok ?s {c}" using same_jobs_jsm_ok [OF ok sj ti(2) t2] .
  have "waiting_on ?s = (waiting_on s)(CliID e \<mapsto> (ReqID e, WatchedTubes e, ResvDeadlineAt e))"
    by (rule started_waiting [OF inv(1) ti(2)]) (use st(1,6,9) s1(7) in \<open>auto simp: client_key_def\<close>)
  moreover have "wait_line ?s t = wait_line s t @ (if t \<in> set ts then [i] else [])" for t
  proof -
    have "c \<notin> set (waiters (tubes s) t)" using waiters_not [OF inv(1)] st(9) by blast
    then have "map (cli_id (jsm_mem s1)) (waiters (tubes s) t) = map (cli_id (jsm_mem s)) (waiters (tubes s) t)"
      by (auto simp: st(1))
    then show ?thesis using s1(3) at by (simp add: wait_line_def ti(4))
  qed
  moreover have "\<forall>t \<in> set ts. c \<in> set (waiters ti t)" by (simp add: ti(4))
  ultimately show ?thesis using s1 at ti(1) ok2 sj st(6) by auto
qed

section \<open>The loop over the watched tubes\<close>

lemma tally_tally: "tally f (tally g s) = tally (f \<circ> g) s"
  by (simp add: tally_def)

lemma matched_tally [simp]: "matched (tally f s) now t c s' r = matched s now t c s' r"
  "matched s now t c (tally f s') r = matched s now t c s' r"
  by (simp_all add: matched_def)

lemma try_tubes_cases:
  assumes ok: "jsm_ok s {c}" and now: "sane_time now" and w: "\<And>t. t \<in> set ts \<Longrightarrow> c \<in> set (waiters (tubes s) t)"
  shows "(\<exists>f. try_tubes s now c ts = Some (tally f s, None) \<and>
            (\<forall>t \<in> set ts. ids_at (job_views s) (LReady t) = {})) \<or>
         (\<exists>ts1 t ts2 s' r. ts = ts1 @ t # ts2 \<and> (\<forall>u \<in> set ts1. ids_at (job_views s) (LReady u) = {}) \<and>
            try_tubes s now c ts = Some (s', Some r) \<and> jsm_ok s' {} \<and> matched s now t c s' r)"
  using ok w
proof (induction ts arbitrary: s)
  case Nil
  have "tally (\<lambda>x. x) s = s" by (simp add: tally_def)
  then show ?case by (intro disjI1 exI [of _ "\<lambda>x. x"]) simp
next
  case (Cons t ts)
  have w: "c \<in> set (waiters (tubes s) t)" using Cons.prems(2) by simp
  then have "mget (tubes s) t = Some (tube_at (tubes s) t)" by (intro waiters_exists) auto
  then have dom: "t \<in> dom (mget (tubes s))" by blast
  have cli: "case Some c of None \<Rightarrow> {c} = {} | Some d \<Rightarrow> {c} \<subseteq> {d} \<and> d \<in> set (waiters (tubes s) t)"
    using w by simp
  show ?case using Cons.prems(1) now dom cli
  proof (cases rule: tryReserveJob_cases)
    case (none f)
    then have none': "ids_at (job_views s) (LReady t) = {}" using w by auto
    have ok': "jsm_ok (tally f s) {c}" and w': "\<And>u. u \<in> set ts \<Longrightarrow> c \<in> set (waiters (tubes (tally f s)) u)"
      using Cons.prems by simp_all
    show ?thesis
    proof (cases "\<exists>g. try_tubes (tally f s) now c ts = Some (tally g (tally f s), None) \<and>
          (\<forall>t \<in> set ts. ids_at (job_views (tally f s)) (LReady t) = {})")
      case True
      then show ?thesis using none(1) none' by (intro disjI1) (auto simp: tally_tally)
    next
      case False
      then obtain ts1 u ts2 s' r where "ts = ts1 @ u # ts2" "\<forall>u \<in> set ts1. ids_at (job_views s) (LReady u) = {}"
          "try_tubes (tally f s) now c ts = Some (s', Some r)" "jsm_ok s' {}" "matched s now u c s' r"
        using Cons.IH [OF ok' w'] unfolding job_views_tally matched_tally by blast
      then show ?thesis using none(1) none'
        by (intro disjI2 exI [of _ "t # ts1"] exI [of _ u] exI [of _ ts2] exI [of _ s'] exI [of _ r]) auto
    qed
  next
    case (match s' r d)
    let ?s = "tally (\<lambda>c. c\<lparr>nResv := wrap64 (nResv c + 1), nResvOnDemand := wrap64 (nResvOnDemand c + 1)\<rparr>) s'"
    have "try_tubes s now c (t # ts) = Some (?s, Some r)" using match(1) by simp
    then show ?thesis using match
      by (intro disjI2 exI [of _ "[]"] exI [of _ t] exI [of _ ts] exI [of _ ?s] exI [of _ r]) simp
  qed
qed

section \<open>Asking for a reservation\<close>

definition queued_reply :: "string \<Rightarrow> ClientID \<Rightarrow> Reservation" where
  "queued_reply req i =
     \<lparr>rv_RequestId = req, rv_ClientId = i, rv_JobId = 0, rv_Status = Queued, rv_BodySize = 0,
      rv_Body = None, rv_Error = None\<rparr>"

lemma resv_limit: "sane_time now \<Longrightarrow> wrap64 (now + maxTimeoutSecs) = now + 86400"
  by (subst wrap64_id) (simp_all add: sane_time_def in_int64_def maxTimeoutSecs_def)

lemma AppendReservation_refused:
  assumes now: "sane_time now"
  shows "dl < now \<or> now + 86400 < dl \<Longrightarrow>
      AppendReservation s i req ts now dl = Some (s, Inl ErrInvalidResvTimeout)"
    and "now \<le> dl \<Longrightarrow> dl \<le> now + 86400 \<Longrightarrow> waiting_on s i \<noteq> None \<Longrightarrow>
      \<exists>f. AppendReservation s i req ts now dl = Some (tally f s, Inl ErrClientIsWaitingForReservation)"
proof -
  show "dl < now \<or> now + 86400 < dl \<Longrightarrow>
      AppendReservation s i req ts now dl = Some (s, Inl ErrInvalidResvTimeout)"
    using resv_limit [OF now] by (simp add: AppendReservation_def Let_def)
  assume dl: "now \<le> dl" "dl \<le> now + 86400" and w: "waiting_on s i \<noteq> None"
  then obtain c where "clientResvQueue_Find (clients s) i = Inr c" "IsWaitingForResv (cli_at s c)"
    by (auto simp: waiting_on_def split: sum.splits if_splits)
  then have r: "resv_client (tally f s) i req ts dl = Some (tally f s, Inl ErrClientIsWaitingForReservation)" for f
    by (simp add: resv_client_def)
  show "\<exists>f. AppendReservation s i req ts now dl = Some (tally f s, Inl ErrClientIsWaitingForReservation)"
    using dl resv_limit [OF now] unfolding AppendReservation_def Let_def r by auto
qed

text \<open>
  A client that is not waiting gets the most urgent job of the first tube with a ready job,
  and nothing else changes; if no tube has one, it is put at the end of the lines.
\<close>

lemma AppendReservation_accepted:
  assumes ok: "jsm_ok s {}" and now: "sane_time now" and ts: "distinct ts"
    and dl: "now \<le> dl" "dl \<le> now + 86400" and w: "waiting_on s i = None"
  obtains (match) s' ts1 t ts2 k v where "ts = ts1 @ t # ts2"
      and "\<forall>u \<in> set ts1. ids_at (job_views s) (LReady u) = {}" and "most_urgent (job_views s) t k v"
      and "AppendReservation s i req ts now dl = Some (s', Inr \<lparr>rv_RequestId = req, rv_ClientId = i,
             rv_JobId = k, rv_Status = Matched, rv_BodySize = bodySize v, rv_Body = Some (body v), rv_Error = None\<rparr>)"
      and "jsm_ok s' {}" and "job_views s' = (job_views s)(k \<mapsto> held now i v)"
      and "waiting_on s' = waiting_on s" and "wait_line s' = wait_line s"
  | (queue) s' where "\<forall>u \<in> set ts. ids_at (job_views s) (LReady u) = {}"
      and "AppendReservation s i req ts now dl = Some (s', Inr (queued_reply req i))"
      and "jsm_ok s' {}" and "job_views s' = job_views s"
      and "waiting_on s' = (waiting_on s)(i \<mapsto> (req, ts, dl))"
      and "\<And>t. wait_line s' t = wait_line s t @ (if t \<in> set ts then [i] else [])"
proof -
  let ?f = "if dl = wrap64 (now + maxTimeoutSecs) then (\<lambda>c. c\<lparr>nCmdReserved := nCmdReserved c + 1\<rparr>)
      else (\<lambda>c. c\<lparr>nCmdReservedWithTimeout := nCmdReservedWithTimeout c + 1\<rparr>)"
  let ?s = "tally ?f s"
  have dlm: "dl < maxTime" using dl(2) now by (simp add: sane_time_def maxTime_def)
  have ok': "jsm_ok ?s {}" and w': "waiting_on ?s i = None" using ok w by simp_all
  obtain s1 c ti where s1: "resv_client ?s i req ts dl = Some (s1, Inr c)" "WatchedTubes (cli_at s1 c) = ts"
      "wait_on (jsm_mem s1) (tubes s1) c ts = Some ti" "jsm_ok (s1\<lparr>tubes := ti\<rparr>) {c}"
      "c \<in> set (q_items (clients s1))" "CliID (cli_at s1 c) = i" "ReqID (cli_at s1 c) = req"
      "\<forall>t \<in> set ts. c \<in> set (waiters ti t)" "same_jobs ?s (s1\<lparr>tubes := ti\<rparr>)"
      "waiting_on (s1\<lparr>tubes := ti\<rparr>) = (waiting_on ?s)(i \<mapsto> (req, ts, dl))"
      "\<And>t. wait_line (s1\<lparr>tubes := ti\<rparr>) t = wait_line ?s t @ (if t \<in> set ts then [i] else [])"
    using resv_client_waits [OF ok' w' ts dlm, of req] by blast
  let ?s2 = "s1\<lparr>tubes := ti\<rparr>"
  have v2: "job_views ?s2 = job_views s" using same_jobs_views [OF s1(9)] by simp
  have line: "i \<notin> set (wait_line s t)" for t
  proof
    assume "i \<in> set (wait_line s t)"
    then obtain d where d: "d \<in> set (waiters (tubes s) t)" "CliID (cli_at s d) = i" by (auto simp: wait_line_def)
    have "cinv s" using ok by (simp add: jsm_ok_def)
    then show False using waiting_on_client [of s d] cinvD(10) [of s d t] d w by simp
  qed
  have A: "AppendReservation s i req ts now dl =
      (case try_tubes ?s2 now c ts of
         None \<Rightarrow> None
       | Some (s, Some resv) \<Rightarrow> Some (s, Inr resv)
       | Some (s, None) \<Rightarrow>
           (case updateClientTickAt s c of
              None \<Rightarrow> None
            | Some s \<Rightarrow> Some (s, Inr (queued_reply req (CliID (cli_at s c))))))"
    unfolding queued_reply_def
    using dl resv_limit [OF now] s1(1-3) by (simp add: AppendReservation_def Let_def)
  have w2: "\<And>t. t \<in> set ts \<Longrightarrow> c \<in> set (waiters (tubes ?s2) t)" using s1(8) by simp
  consider f where "try_tubes ?s2 now c ts = Some (tally f ?s2, None)"
      "\<forall>t \<in> set ts. ids_at (job_views ?s2) (LReady t) = {}"
    | ts1 t ts2 s' r where "ts = ts1 @ t # ts2" "\<forall>u \<in> set ts1. ids_at (job_views ?s2) (LReady u) = {}"
      "try_tubes ?s2 now c ts = Some (s', Some r)" "jsm_ok s' {}" "matched ?s2 now t c s' r"
    using try_tubes_cases [OF s1(4) now w2] by blast
  then show ?thesis
  proof cases
    case 1
    let ?s3 = "tally f ?s2"
    have ok3: "jsm_ok ?s3 {c}" and c3: "c \<in> set (q_items (clients ?s3))" using s1(4,5) by simp_all
    obtain s' where s': "updateClientTickAt ?s3 c = Some s'" "ticked c ?s3 s'" "jsm_ok s' {}"
      using ticked_jsm_ok [OF ok3 c3] by blast
    have "waiting_on s' = waiting_on ?s3" "wait_line s' = wait_line ?s3"
      using ticked_waiting [OF s'(2)] ok3 s'(3) unfolding jsm_ok_def by blast+
    moreover have "job_views s' = job_views ?s3" "CliID (cli_at s' c) = i"
      using same_jobs_views [of ?s3 s'] s'(2) s1(6) by (simp_all add: ticked_def cli_same_def)
    ultimately show ?thesis
      using 1 queue [of s'] A s' v2 s1(10,11) by simp
  next
    case 2
    obtain k v where kv: "most_urgent (job_views s) t k v" "r = match_reply (cli_at s1 c) k v"
        "job_views s' = (job_views s)(k \<mapsto> held now i v)"
        "waiting_on s' = (waiting_on ?s2)(i := None)" "\<And>u. wait_line s' u = remove1 i (wait_line ?s2 u)"
      using 2(5) v2 s1(6) unfolding matched_def by auto
    have "waiting_on s' = waiting_on s" using kv(4) s1(10) w by (auto simp: fun_eq_iff)
    moreover have "wait_line s' = wait_line s"
      by (rule ext) (use kv(5) s1(11) line in \<open>simp add: remove1_append remove1_idem\<close>)
    ultimately show ?thesis
      using match [OF 2(1) _ kv(1) _ 2(4) kv(3)] 2(2,3) v2 A kv(2) s1(6,7) by (simp add: match_reply_def)
  qed
qed

section \<open>Keeping a reservation alive\<close>

definition spec_touch :: "int64 \<Rightarrow> ClientID \<Rightarrow> localJob \<Rightarrow> error + localJob" where
  "spec_touch now c v =
     (if state v \<noteq> Reserved then Inl ErrInvalidOperation
      else if reservedBy v \<noteq> c then Inl ErrUnauthorizedOperation
      else Inr (v\<lparr>expiresAt := wrap64 (now + ttr v)\<rparr>))"

lemma touch_moves:
  assumes inv: "jobs_inv s {}" and e: "mget (ji_m (jobs s)) k = Some e"
    and st: "State (job_at s (ie_job e)) = Reserved" "ReservedBy (job_at s (ie_job e)) = c"
  shows "\<exists>je s1 s'. ie_entry e = Some je \<and>
           on_reserved (\<lambda>rs. reservedJobsIndex_Remove rs je) s = Some (s1, Inr (ie_job e)) \<and>
           enqueue_reserved (update_job s1 (ie_job e) (UpdateReservation now)) c k e = Some (s', Inr ()) \<and>
           refines s (Some (s', Inr ())) (on_job (job_views s) k (spec_touch now c))"
proof -
  let ?f = "UpdateReservation now"
  obtain je s1 where t: "ie_entry e = Some je"
      "on_reserved (\<lambda>rs. reservedJobsIndex_Remove rs je) s = Some (s1, Inr (ie_job e))" "taken k s s1"
    using take_reserved [OF inv e st(1)] by blast
  note t1 = taken_index [OF t(3)]
  have "jobs_inv (update_job s1 (ie_job e) ?f) {k}"
    by (rule jobs_inv_update) (use t1 e in \<open>simp_all add: job_simps\<close>)
  then obtain s' where p: "enqueue_reserved (update_job s1 (ie_job e) ?f) c k e = Some (s', Inr ())"
      "placed k e (update_job s1 (ie_job e) ?f) s'"
    using put_reserved [of "update_job s1 (ie_job e) ?f" k e] t1 e st by (auto simp: job_simps)
  have "refines s (Some (s', Inr ())) (on_job (job_views s) k (spec_touch now c))"
    by (rule refines_moved [OF inv e t(3) p(2)])
      (use st in \<open>simp_all add: spec_touch_def job_simps\<close>)
  then show ?thesis using t p by blast
qed

lemma Touch_ok:
  assumes ok: "jsm_ok s {}" and now: "sane_time now" and c: "c \<noteq> []"
  shows "\<exists>s'. Touch s now k c =
             Some (s', map_sum (\<lambda>e. e) (\<lambda>_. ()) (on_job (job_views s) k (spec_touch now c))) \<and>
           jsm_ok s' {} \<and> waiting_on s' = waiting_on s \<and> wait_line s' = wait_line s \<and>
           job_views s' = (case on_job (job_views s) k (spec_touch now c) of Inl _ \<Rightarrow> job_views s | Inr V \<Rightarrow> V)"
proof (cases "mget (ji_m (jobs s)) k")
  case None
  then show ?thesis using ok by (simp add: Touch_def get_entry_eq on_job_def job_views_eq [of s])
next
  case (Some e)
  let ?s = "tally (\<lambda>c. c\<lparr>nCmdTouch := nCmdTouch c + 1\<rparr>) s"
  let ?v = "view (job_at s (ie_job e))"
  let ?v' = "?v\<lparr>expiresAt := wrap64 (now + ttr ?v)\<rparr>"
  have v: "job_views s k = Some ?v" using Some by (simp add: job_views_eq)
  show ?thesis
  proof (cases "state ?v = Reserved \<and> reservedBy ?v = c")
    case False
    then have "Touch s now k c = Some (?s, map_sum (\<lambda>e. e) (\<lambda>_. ()) (on_job (job_views s) k (spec_touch now c)))"
      using Some c v by (auto simp: Touch_def get_entry_eq on_job_def spec_touch_def unauthorized_def getter_view)
    moreover have "(case on_job (job_views s) k (spec_touch now c) of Inl _ \<Rightarrow> job_views s | Inr V \<Rightarrow> V) = job_views s"
      using False v by (auto simp: on_job_def spec_touch_def)
    ultimately show ?thesis using ok by simp
  next
    case True
    have inv: "jobs_inv ?s {}" "delay_ok ?s" "sane ?s" "cinv ?s" "tinv ?s {}"
      using ok jsm_ok_tally unfolding jsm_ok_def by blast+
    have spec: "on_job (job_views s) k (spec_touch now c) = Inr ((job_views s)(k \<mapsto> ?v'))"
      using True v by (simp add: on_job_def spec_touch_def)
    obtain je s1 s2 where m: "ie_entry e = Some je"
        "on_reserved (\<lambda>rs. reservedJobsIndex_Remove rs je) ?s = Some (s1, Inr (ie_job e))"
        "enqueue_reserved (update_job s1 (ie_job e) (UpdateReservation now)) c k e = Some (s2, Inr ())"
        "refines ?s (Some (s2, Inr ())) (on_job (job_views ?s) k (spec_touch now c))"
      using touch_moves [OF inv(1), of k e c now] Some True by (auto simp: getter_view)
    have r: "jobs_inv s2 {}" "same_clients ?s s2" "delay_ok s2" "job_views s2 = (job_views s)(k \<mapsto> ?v')"
      using m(4) inv(2) spec unfolding refines_def by auto
    have eq: "clients s2 = clients s" "cli_at s2 = cli_at s" using r(2) by (simp_all add: same_clients_def)
    obtain d where d: "d \<in> set (clientHeap ?s)" "cli_id (jsm_mem ?s) d = c"
      using inv(5) v True unfolding tinv_def by fastforce
    then have d2: "d \<in> set (q_items (clients s2))" "CliID (cli_at s2 d) = c"
      using cinvD(5) [OF inv(4)] eq by auto
    have c2: "cinv s2" using cinv_same_clients [OF inv(4) r(2) jobs_inv_waits [OF r(1)]] .
    have find: "clientResvQueue_Find (clients s2) c = Inr d"
      using cq.Find_iff [OF cinvD(1) [OF c2]] d2 by blast
    have ttr: "sane_ttr (ttr ?v)" using inv(3) v unfolding sane_def by fastforce
    have "- (2 ^ 62) < expiresAt ?v' \<and> expiresAt ?v' < maxTime"
      using sane_sum [OF now ttr] now ttr by (simp add: sane_time_def sane_ttr_def maxTime_def)
    then have "sane s2" using inv(3) ttr unfolding sane_def r(4) by auto
    moreover have "tinv s2 {d}"
    proof (rule tinv_same_clients [OF inv(5) r(2)])
      fix i w assume w: "job_views s2 i = Some w" "state w = Reserved"
      show "reservedBy w \<in> cli_id (jsm_mem ?s) ` {d} \<or>
          (\<exists>i' v'. job_views ?s i' = Some v' \<and> state v' = Reserved \<and> reservedBy v' = reservedBy w \<and>
             expiresAt v' \<le> expiresAt w)"
        using w True d(2) unfolding r(4) by (cases "i = k") auto
    qed simp
    ultimately have "jsm_ok s2 {d}" using r c2 by (simp add: jsm_ok_def)
    then obtain s3 where s3: "updateClientTickAt s2 d = Some s3" "ticked d s2 s3" "jsm_ok s3 {}"
      using ticked_jsm_ok d2(1) by blast
    have "Touch s now k c = Some (s3, Inr ())"
      using Some True c m(1-3) find s3(1)
      by (simp add: Touch_def get_entry_eq unauthorized_def getter_view Let_def)
    moreover have "waiting_on s3 = waiting_on s2" "wait_line s3 = wait_line s2"
      using ticked_waiting [OF s3(2)] \<open>jsm_ok s2 {d}\<close> s3(3) unfolding jsm_ok_def by blast+
    moreover have "waiting_on s2 = waiting_on s" "wait_line s2 = wait_line s"
      using same_clients_waiting [OF r(2)] by simp_all
    moreover have "job_views s3 = job_views s2" using same_jobs_views s3(2) by (simp add: ticked_def)
    ultimately show ?thesis using spec s3(3) r(4) by simp
  qed
qed

end
