(* ===== verification/JSM_Tick.thy ===== *)
theory JSM_Tick
  imports JSM_Reserve
begin

text \<open>
  The clock. \<^verbatim>\<open>Tick\<close> makes the delayed jobs ready whose time has come, matches waiting
  clients with ready jobs, and then looks at the clients whose time has come: it takes
  expired jobs away from them and ends their waits. All its loops end, none of its panics is
  reached, and afterwards nothing is overdue.
\<close>

section \<open>Delayed jobs\<close>

text \<open>The invariant while the delayed jobs are looked at.\<close>

definition ticking :: "localJSM \<Rightarrow> bool" where
  "ticking s \<longleftrightarrow> jobs_inv s {} \<and> sane s \<and> cinv s \<and> tinv s {}"

lemma jsm_ok_ticking: "jsm_ok s {} \<longleftrightarrow> ticking s \<and> delay_ok s"
  by (auto simp: jsm_ok_def ticking_def)

lemma ticking_tally [simp]: "ticking (tally f s) = ticking s"
  unfolding ticking_def sane_def cinv_def tinv_def by simp

lemma ticking_nextDelayTickAt [simp]: "ticking (s\<lparr>nextDelayTickAt := n\<rparr>) = ticking s"
  unfolding ticking_def sane_def cinv_def tinv_def by simp

definition due :: "int64 \<Rightarrow> TubeName set \<Rightarrow> localJob \<Rightarrow> bool" where
  "due now T v \<longleftrightarrow> state v = Delayed \<and> tubeName v \<in> T \<and> readyAt v < now"

definition ripen :: "int64 \<Rightarrow> TubeName set \<Rightarrow> job_table \<Rightarrow> job_table" where
  "ripen now T V = (\<lambda>i. map_option (\<lambda>v. if due now T v then v\<lparr>state := Ready\<rparr> else v) (V i))"

lemma ripen_none:
  assumes "\<And>i v. V i = Some v \<Longrightarrow> \<not> due now T v"
  shows "ripen now T V = V"
proof
  fix i show "ripen now T V i = V i" using assms [of i] by (cases "V i") (simp_all add: ripen_def)
qed

lemma ripen_cong:
  assumes "\<And>i v. V i = Some v \<Longrightarrow> due now T v = due now T' v"
  shows "ripen now T V = ripen now T' V"
proof
  fix i show "ripen now T V i = ripen now T' V i" using assms [of i] by (cases "V i") (simp_all add: ripen_def)
qed

lemma ripen_empty [simp]: "ripen now {} V = V"
  by (rule ripen_none) (simp add: due_def)

lemma ripen_step:
  "V i = Some v \<Longrightarrow> due now T v \<Longrightarrow> ripen now T (V(i \<mapsto> v\<lparr>state := Ready\<rparr>)) = ripen now T V"
  by (auto simp: ripen_def fun_eq_iff due_def)

lemma ripen_union: "ripen now T' (ripen now T V) = ripen now (T \<union> T') V"
proof
  fix i show "ripen now T' (ripen now T V) i = ripen now (T \<union> T') V i"
    by (cases "V i") (auto simp: ripen_def due_def)
qed

lemma ripen_Some: "ripen now T V i = Some v \<Longrightarrow> state v = Delayed \<Longrightarrow> V i = Some v \<and> \<not> due now T v"
proof -
  assume "ripen now T V i = Some v" and st: "state v = Delayed"
  then obtain w where w: "V i = Some w" "v = (if due now T w then w\<lparr>state := Ready\<rparr> else w)"
    by (auto simp: ripen_def)
  then have "\<not> due now T w" using st by auto
  then show "V i = Some v \<and> \<not> due now T v" using w by simp
qed

lemma loc_delayed: "loc_of v = Some (LDelayed t) \<longleftrightarrow> state v = Delayed \<and> tubeName v = t"
  by (cases "state v") (auto simp: loc_of_def)

lemma delayed_root:
  assumes inv: "jobs_inv s {}" and p: "NextDelayedJob (tubes s) t = Inr e"
  defines "i \<equiv> ID (job_of (jsm_mem s) e)" and "v \<equiv> view (job_of (jsm_mem s) e)"
  shows "job_views s i = Some v" and "state v = Delayed" and "tubeName v = t"
    and "\<And>k w. job_views s k = Some w \<Longrightarrow> state w = Delayed \<Longrightarrow> tubeName w = t \<Longrightarrow> readyAt v \<le> readyAt w"
    and "\<exists>ie. mget (ji_m (jobs s)) i = Some ie \<and> view (job_at s (ie_job ie)) = v \<and>
           jobHeap_Peek (heaps s (LDelayed t)) = ie_entry ie"
proof -
  have pk: "jobHeap_Peek (heaps s (LDelayed t)) = Some e"
    using p next_job_peek(2) [of s t] by (simp split: option.splits)
  have g: "\<not> has_ghost s (LDelayed t)" using ghosts_are_buried [OF inv] by fastforce
  note l = peek_least [OF inv g pk]
  show "job_views s i = Some v" using l(1) by (simp add: i_def v_def)
  show "state v = Delayed" "tubeName v = t" using l(2) by (simp_all add: v_def loc_delayed)
  show "readyAt v \<le> readyAt w" if "job_views s k = Some w" "state w = Delayed" "tubeName w = t" for k w
    using l(3) [OF that(1)] that(2,3) loc_delayed [of w t] by (auto simp: v_def less_eq_prod_def)
  show "\<exists>ie. mget (ji_m (jobs s)) i = Some ie \<and> view (job_at s (ie_job ie)) = v \<and>
           jobHeap_Peek (heaps s (LDelayed t)) = ie_entry ie"
    using entry_index [OF inv g jobHeap_Peek_mem [OF pk]] pk by (simp add: i_def v_def job_of_def)
qed

lemma Ready_root_ok:
  assumes ok: "ticking s" and e: "NextDelayedJob (tubes s) t = Inr e"
  defines "i \<equiv> ID (job_of (jsm_mem s) e)" and "v \<equiv> view (job_of (jsm_mem s) e)"
  shows "\<exists>s'. jsm_Ready s i = Some (s', Inr ()) \<and> ticking s' \<and> same_clients s s' \<and>
           dom (mget (tubes s')) = dom (mget (tubes s)) \<and> nextDelayTickAt s' = nextDelayTickAt s \<and>
           job_views s' = (job_views s)(i \<mapsto> v\<lparr>state := Ready\<rparr>)"
proof -
  have inv: "jobs_inv s {}" "sane s" "cinv s" "tinv s {}" using ok by (simp_all add: ticking_def)
  note r = delayed_root [OF inv(1) e, folded i_def v_def]
  obtain ie where ie: "mget (ji_m (jobs s)) i = Some ie" "view (job_at s (ie_job ie)) = v"
      "jobHeap_Peek (heaps s (LDelayed t)) = ie_entry ie"
    using r(5) by blast
  have st: "State (job_at s (ie_job ie)) = Delayed" and tn: "TubeName (job_at s (ie_job ie)) = t"
    using ie(2) r(2,3) by (simp_all add: getter_view)
  note m = fromDelayedToReady_refines [OF inv(1) ie(1) st, unfolded tn, OF ie(3)]
  obtain s' where s': "fromDelayedToReady s i = Some (s', Inr ())" "dom (mget (tubes s')) = dom (mget (tubes s))"
      "nextDelayTickAt s' = nextDelayTickAt s"
    using m(2) by blast
  have "on_job (job_views s) i spec_ready = Inr ((job_views s)(i \<mapsto> v\<lparr>state := Ready\<rparr>))"
    using r(1,2) by (simp add: on_job_def spec_ready_def)
  then have s'': "jobs_inv s' {}" "same_clients s s'" "job_views s' = (job_views s)(i \<mapsto> v\<lparr>state := Ready\<rparr>)"
    using m(1) s'(1) by (auto simp: refines_def)
  have nn: "no_new_holds (job_views s) (job_views s')"
    unfolding s''(3) using r(1) by (rule no_new_holds_upd) simp_all
  have "cinv s'" using cinv_same_clients [OF inv(3) s''(2) jobs_inv_waits [OF s''(1)]] .
  moreover have "tinv s' {}"
    by (rule tinv_same_clients [OF inv(4) s''(2) order_refl])
      (use nn in \<open>unfold no_new_holds_def, metis order_refl\<close>)
  moreover have "sane s'" using inv(2) nn unfolding sane_def no_new_holds_def by metis
  ultimately have "ticking s'" using s''(1) by (simp add: ticking_def)
  then show ?thesis using s' s'' by (auto simp: jsm_Ready_def)
qed

text \<open>What one pass over a tube does; \<open>n'\<close> is the earliest time among the jobs that stay.\<close>

definition delay_pass :: "int64 \<Rightarrow> TubeName set \<Rightarrow> localJSM \<Rightarrow> int64 \<Rightarrow> localJSM \<Rightarrow> int64 \<Rightarrow> bool" where
  "delay_pass now T s n s' n' \<longleftrightarrow>
     ticking s' \<and> same_clients s s' \<and> dom (mget (tubes s')) = dom (mget (tubes s)) \<and>
     job_views s' = ripen now T (job_views s) \<and> n' \<le> n \<and>
     (\<forall>i v. job_views s' i = Some v \<and> state v = Delayed \<and> tubeName v \<in> T \<longrightarrow> n' \<le> readyAt v) \<and>
     (n' = n \<or> now \<le> n' \<and> (\<exists>i v. job_views s' i = Some v \<and> state v = Delayed \<and> readyAt v = n'))"

lemma finite_due: "finite {i. \<exists>v. job_views s i = Some v \<and> due now T v}"
  by (rule finite_subset [OF _ finite_views [of s]]) auto

lemma tickDelay_tube_ok:
  assumes "ticking s"
  shows "\<exists>s' n'. tickDelay_tube now t s n = Some (s', n') \<and> delay_pass now {t} s n s' n'"
  using assms
proof (induction "card {i. \<exists>v. job_views s i = Some v \<and> due now {t} v}" arbitrary: s rule: less_induct)
  case less
  let ?s = "tally (\<lambda>c. c\<lparr>nCmdPeekDelayed := nCmdPeekDelayed c + 1\<rparr>) s"
  have ok: "ticking ?s" using less.prems by simp
  have inv: "jobs_inv s {}" using less.prems by (simp add: ticking_def)
  show ?case
  proof (cases "NextDelayedJob (tubes s) t")
    case (Inl err)
    then have pk: "jobHeap_Peek (heaps s (LDelayed t)) = None" "err = ErrEntryMissing"
      using next_job_peek(2) [of s t] by (auto split: option.splits)
    have none: "\<not> (state v = Delayed \<and> tubeName v = t)" if "job_views s i = Some v" for i v
      using peek_none(1) [OF inv pk(1)] that loc_delayed by (auto simp: ids_at_def)
    then have "ripen now {t} (job_views s) = job_views s" by (intro ripen_none) (auto simp: due_def)
    then have "delay_pass now {t} s n ?s n"
      unfolding delay_pass_def using less.prems none by auto
    moreover have "tickDelay_tube now t s n = Some (?s, n)"
      using Inl pk(2) by (subst tickDelay_tube.simps) (simp add: PeekDelayedJob_def)
    ultimately show ?thesis by blast
  next
    case (Inr e)
    let ?i = "ID (job_of (jsm_mem s) e)" and ?v = "view (job_of (jsm_mem s) e)"
    note r = delayed_root [OF inv Inr]
    have ra: "ReadyAt (job_of (jsm_mem s) e) = readyAt ?v" by (simp add: getter_view)
    show ?thesis
    proof (cases "readyAt ?v \<ge> now")
      case True
      let ?n = "if readyAt ?v < n then readyAt ?v else n"
      have "\<not> due now {t} w" if "job_views s k = Some w" for k w
        using r(4) [OF that] True by (auto simp: due_def)
      then have "ripen now {t} (job_views s) = job_views s" by (intro ripen_none) blast
      moreover have "?n \<le> readyAt w"
        if "job_views s k = Some w" "state w = Delayed" "tubeName w = t" for k w
        using r(4) [OF that] by auto
      moreover have "?n = n \<or> now \<le> ?n \<and> (\<exists>i v. job_views s i = Some v \<and> state v = Delayed \<and> readyAt v = ?n)"
        using r(1,2) True by auto
      ultimately have "delay_pass now {t} s n ?s ?n"
        unfolding delay_pass_def using less.prems by auto
      moreover have "tickDelay_tube now t s n = Some (?s, ?n)"
        using Inr True ra by (subst tickDelay_tube.simps) (simp add: PeekDelayedJob_def)
      ultimately show ?thesis by blast
    next
      case False
      then have d: "due now {t} ?v" using r(2,3) by (simp add: due_def)
      obtain s1 where s1: "jsm_Ready ?s ?i = Some (s1, Inr ())" "ticking s1" "same_clients ?s s1"
          "dom (mget (tubes s1)) = dom (mget (tubes s))" "job_views s1 = (job_views s)(?i \<mapsto> ?v\<lparr>state := Ready\<rparr>)"
        using Ready_root_ok [OF ok, of t e] Inr by auto
      have "{i. \<exists>v. job_views s1 i = Some v \<and> due now {t} v} \<subset> {i. \<exists>v. job_views s i = Some v \<and> due now {t} v}"
        using s1(5) r(1) d by (auto simp: due_def split: if_splits)
      then have "card {i. \<exists>v. job_views s1 i = Some v \<and> due now {t} v} < card {i. \<exists>v. job_views s i = Some v \<and> due now {t} v}"
        by (rule psubset_card_mono [OF finite_due])
      then obtain s' n' where s': "tickDelay_tube now t s1 n = Some (s', n')" "delay_pass now {t} s1 n s' n'"
        using less.hyps s1(2) by blast
      have rip: "ripen now {t} (job_views s1) = ripen now {t} (job_views s)"
        unfolding s1(5) using r(1) d by (rule ripen_step)
      have "same_clients s s1" using s1(3) by simp
      then have "same_clients s s'" using s'(2) same_clients_trans unfolding delay_pass_def by blast
      then have "delay_pass now {t} s n s' n'"
        using s'(2) unfolding delay_pass_def s1(4) rip by blast
      moreover have "tickDelay_tube now t s n = Some (s', n')"
        using Inr False ra s1(1) s'(1) by (subst tickDelay_tube.simps) (simp add: PeekDelayedJob_def)
      ultimately show ?thesis by blast
    qed
  qed
qed

lemma delay_pass_trans:
  assumes a: "delay_pass now T s n s1 n1" and b: "delay_pass now T' s1 n1 s' n'"
  shows "delay_pass now (T \<union> T') s n s' n'"
proof -
  have v1: "job_views s1 = ripen now T (job_views s)" and v': "job_views s' = ripen now T' (job_views s1)"
    and n: "n1 \<le> n" "n' \<le> n1"
    using a b by (simp_all add: delay_pass_def)
  have low: "n' \<le> readyAt v" if v: "job_views s' i = Some v" "state v = Delayed" "tubeName v \<in> T \<union> T'" for i v
  proof (cases "tubeName v \<in> T'")
    case True
    then show ?thesis using b v unfolding delay_pass_def by blast
  next
    case False
    have "job_views s1 i = Some v" using v(1,2) ripen_Some unfolding v' by blast
    then have "n1 \<le> readyAt v" using a v(2,3) False unfolding delay_pass_def by blast
    then show ?thesis using n(2) by simp
  qed
  have at: "n' = n \<or> now \<le> n' \<and> (\<exists>i v. job_views s' i = Some v \<and> state v = Delayed \<and> readyAt v = n')"
  proof (cases "n' = n1 \<and> n1 \<noteq> n")
    case True
    then obtain i v where iv: "job_views s1 i = Some v" "state v = Delayed" "readyAt v = n1"
      using a unfolding delay_pass_def by blast
    have "now \<le> n1" using a True unfolding delay_pass_def by blast
    then have "job_views s' i = Some v" using iv(1,3) unfolding v' by (simp add: ripen_def due_def)
    then show ?thesis using iv True \<open>now \<le> n1\<close> by blast
  next
    case False
    then show ?thesis using b unfolding delay_pass_def by blast
  qed
  have "same_clients s s'" using a b same_clients_trans unfolding delay_pass_def by blast
  moreover have "job_views s' = ripen now (T \<union> T') (job_views s)" unfolding v' v1 by (rule ripen_union)
  ultimately show ?thesis using a b low at n unfolding delay_pass_def by auto
qed

lemma tickDelay_tubes_ok:
  assumes "ticking s"
  shows "\<exists>s' n'. tickDelay_tubes now ord s n = Some (s', n') \<and> delay_pass now (set ord) s n s' n'"
  using assms
proof (induction ord arbitrary: s n)
  case Nil
  then show ?case by (auto simp: delay_pass_def)
next
  case (Cons t ord)
  obtain s1 n1 where s1: "tickDelay_tube now t s n = Some (s1, n1)" "delay_pass now {t} s n s1 n1"
    using tickDelay_tube_ok [OF Cons.prems] by blast
  then have "ticking s1" by (simp add: delay_pass_def)
  then obtain s' n' where s': "tickDelay_tubes now ord s1 n1 = Some (s', n')" "delay_pass now (set ord) s1 n1 s' n'"
    using Cons.IH by blast
  have "delay_pass now (set (t # ord)) s n s' n'" using delay_pass_trans [OF s1(2) s'(2)] by simp
  then show ?case using s1(1) s'(1) by simp
qed

lemma tube_of_job:
  assumes inv: "jobs_inv s {}" and v: "job_views s i = Some v" and st: "state v \<in> {Ready, Delayed, Buried}"
  shows "tubeName v \<in> dom (mget (tubes s))"
proof (rule ccontr)
  assume n: "tubeName v \<notin> dom (mget (tubes s))"
  then have e: "entries (heaps s l) = []" if "l \<in> {LReady (tubeName v), LDelayed (tubeName v), LBuried (tubeName v)}" for l
    using that by (auto simp: tube_at_def NewPriorityJobs_def NewDelayedJobs_def NewBuriedJobs_def split: option.splits)
  obtain l where l: "loc_of v = Some l" "l \<in> {LReady (tubeName v), LDelayed (tubeName v), LBuried (tubeName v)}"
    using st by (auto simp: loc_of_def)
  obtain x where "x \<in> set (entries (heaps s l))" using views_entry [OF inv v l(1)] by metis
  then show False using e [OF l(2)] by simp
qed

text \<open>If all tubes are visited, all jobs whose time has come are ready, and the next time is right.\<close>

lemma tickDelayJobs_ok:
  assumes ok: "ticking s" and ord: "set ord = dom (mget (tubes s))"
  shows "\<exists>s'. tickDelayJobs s now ord = Some s' \<and> jsm_ok s' {} \<and> same_clients s s' \<and>
           dom (mget (tubes s')) = dom (mget (tubes s)) \<and> job_views s' = ripen now UNIV (job_views s) \<and>
           (nextDelayTickAt s' = maxTime \<or> now \<le> nextDelayTickAt s')"
proof -
  obtain s1 n where s1: "tickDelay_tubes now ord s maxTime = Some (s1, n)" "delay_pass now (set ord) s maxTime s1 n"
    using tickDelay_tubes_ok [OF ok] by blast
  have inv: "jobs_inv s {}" "jobs_inv s1 {}" using ok s1(2) by (simp_all add: delay_pass_def ticking_def)
  have d1: "dom (mget (tubes s1)) = set ord" using s1(2) ord by (simp add: delay_pass_def)
  have "due now (set ord) v = due now UNIV v" if "job_views s i = Some v" for i v
    using tube_of_job [OF inv(1) that] ord by (auto simp: due_def)
  then have "ripen now (set ord) (job_views s) = ripen now UNIV (job_views s)"
    by (rule ripen_cong)
  then have v: "job_views s1 = ripen now UNIV (job_views s)" using s1(2) by (simp add: delay_pass_def)
  let ?s = "s1\<lparr>nextDelayTickAt := n\<rparr>"
  have "n \<le> readyAt w" if w: "job_views s1 i = Some w" "state w = Delayed" for i w
    using s1(2) w tube_of_job [OF inv(2) w(1)] d1 unfolding delay_pass_def by auto
  then have "delay_ok ?s" by (auto simp: delay_ok_def)
  then have "jsm_ok ?s {}" using s1(2) by (simp add: jsm_ok_ticking delay_pass_def)
  moreover have "same_clients s ?s" "n = maxTime \<or> now \<le> n"
    using s1(2) by (auto simp: delay_pass_def same_clients_def)
  ultimately show ?thesis using s1 v d1 ord by (simp add: tickDelayJobs_def)
qed

section \<open>Ready jobs\<close>

text \<open>
  What clients and operators see of the state: the jobs, who waits for what, and the lines.
  \<open>served now a rs b\<close>: the reservations \<open>rs\<close> lead from \<open>a\<close> to \<open>b\<close>, each of them the most
  urgent ready job of a tube for the first client in its line.
\<close>

type_synonym seen = "job_table \<times> (ClientID \<Rightarrow> (string \<times> TubeName list \<times> int64) option) \<times> (TubeName \<Rightarrow> ClientID list)"

definition seen_of :: "localJSM \<Rightarrow> seen" where
  "seen_of s = (job_views s, waiting_on s, wait_line s)"

definition reply :: "string \<Rightarrow> ClientID \<Rightarrow> JobID \<Rightarrow> localJob \<Rightarrow> Reservation" where
  "reply req i k v =
     \<lparr>rv_RequestId = req, rv_ClientId = i, rv_JobId = k, rv_Status = Matched,
      rv_BodySize = bodySize v, rv_Body = Some (body v), rv_Error = None\<rparr>"

inductive served :: "int64 \<Rightarrow> seen \<Rightarrow> Reservation list \<Rightarrow> seen \<Rightarrow> bool" for now where
  served_none: "served now a [] a"
| served_one: "most_urgent V t k v \<Longrightarrow> L t = i # line \<Longrightarrow> W i = Some (req, ts, dl) \<Longrightarrow> t \<in> set ts \<Longrightarrow>
     served now (V(k \<mapsto> held now i v), W(i := None), \<lambda>u. remove1 i (L u)) rs b \<Longrightarrow>
     served now (V, W, L) (reply req i k v # rs) b"

inductive_cases served_ConsE: "served now a (r # rs) b"
inductive_cases served_NilE: "served now a [] b"

lemma served_append: "served now a rs b \<Longrightarrow> served now b qs c \<Longrightarrow> served now a (rs @ qs) c"
  by (induction rule: served.induct) (auto intro: served.intros)

text \<open>A tube is idle if nobody waits for it or it has no ready job.\<close>

definition idle :: "seen \<Rightarrow> TubeName \<Rightarrow> bool" where
  "idle a t = (case a of (V, W, L) \<Rightarrow> L t = [] \<or> ids_at V (LReady t) = {})"

lemma held_not_ready: "loc_of (held now i v) \<noteq> Some (LReady t)"
  by (simp add: loc_of_def held_def)

lemma ids_at_held: "ids_at (V(k \<mapsto> held now i v)) (LReady t) = ids_at V (LReady t) - {k}"
  using held_not_ready by (auto simp: ids_at_def)

lemma served_idle: "served now a rs b \<Longrightarrow> idle a t \<Longrightarrow> idle b t"
  by (induction rule: served.induct) (auto simp: idle_def ids_at_held)

lemma seen_of_tally [simp]: "seen_of (tally f s) = seen_of s"
  by (simp add: seen_of_def)

lemma matched_served:
  assumes inv: "cinv s" and m: "matched s now t c s' r" and w: "waiters (tubes s) t = c # cs"
  shows "served now (seen_of s) [r] (seen_of s')" and "\<exists>k. k \<in> ids_at (job_views s) (LReady t) \<and>
      ids_at (job_views s') (LReady t) = ids_at (job_views s) (LReady t) - {k}"
proof -
  let ?i = "CliID (cli_at s c)"
  obtain k v where kv: "most_urgent (job_views s) t k v" "r = match_reply (cli_at s c) k v"
      "job_views s' = (job_views s)(k \<mapsto> held now ?i v)" "waiting_on s' = (waiting_on s)(?i := None)"
      "wait_line s' = (\<lambda>u. remove1 ?i (wait_line s u))"
    using m by (auto simp: matched_def fun_eq_iff)
  have c: "c \<in> set (waiters (tubes s) t)" using w by simp
  note cl = cinvD(10) [OF inv c]
  have "waiting_on s ?i = Some (ReqID (cli_at s c), WatchedTubes (cli_at s c), ResvDeadlineAt (cli_at s c))"
    using waiting_on_client [OF inv] cl by blast
  moreover have "wait_line s t = ?i # map (cli_id (jsm_mem s)) cs" using w by (simp add: wait_line_def)
  ultimately have "served now (seen_of s) [reply (ReqID (cli_at s c)) ?i k v] (seen_of s')"
    unfolding seen_of_def kv(3-5) using served_one [OF kv(1)] served_none cl by blast
  then show "served now (seen_of s) [r] (seen_of s')"
    using kv(2) by (simp add: match_reply_def reply_def)
  have "k \<in> ids_at (job_views s) (LReady t)"
    using kv(1) by (auto simp: most_urgent_def ids_at_def loc_ready)
  then show "\<exists>k. k \<in> ids_at (job_views s) (LReady t) \<and>
      ids_at (job_views s') (LReady t) = ids_at (job_views s) (LReady t) - {k}"
    unfolding kv(3) ids_at_held by blast
qed

lemma tickReady_tube_ok:
  assumes "jsm_ok s {}" and now: "sane_time now" and "t \<in> dom (mget (tubes s))"
  shows "\<exists>s' rs. tickReady_tube now t s res = Some (s', res @ rs) \<and> jsm_ok s' {} \<and>
           dom (mget (tubes s')) = dom (mget (tubes s)) \<and> served now (seen_of s) rs (seen_of s') \<and>
           idle (seen_of s') t"
  using assms(1,3)
proof (induction "card (ids_at (job_views s) (LReady t))" arbitrary: s res rule: less_induct)
  case less
  have "case None of None \<Rightarrow> {} = {} | Some c \<Rightarrow> {} \<subseteq> {c} \<and> c \<in> set (waiters (tubes s) t)" by simp
  with less.prems(1) now less.prems(2) show ?case
  proof (cases rule: tryReserveJob_cases)
    case (none f)
    have "tickReady_tube now t s res = Some (tally f s, res @ [])"
      using none(1) by (subst tickReady_tube.simps) simp
    moreover have "idle (seen_of (tally f s)) t"
      using none(2) by (auto simp: idle_def seen_of_def wait_line_def)
    ultimately show ?thesis using less.prems served_none [of now "seen_of s"] by fastforce
  next
    case (match s1 r c)
    let ?s = "tally (\<lambda>c. c\<lparr>nResv := wrap64 (nResv c + 1), nResvOnTick := wrap64 (nResvOnTick c + 1)\<rparr>) s1"
    have inv: "cinv s" using less.prems(1) by (simp add: jsm_ok_def)
    obtain cs where "waiters (tubes s) t = c # cs" using match(3,4) by (cases "waiters (tubes s) t") auto
    note m = matched_served [OF inv match(5) this]
    have "card (ids_at (job_views s1) (LReady t)) < card (ids_at (job_views s) (LReady t))"
      using m(2) finite_ids_at [of s "LReady t"] by (metis card_Diff1_less)
    moreover have "jsm_ok ?s {}" "t \<in> dom (mget (tubes ?s))"
      using match(2,5) less.prems(2) by (simp_all add: matched_def)
    ultimately obtain s' rs where s': "tickReady_tube now t ?s (res @ [r]) = Some (s', (res @ [r]) @ rs)" "jsm_ok s' {}"
        "dom (mget (tubes s')) = dom (mget (tubes ?s))" "served now (seen_of ?s) rs (seen_of s')" "idle (seen_of s') t"
      using less.hyps [of ?s "res @ [r]"] by auto
    have "tickReady_tube now t s res = Some (s', res @ r # rs)"
      using match(1) s'(1) by (subst tickReady_tube.simps) simp
    moreover have "served now (seen_of s) (r # rs) (seen_of s')"
      using served_append [OF m(1)] s'(4) by simp
    ultimately show ?thesis using s' match(5) by (auto simp: matched_def)
  qed
qed

lemma tickReadyJobs_ok:
  assumes "jsm_ok s {}" and now: "sane_time now" and "set ord \<subseteq> dom (mget (tubes s))"
  shows "\<exists>s' rs. tickReadyJobs now ord s res = Some (s', res @ rs) \<and> jsm_ok s' {} \<and>
           dom (mget (tubes s')) = dom (mget (tubes s)) \<and> served now (seen_of s) rs (seen_of s') \<and>
           (\<forall>t \<in> set ord. idle (seen_of s') t)"
  using assms(1,3)
proof (induction ord arbitrary: s res)
  case Nil
  then show ?case using served_none [of now "seen_of s"] by fastforce
next
  case (Cons t ord)
  have "t \<in> dom (mget (tubes s))" using Cons.prems(2) by simp
  then obtain s1 rs1 where s1: "tickReady_tube now t s res = Some (s1, res @ rs1)" "jsm_ok s1 {}"
      "dom (mget (tubes s1)) = dom (mget (tubes s))" "served now (seen_of s) rs1 (seen_of s1)" "idle (seen_of s1) t"
    using tickReady_tube_ok [OF Cons.prems(1) now, of t res] by blast
  obtain s' rs where s': "tickReadyJobs now ord s1 (res @ rs1) = Some (s', (res @ rs1) @ rs)" "jsm_ok s' {}"
      "dom (mget (tubes s')) = dom (mget (tubes s1))" "served now (seen_of s1) rs (seen_of s')"
      "\<forall>t \<in> set ord. idle (seen_of s') t"
    using Cons.IH [OF s1(2), of "res @ rs1"] Cons.prems(2) s1(3) by auto
  show ?case
    using s1 s' served_append [OF s1(4) s'(4)] served_idle [OF s'(4) s1(5)]
    by (intro exI [of _ s'] exI [of _ "rs1 @ rs"]) simp
qed

section \<open>Clients\<close>

definition timed_out :: "localJob \<Rightarrow> localJob" where
  "timed_out v = v\<lparr>state := Ready, reservedBy := [], timeoutCount := timeoutCount v + 1\<rparr>"

definition stop_reply :: "ReservationStatus \<Rightarrow> string \<Rightarrow> ClientID \<Rightarrow> Reservation" where
  "stop_reply status req i =
     \<lparr>rv_RequestId = req, rv_ClientId = i, rv_JobId = 0, rv_Status = status, rv_BodySize = 0,
      rv_Body = None, rv_Error = None\<rparr>"

text \<open>
  \<open>ended now a rs b\<close>: jobs with an expired reservation become ready again, and clients stop
  waiting, because their deadline has passed or because a job they hold is about to expire.
\<close>

inductive ended :: "int64 \<Rightarrow> seen \<Rightarrow> Reservation list \<Rightarrow> seen \<Rightarrow> bool" for now where
  ended_none: "ended now a [] a"
| ended_job: "V k = Some v \<Longrightarrow> state v = Reserved \<Longrightarrow> expiresAt v < now \<Longrightarrow>
     ended now (V(k \<mapsto> timed_out v), W, L) rs b \<Longrightarrow> ended now (V, W, L) rs b"
| ended_timeout: "W i = Some (req, ts, dl) \<Longrightarrow> dl < now \<Longrightarrow>
     ended now (V, W(i := None), \<lambda>u. remove1 i (L u)) rs b \<Longrightarrow>
     ended now (V, W, L) (stop_reply Timeout req i # rs) b"
| ended_soon: "W i = Some (req, ts, dl) \<Longrightarrow> V k = Some v \<Longrightarrow> state v = Reserved \<Longrightarrow> reservedBy v = i \<Longrightarrow>
     expiresAt v = now \<Longrightarrow> ended now (V, W(i := None), \<lambda>u. remove1 i (L u)) rs b \<Longrightarrow>
     ended now (V, W, L) (stop_reply DeadlineSoon req i # rs) b"

lemma ended_append: "ended now a rs b \<Longrightarrow> ended now b qs c \<Longrightarrow> ended now a (rs @ qs) c"
  by (induction rule: ended.induct) (auto intro: ended.intros)

text \<open>What processing one client leaves alone.\<close>

definition others_same :: "localJSM \<Rightarrow> localJSM \<Rightarrow> bool" where
  "others_same s s' \<longleftrightarrow>
     clients s' = clients s \<and> clientHeap s' = clientHeap s \<and>
     (\<forall>d. CliID (cli_at s' d) = CliID (cli_at s d) \<and> TickAt (cli_at s' d) = TickAt (cli_at s d))"

lemma others_same_refl [simp]: "others_same s s"
  by (simp add: others_same_def)

lemma others_same_trans: "others_same s t \<Longrightarrow> others_same t u \<Longrightarrow> others_same s u"
  by (simp add: others_same_def)

lemma others_same_clients: "same_clients s s' \<Longrightarrow> others_same s s'"
  by (simp add: others_same_def same_clients_def)

lemma others_same_unwaited: "unwaited c s s' \<Longrightarrow> others_same s s'"
  by (simp add: others_same_def unwaited_def)

lemma Release_ok:
  assumes ok: "jsm_ok s E" and v: "job_views s i = Some v" "state v = Reserved" "reservedBy v = c"
  shows "\<exists>s'. Release s i c = Some (s', Inr ()) \<and> jsm_ok s' E \<and> same_clients s s' \<and>
           job_views s' = (job_views s)(i \<mapsto> timed_out v)"
proof -
  have inv: "jobs_inv s {}" using ok by (simp add: jsm_ok_def)
  have spec: "on_job (job_views s) i (spec_timeout c) = Inr ((job_views s)(i \<mapsto> timed_out v))"
    using v by (simp add: on_job_def spec_timeout_def holder_check_def timed_out_def)
  have "no_new_holds (job_views s) ((job_views s)(i \<mapsto> timed_out v))"
    using v(1) by (rule no_new_holds_upd) (simp_all add: timed_out_def)
  then show ?thesis
    using jsm_ok_refines [OF ok Release_refines [OF inv, of i c]] unfolding spec by (metis map_sum.simps(2) sum.case(2) sum.inject(2))
qed

text \<open>A client stops waiting, for either reason.\<close>

lemma stop_waiting:
  assumes ok: "jsm_ok s E" and c: "c \<in> set (q_items (clients s))" and w: "IsWaitingForResv (cli_at s c)"
  defines "i \<equiv> CliID (cli_at s c)"
  shows "\<exists>s'. unReserve s c = Some s' \<and> jsm_ok s' E \<and> others_same s s' \<and> unwaited c s s' \<and>
           waiting_on s i = Some (ReqID (cli_at s c), WatchedTubes (cli_at s c), ResvDeadlineAt (cli_at s c)) \<and>
           no_job_reservation s c status = stop_reply status (ReqID (cli_at s c)) i \<and>
           seen_of s' = (job_views s, (waiting_on s)(i := None), \<lambda>u. remove1 i (wait_line s u))"
proof -
  have inv: "cinv s" using ok by (simp add: jsm_ok_def)
  obtain s' where s': "unReserve s c = Some s'" "unwaited c s s'" "cinv s'"
    using unReserve_ok [OF inv c w] by blast
  have "job_views s' = job_views s" using s'(2) same_jobs_views by (simp add: unwaited_def)
  then have "seen_of s' = (job_views s, (waiting_on s)(i := None), \<lambda>u. remove1 i (wait_line s u))"
    using unwaited_waiting [OF s'(2) inv s'(3) c] by (simp add: seen_of_def i_def fun_eq_iff)
  then show ?thesis
    using s' unwaited_jsm_ok [OF ok s'(2,3)] others_same_unwaited [OF s'(2)] waiting_on_client [OF inv c w]
    by (simp add: i_def no_job_reservation_def stop_reply_def)
qed

lemma tickClient_timeout_ok:
  assumes ok: "jsm_ok s E" and c: "c \<in> set (q_items (clients s))"
  shows "\<exists>s' rs. tickClient_timeout now c s res = Some (s', res @ rs) \<and> jsm_ok s' E \<and> others_same s s' \<and>
           ended now (seen_of s) rs (seen_of s') \<and>
           (IsWaitingForResv (cli_at s' c) \<longrightarrow> now \<le> ResvDeadlineAt (cli_at s' c))"
proof (cases "IsWaitingForResv (cli_at s c) \<and> now > ResvDeadlineAt (cli_at s c)")
  case True
  let ?i = "CliID (cli_at s c)" and ?r = "stop_reply Timeout (ReqID (cli_at s c)) (CliID (cli_at s c))"
  obtain s' where s': "unReserve s c = Some s'" "jsm_ok s' E" "others_same s s'" "unwaited c s s'"
      "waiting_on s ?i = Some (ReqID (cli_at s c), WatchedTubes (cli_at s c), ResvDeadlineAt (cli_at s c))"
      "no_job_reservation s c Timeout = ?r"
      "seen_of s' = (job_views s, (waiting_on s)(?i := None), \<lambda>u. remove1 ?i (wait_line s u))"
    using stop_waiting [OF ok c] True by blast
  have "ended now (seen_of s) [?r] (seen_of s')"
    unfolding s'(7) unfolding seen_of_def using True
    by (intro ended_timeout [where W = "waiting_on s", OF s'(5)] ended_none) simp
  moreover have "tickClient_timeout now c s res = Some (s', res @ [?r])"
    using True s'(1,6) by (simp add: tickClient_timeout_def Let_def)
  moreover have "\<not> IsWaitingForResv (cli_at s' c)" using s'(4) by (simp add: unwaited_def)
  ultimately show ?thesis using s'(2,3) by blast
next
  case False
  have "tickClient_timeout now c s res = Some (s, res @ [])"
    using False by (auto simp: tickClient_timeout_def)
  then show ?thesis using ok ended_none [of now "seen_of s"] False by fastforce
qed

text \<open>The jobs of the client: at most as many releases as it holds jobs, and one end of its wait.\<close>

definition settled :: "int64 \<Rightarrow> ref \<Rightarrow> localJSM \<Rightarrow> bool" where
  "settled now c s \<longleftrightarrow>
     (\<forall>e. jsm_NextReservedJob s (CliID (cli_at s c)) = Inr e \<longrightarrow>
        now \<le> ExpiresAt (job_of (jsm_mem s) e) \<and>
        (IsWaitingForResv (cli_at s c) \<longrightarrow> now \<le> wrap64 (ExpiresAt (job_of (jsm_mem s) e) - 1)))"

definition work :: "int64 \<Rightarrow> ref \<Rightarrow> localJSM \<Rightarrow> nat" where
  "work now c s = 2 * card {i. \<exists>v. job_views s i = Some v \<and> state v = Reserved \<and> expiresAt v < now} +
     (if IsWaitingForResv (cli_at s c) then 1 else 0)"

lemma work_release:
  assumes "job_views s i = Some v" and "state v = Reserved" and "expiresAt v < now"
    and "job_views s' = (job_views s)(i \<mapsto> timed_out v)"
    and "IsWaitingForResv (cli_at s' c) = IsWaitingForResv (cli_at s c)"
  shows "work now c s' < work now c s"
proof -
  let ?X = "\<lambda>s. {i. \<exists>v. job_views s i = Some v \<and> state v = Reserved \<and> expiresAt v < now}"
  have "finite (?X s)" by (rule finite_subset [OF _ finite_views [of s]]) auto
  moreover have "?X s' \<subset> ?X s" using assms(1-4) by (auto simp: timed_out_def split: if_splits)
  ultimately have "card (?X s') < card (?X s)" by (rule psubset_card_mono)
  then show ?thesis using assms(5) by (simp add: work_def)
qed

lemma tickClient_jobs_ok:
  assumes "jsm_ok s E" and "c \<in> set (q_items (clients s))"
    and "IsWaitingForResv (cli_at s c) \<longrightarrow> now \<le> ResvDeadlineAt (cli_at s c)"
  shows "\<exists>s' rs. tickClient_jobs now c s res = Some (s', res @ rs) \<and> jsm_ok s' E \<and> others_same s s' \<and>
           ended now (seen_of s) rs (seen_of s') \<and> settled now c s' \<and>
           (IsWaitingForResv (cli_at s' c) \<longrightarrow> now \<le> ResvDeadlineAt (cli_at s' c))"
  using assms
proof (induction "work now c s" arbitrary: s res rule: less_induct)
  case less
  note ok = less.prems(1)
  have inv: "jobs_inv s {}" "sane s" using ok by (simp_all add: jsm_ok_def)
  let ?i = "CliID (cli_at s c)"
  show ?case
  proof (cases "jsm_NextReservedJob s ?i")
    case (Inl err)
    then have "tickClient_jobs now c s res = Some (s, res @ [])"
      using reserved_none(1) [OF inv(1) Inl] by (subst tickClient_jobs.simps) simp
    moreover have "settled now c s" using Inl by (simp add: settled_def)
    ultimately show ?thesis using less.prems ended_none [of now "seen_of s"] by fastforce
  next
    case (Inr e)
    let ?k = "ID (job_of (jsm_mem s) e)" and ?v = "view (job_of (jsm_mem s) e)"
    note r = reserved_root [OF inv(1) Inr]
    have x: "ExpiresAt (job_of (jsm_mem s) e) = expiresAt ?v" by (simp add: getter_view)
    have "- (2 ^ 62) < expiresAt ?v \<and> expiresAt ?v < maxTime" using inv(2) r(1,2) unfolding sane_def by blast
    then have wr: "wrap64 (expiresAt ?v - 1) = expiresAt ?v - 1"
      by (intro wrap64_id) (simp add: in_int64_def maxTime_def)
    consider (expired) "expiresAt ?v < now"
      | (soon) "\<not> expiresAt ?v < now" "expiresAt ?v - 1 < now" "IsWaitingForResv (cli_at s c)"
      | (fine) "\<not> expiresAt ?v < now" "\<not> (expiresAt ?v - 1 < now \<and> IsWaitingForResv (cli_at s c))"
      by blast
    then show ?thesis
    proof cases
      case expired
      obtain s1 where s1: "Release s ?k ?i = Some (s1, Inr ())" "jsm_ok s1 E" "same_clients s s1"
          "job_views s1 = (job_views s)(?k \<mapsto> timed_out ?v)"
        using Release_ok [OF ok r(1-3)] by blast
      have at: "cli_at s1 = cli_at s" "clients s1 = clients s" using s1(3) by (simp_all add: same_clients_def)
      have "work now c s1 < work now c s"
        using work_release [OF r(1,2) expired s1(4)] at by simp
      then obtain s' rs where s': "tickClient_jobs now c s1 res = Some (s', res @ rs)" "jsm_ok s' E" "others_same s1 s'"
          "ended now (seen_of s1) rs (seen_of s')" "settled now c s'"
          "IsWaitingForResv (cli_at s' c) \<longrightarrow> now \<le> ResvDeadlineAt (cli_at s' c)"
        using less.hyps [OF _ s1(2), of res] less.prems(2,3) at by auto
      have "seen_of s1 = ((job_views s)(?k \<mapsto> timed_out ?v), waiting_on s, wait_line s)"
        using s1(4) same_clients_waiting [OF s1(3)] by (simp add: seen_of_def)
      then have "ended now (seen_of s) rs (seen_of s')"
        using s'(4) ended_job [where V = "job_views s", OF r(1,2) expired] by (simp add: seen_of_def)
      moreover have "tickClient_jobs now c s res = Some (s', res @ rs)"
        using Inr expired x s1(1) s'(1) by (subst tickClient_jobs.simps) simp
      moreover have "others_same s s'"
        using others_same_trans [OF others_same_clients [OF s1(3)] s'(3)] .
      ultimately show ?thesis using s'(2,5,6) by blast
    next
      case soon
      let ?r = "stop_reply DeadlineSoon (ReqID (cli_at s c)) ?i"
      obtain s1 where s1: "unReserve s c = Some s1" "jsm_ok s1 E" "others_same s s1" "unwaited c s s1"
          "waiting_on s ?i = Some (ReqID (cli_at s c), WatchedTubes (cli_at s c), ResvDeadlineAt (cli_at s c))"
          "no_job_reservation s c DeadlineSoon = ?r"
          "seen_of s1 = (job_views s, (waiting_on s)(?i := None), \<lambda>u. remove1 ?i (wait_line s u))"
        using stop_waiting [OF ok less.prems(2) soon(3)] by blast
      have nw: "\<not> IsWaitingForResv (cli_at s1 c)" and cl: "clients s1 = clients s" and v1: "job_views s1 = job_views s"
        using s1(4) same_jobs_views by (simp_all add: unwaited_def)
      have "work now c s1 < work now c s" using nw soon(3) v1 by (simp add: work_def)
      then obtain s' rs where s': "tickClient_jobs now c s1 (res @ [?r]) = Some (s', (res @ [?r]) @ rs)" "jsm_ok s' E"
          "others_same s1 s'" "ended now (seen_of s1) rs (seen_of s')" "settled now c s'"
          "IsWaitingForResv (cli_at s' c) \<longrightarrow> now \<le> ResvDeadlineAt (cli_at s' c)"
        using less.hyps [OF _ s1(2), of "res @ [?r]"] less.prems(2) cl nw by auto
      have "expiresAt ?v = now" using soon(1,2) by simp
      then have "ended now (seen_of s) (?r # rs) (seen_of s')"
        using s'(4) ended_soon [where W = "waiting_on s" and V = "job_views s", OF s1(5) r(1-3)] s1(7)
        by (simp add: seen_of_def)
      moreover have "tickClient_jobs now c s res = Some (s', res @ ?r # rs)"
        using Inr soon x wr s1(1,6) s'(1) by (subst tickClient_jobs.simps) (simp add: Let_def)
      moreover have "others_same s s'" using others_same_trans [OF s1(3) s'(3)] .
      ultimately show ?thesis using s'(2,5,6) by blast
    next
      case fine
      then have "tickClient_jobs now c s res = Some (s, res @ [])"
        using Inr x wr by (subst tickClient_jobs.simps) auto
      moreover have "settled now c s" using Inr fine x wr by (auto simp: settled_def)
      ultimately show ?thesis using less.prems ended_none [of now "seen_of s"] by fastforce
    qed
  qed
qed

lemma tickClient_ok:
  assumes ok: "jsm_ok s {c}" and c: "c \<in> set (q_items (clients s))" and now: "now \<le> maxTime"
  shows "\<exists>s' rs. tickClient now c s res = Some (s', res @ rs) \<and> jsm_ok s' {} \<and>
           ended now (seen_of s) rs (seen_of s') \<and> set (clientHeap s') \<subseteq> insert c (set (clientHeap s)) \<and>
           (\<forall>d. d \<noteq> c \<longrightarrow> TickAt (cli_at s' d) = TickAt (cli_at s d)) \<and> now \<le> TickAt (cli_at s' c)"
proof -
  obtain s1 rs1 where s1: "tickClient_timeout now c s res = Some (s1, res @ rs1)" "jsm_ok s1 {c}" "others_same s s1"
      "ended now (seen_of s) rs1 (seen_of s1)"
      "IsWaitingForResv (cli_at s1 c) \<longrightarrow> now \<le> ResvDeadlineAt (cli_at s1 c)"
    using tickClient_timeout_ok [OF ok c] by blast
  have c1: "c \<in> set (q_items (clients s1))" using c s1(3) by (simp add: others_same_def)
  obtain s2 rs2 where s2: "tickClient_jobs now c s1 (res @ rs1) = Some (s2, (res @ rs1) @ rs2)" "jsm_ok s2 {c}"
      "others_same s1 s2" "ended now (seen_of s1) rs2 (seen_of s2)" "settled now c s2"
      "IsWaitingForResv (cli_at s2 c) \<longrightarrow> now \<le> ResvDeadlineAt (cli_at s2 c)"
    using tickClient_jobs_ok [OF s1(2) c1 s1(5)] by blast
  have c2: "c \<in> set (q_items (clients s2))" using c1 s2(3) by (simp add: others_same_def)
  obtain s3 where s3: "updateClientTickAt s2 c = Some s3" "ticked c s2 s3" "jsm_ok s3 {}"
    using ticked_jsm_ok [OF s2(2) c2] by blast
  have inv: "jobs_inv s2 {}" "sane s2" "cinv s2" "cinv s3" using s2(2) s3(3) by (simp_all add: jsm_ok_def)
  have "now \<le> next_tick s2 c"
    by (rule next_tick_later [OF inv(1) now]) (use s2(5,6) in \<open>auto simp: settled_def\<close>)
  then have "now \<le> TickAt (cli_at s3 c)" using s3(2) by (simp add: ticked_def)
  moreover have "seen_of s3 = seen_of s2"
    using ticked_waiting [OF s3(2) inv(3,4,1,2)] same_jobs_views [of s2 s3] s3(2)
    by (simp add: seen_of_def ticked_def)
  then have "ended now (seen_of s) (rs1 @ rs2) (seen_of s3)" using ended_append [OF s1(4) s2(4)] by simp
  moreover have "tickClient now c s res = Some (s3, res @ rs1 @ rs2)"
    using s1(1) s2(1) s3(1) by (simp add: tickClient_def)
  moreover have "set (clientHeap s3) \<subseteq> insert c (set (clientHeap s))"
    using s3(2) s1(3) s2(3) by (simp add: ticked_def others_same_def)
  moreover have "TickAt (cli_at s3 d) = TickAt (cli_at s d)" if "d \<noteq> c" for d
    using that s3(2) s1(3) s2(3) by (simp add: ticked_def others_same_def)
  ultimately show ?thesis using s3(3) by blast
qed

lemma pop_client:
  assumes ok: "jsm_ok s {}" and ne: "clientHeap s \<noteq> []"
  defines "c \<equiv> clientHeap s ! 0"
  shows "\<exists>m h. clientResvHeap_Dequeue (jsm_mem s, clientHeap s) = Some ((m, h), c) \<and>
           jsm_ok (s\<lparr>jsm_mem := m, clientHeap := h\<rparr>) {c} \<and> set h = set (clientHeap s) - {c} \<and>
           (\<forall>d. TickAt (m_clients m d) = TickAt (cli_at s d)) \<and>
           seen_of (s\<lparr>jsm_mem := m, clientHeap := h\<rparr>) = seen_of s"
proof -
  have inv: "cinv s" "tinv s {}" using ok by (simp_all add: jsm_ok_def)
  have c: "c \<in> set (clientHeap s)" using ne by (simp add: c_def)
  obtain m h where d: "clientResvHeap_Dequeue (jsm_mem s, clientHeap s) = Some ((m, h), c)"
      "ch_removed (jsm_mem s, clientHeap s) c (m, h)"
    using clientResvHeap_Dequeue_correct [OF cinvD(3) [OF inv(1)] ne] by (auto simp: c_def)
  have r: "mset (clientHeap s) = add_mset c (mset h)" "ch_wf (m, h)" "ch_ordered (m, h)"
      "same_but_heap_index (set (clientHeap s)) (jsm_mem s) m" "HeapIndex (m_clients m c) = -1"
    using d(2) cinvD(4) [OF inv(1)] by (auto simp: ch_removed_def ch_elems_def ch_fr_def)
  have "distinct (clientHeap s)" using cinvD(3) [OF inv(1)] by (simp add: ch_wf_def ch_elems_def)
  then have "distinct (c # h)" using r(1) by (metis mset.simps(2) mset_eq_imp_distinct_iff)
  moreover have "set (clientHeap s) = insert c (set h)"
    using r(1) by (metis set_mset_add_mset_insert set_mset_mset)
  ultimately have h: "set h = set (clientHeap s) - {c}" by auto
  note sb = same_but_heap_indexD [OF r(4)]
  let ?s = "s\<lparr>jsm_mem := m, clientHeap := h\<rparr>"
  have cs: "cli_same s ?s" using sb by (simp add: cli_same_def)
  have sj: "same_jobs s ?s" using sb by (simp add: same_jobs_def)
  have v: "job_views ?s = job_views s" by (rule same_jobs_views [OF sj])
  have c': "cinv ?s"
  proof (rule cinv_heap [OF inv(1) cs])
    fix x assume x: "x \<in> set (q_items (clients s))"
    show "x \<in> set (clientHeap ?s) \<or> HeapIndex (cli_at ?s x) = -1"
    proof (cases "x \<in> set (clientHeap s)")
      case False
      then show ?thesis using cinvD(7) [OF inv(1) x] sb(11) [OF False] by simp
    qed (use h r(5) in auto)
  qed (use r(2,3) h cinvD(5) [OF inv(1)] sb(10) in auto)
  have t1: "d \<in> set (clientHeap ?s) \<and> TickAt (cli_at ?s d) \<le> ResvDeadlineAt (cli_at ?s d)"
    if "d \<in> set (q_items (clients ?s)) - {c}" "IsWaitingForResv (cli_at ?s d)" for d
    using that inv(2) h sb(3,4,5) unfolding tinv_def by auto
  have t2: "reservedBy w \<in> cli_id (jsm_mem ?s) ` {c} \<or>
      (\<exists>d \<in> set (clientHeap ?s). cli_id (jsm_mem ?s) d = reservedBy w \<and> TickAt (cli_at ?s d) \<le> expiresAt w)"
    if w: "job_views s i = Some w" "state w = Reserved" for i w
  proof -
    obtain d where d: "d \<in> set (clientHeap s)" "cli_id (jsm_mem s) d = reservedBy w" "TickAt (cli_at s d) \<le> expiresAt w"
      using w inv(2) unfolding tinv_def by blast
    then show ?thesis using h sb(1,5) by (cases "d = c") auto
  qed
  have "tinv ?s {c}" unfolding tinv_def v using t1 t2 by blast
  then have "jsm_ok ?s {c}" by (rule same_jobs_jsm_ok [OF ok sj c'])
  moreover have "seen_of ?s = seen_of s"
    using v sb by (auto simp: seen_of_def waiting_on_def wait_line_def fun_eq_iff split: sum.splits)
  ultimately show ?thesis using d(1) h sb(5) by blast
qed

lemma tickClients_ok:
  assumes "jsm_ok s {}" and now: "now \<le> maxTime"
  shows "\<exists>s' rs. tickClients now s res = Some (s', res @ rs) \<and> jsm_ok s' {} \<and>
           ended now (seen_of s) rs (seen_of s') \<and> (\<forall>c \<in> set (clientHeap s'). now \<le> TickAt (cli_at s' c))"
  using assms(1)
proof (induction "card {c \<in> set (clientHeap s). TickAt (cli_at s c) < now}" arbitrary: s res rule: less_induct)
  case less
  note ok = less.prems
  have inv: "cinv s" using ok by (simp add: jsm_ok_def)
  let ?c = "clientHeap s ! 0"
  show ?case
  proof (cases "clientHeap s = [] \<or> now \<le> TickAt (cli_at s ?c)")
    case True
    have "now \<le> TickAt (cli_at s c)" if "c \<in> set (clientHeap s)" for c
    proof -
      have "clientHeap s \<noteq> []" using that by auto
      then show ?thesis using True clientResvHeap_Peek_least [OF cinvD(4) [OF inv] that] by simp
    qed
    moreover have "tickClients now s res = Some (s, res @ [])"
      using True by (subst tickClients.simps) (auto simp: clientResvHeap_Peek_def clientResvHeap_Len_def)
    ultimately show ?thesis using ok ended_none [of now "seen_of s"] by fastforce
  next
    case False
    then have ne: "clientHeap s \<noteq> []" and lt: "TickAt (cli_at s ?c) < now" by auto
    obtain m h where p: "clientResvHeap_Dequeue (jsm_mem s, clientHeap s) = Some ((m, h), ?c)"
        "jsm_ok (s\<lparr>jsm_mem := m, clientHeap := h\<rparr>) {?c}" "set h = set (clientHeap s) - {?c}"
        "\<And>d. TickAt (m_clients m d) = TickAt (cli_at s d)"
        "seen_of (s\<lparr>jsm_mem := m, clientHeap := h\<rparr>) = seen_of s"
      using pop_client [OF ok ne] by blast
    let ?s = "s\<lparr>jsm_mem := m, clientHeap := h\<rparr>"
    have ch: "?c \<in> set (clientHeap s)" using ne by simp
    then have c: "?c \<in> set (q_items (clients ?s))" using cinvD(5) [OF inv] by auto
    obtain s1 rs1 where s1: "tickClient now ?c ?s res = Some (s1, res @ rs1)" "jsm_ok s1 {}"
        "ended now (seen_of ?s) rs1 (seen_of s1)" "set (clientHeap s1) \<subseteq> insert ?c (set (clientHeap ?s))"
        "\<forall>d. d \<noteq> ?c \<longrightarrow> TickAt (cli_at s1 d) = TickAt (cli_at ?s d)" "now \<le> TickAt (cli_at s1 ?c)"
      using tickClient_ok [OF p(2) c now] by blast
    have "{d \<in> set (clientHeap s1). TickAt (cli_at s1 d) < now} \<subset> {d \<in> set (clientHeap s). TickAt (cli_at s d) < now}"
    proof
      show "{d \<in> set (clientHeap s1). TickAt (cli_at s1 d) < now} \<subseteq> {d \<in> set (clientHeap s). TickAt (cli_at s d) < now}"
      proof
        fix d assume d: "d \<in> {d \<in> set (clientHeap s1). TickAt (cli_at s1 d) < now}"
        then have "d \<noteq> ?c" using s1(6) by auto
        then show "d \<in> {d \<in> set (clientHeap s). TickAt (cli_at s d) < now}" using d s1(4,5) p(3,4) by auto
      qed
      show "{d \<in> set (clientHeap s1). TickAt (cli_at s1 d) < now} \<noteq> {d \<in> set (clientHeap s). TickAt (cli_at s d) < now}"
        using ch lt s1(6) by (metis (mono_tags, lifting) mem_Collect_eq not_less)
    qed
    then have "card {d \<in> set (clientHeap s1). TickAt (cli_at s1 d) < now} < card {d \<in> set (clientHeap s). TickAt (cli_at s d) < now}"
      by (intro psubset_card_mono) simp_all
    then obtain s' rs where s': "tickClients now s1 (res @ rs1) = Some (s', (res @ rs1) @ rs)" "jsm_ok s' {}"
        "ended now (seen_of s1) rs (seen_of s')" "\<forall>c \<in> set (clientHeap s'). now \<le> TickAt (cli_at s' c)"
      using less.hyps [OF _ s1(2), of "res @ rs1"] by blast
    have "tickClients now s res = Some (s', res @ rs1 @ rs)"
      using ne lt p(1) s1(1) s'(1)
      by (subst tickClients.simps) (simp add: clientResvHeap_Peek_def clientResvHeap_Len_def)
    moreover have "ended now (seen_of s) (rs1 @ rs) (seen_of s')"
      using ended_append [OF s1(3) s'(3)] p(5) by simp
    ultimately show ?thesis using s'(2,4) by blast
  qed
qed

section \<open>The clock\<close>

text \<open>Nothing is overdue: no reservation has expired, no delay and no wait has passed its end.\<close>

definition overdue_free :: "int64 \<Rightarrow> seen \<Rightarrow> bool" where
  "overdue_free now a \<longleftrightarrow> (case a of (V, W, L) \<Rightarrow>
     (\<forall>i v. V i = Some v \<longrightarrow> (state v = Reserved \<longrightarrow> now \<le> expiresAt v) \<and> (state v = Delayed \<longrightarrow> now \<le> readyAt v)) \<and>
     (\<forall>i req ts dl. W i = Some (req, ts, dl) \<longrightarrow> now \<le> dl))"

lemma served_delayed:
  "served now a rs b \<Longrightarrow> fst b i = Some v \<Longrightarrow> state v = Delayed \<Longrightarrow> fst a i = Some v"
  by (induction rule: served.induct) (auto simp: held_def split: if_splits)

lemma ended_delayed:
  "ended now a rs b \<Longrightarrow> fst b i = Some v \<Longrightarrow> state v = Delayed \<Longrightarrow> fst a i = Some v"
  by (induction rule: ended.induct) (auto simp: timed_out_def split: if_splits)

lemma ripen_delayed: "ripen now UNIV V i = Some v \<Longrightarrow> state v = Delayed \<Longrightarrow> now \<le> readyAt v"
  using ripen_Some [of now UNIV V i v] by (auto simp: due_def)

lemma tick_delay_phase:
  assumes ok: "jsm_ok s {}" and ord: "set ord = dom (mget (tubes s))"
  shows "\<exists>s'. (if now > nextDelayTickAt s then tickDelayJobs (s\<lparr>nextDelayTickAt := maxTime\<rparr>) now ord else Some s) = Some s' \<and>
           jsm_ok s' {} \<and> dom (mget (tubes s')) = dom (mget (tubes s)) \<and>
           seen_of s' = (ripen now UNIV (job_views s), waiting_on s, wait_line s)"
proof (cases "now > nextDelayTickAt s")
  case True
  let ?s = "s\<lparr>nextDelayTickAt := maxTime\<rparr>"
  have "ticking ?s" "set ord = dom (mget (tubes ?s))" using ok ord by (simp_all add: jsm_ok_ticking)
  then obtain s' where s': "tickDelayJobs ?s now ord = Some s'" "jsm_ok s' {}" "same_clients ?s s'"
      "dom (mget (tubes s')) = dom (mget (tubes ?s))" "job_views s' = ripen now UNIV (job_views ?s)"
    using tickDelayJobs_ok [of ?s ord now] by blast
  have "same_clients s s'" using s'(3) by (simp add: same_clients_def)
  then show ?thesis using True s' same_clients_waiting [of s s'] by (simp add: seen_of_def)
next
  case False
  have "\<not> due now UNIV v" if "job_views s i = Some v" for i v
    using ok that False unfolding jsm_ok_def delay_ok_def due_def by fastforce
  then have "ripen now UNIV (job_views s) = job_views s" by (rule ripen_none)
  then show ?thesis using False ok by (simp add: seen_of_def)
qed

lemma idle_missing: "t \<notin> dom (mget (tubes s)) \<Longrightarrow> idle (seen_of s) t"
  using waiters_exists [of "tubes s" t] by (auto simp: idle_def seen_of_def wait_line_def)

lemma Tick_ok:
  assumes ok: "jsm_ok s {}" and now: "sane_time now"
    and ord: "set ord = dom (mget (tubes s))" "set ord' = dom (mget (tubes s))"
  shows "\<exists>s' rs qs b. Tick s now ord ord' = Some (s', Inr (rs @ qs)) \<and> jsm_ok s' {} \<and>
           served now (ripen now UNIV (job_views s), waiting_on s, wait_line s) rs b \<and> (\<forall>t. idle b t) \<and>
           ended now b qs (seen_of s') \<and> overdue_free now (seen_of s')"
proof -
  have nm: "now \<le> maxTime" using now by (simp add: sane_time_def maxTime_def)
  obtain s1 where s1: "(if now > nextDelayTickAt s then tickDelayJobs (s\<lparr>nextDelayTickAt := maxTime\<rparr>) now ord
        else Some s) = Some s1" "jsm_ok s1 {}" "dom (mget (tubes s1)) = dom (mget (tubes s))"
      "seen_of s1 = (ripen now UNIV (job_views s), waiting_on s, wait_line s)"
    using tick_delay_phase [OF ok ord(1)] by blast
  obtain s2 rs where s2: "tickReadyJobs now ord' s1 [] = Some (s2, rs)" "jsm_ok s2 {}"
      "dom (mget (tubes s2)) = dom (mget (tubes s1))" "served now (seen_of s1) rs (seen_of s2)"
      "\<forall>t \<in> set ord'. idle (seen_of s2) t"
    using tickReadyJobs_ok [OF s1(2) now, of ord' "[]"] ord(2) s1(3) by auto
  obtain s3 qs where s3: "tickClients now s2 [] = Some (s3, qs)" "jsm_ok s3 {}" "ended now (seen_of s2) qs (seen_of s3)"
      "\<forall>c \<in> set (clientHeap s3). now \<le> TickAt (cli_at s3 c)"
    using tickClients_ok [OF s2(2) nm, of "[]"] by auto
  have "Tick s now ord ord' = Some (s3, Inr (rs @ qs))" using s1(1) s2(1) s3(1) by (simp add: Tick_def)
  moreover have "\<forall>t. idle (seen_of s2) t"
  proof
    fix t show "idle (seen_of s2) t"
      using s2(5) idle_missing [of t s2] unfolding ord(2) s1(3) s2(3) by (cases "t \<in> dom (mget (tubes s))") auto
  qed
  moreover have "overdue_free now (seen_of s3)"
  proof -
    have inv: "cinv s3" "tinv s3 {}" using s3(2) by (simp_all add: jsm_ok_def)
    have "now \<le> expiresAt v" if v: "job_views s3 i = Some v" "state v = Reserved" for i v
    proof -
      obtain c where "c \<in> set (clientHeap s3)" "TickAt (cli_at s3 c) \<le> expiresAt v"
        using inv(2) v unfolding tinv_def by blast
      then show ?thesis using s3(4) by force
    qed
    moreover have "now \<le> readyAt v" if v: "job_views s3 i = Some v" "state v = Delayed" for i v
      using served_delayed [OF s2(4)] ended_delayed [OF s3(3)] v ripen_delayed s1(4)
      by (metis fst_conv seen_of_def)
    moreover have "now \<le> dl" if w: "waiting_on s3 i = Some (req, ts, dl)" for i req ts dl
    proof -
      obtain c where c: "c \<in> set (q_items (clients s3))" "IsWaitingForResv (cli_at s3 c)" "dl = ResvDeadlineAt (cli_at s3 c)"
        using w unfolding waiting_on_iff [OF inv(1)] by auto
      then have "c \<in> set (clientHeap s3)" "TickAt (cli_at s3 c) \<le> dl" using inv(2) unfolding tinv_def by auto
      then show ?thesis using s3(4) by force
    qed
    ultimately show ?thesis unfolding overdue_free_def seen_of_def by blast
  qed
  ultimately show ?thesis using s2(4) s3(2,3) unfolding s1(4) by blast
qed

section \<open>What a client can rely on\<close>

lemma served_states:
  "served now a rs b \<Longrightarrow> fst a i = Some v \<Longrightarrow> state v \<noteq> Ready \<Longrightarrow> fst b i = Some v"
proof (induction rule: served.induct)
  case (served_one V t k w L c line W req ts dl rs b)
  have "k \<noteq> i" using served_one.hyps(1) served_one.prems by (auto simp: most_urgent_def)
  then show ?case using served_one.IH served_one.prems by simp
qed simp

text \<open>No job and no client is served twice, and every job served was ready and is now held.\<close>

lemma served_each_once:
  assumes "served now a rs b"
  shows "distinct (map rv_JobId rs) \<and> distinct (map rv_ClientId rs) \<and>
         (\<forall>r \<in> set rs. rv_Status r = Matched \<and> fst (snd a) (rv_ClientId r) \<noteq> None \<and>
            (\<exists>v. fst a (rv_JobId r) = Some v \<and> state v = Ready \<and>
               fst b (rv_JobId r) = Some (held now (rv_ClientId r) v)))"
  using assms
proof (induction rule: served.induct)
  case (served_none a)
  then show ?case by simp
next
  case (served_one V t k v L i line W req ts dl rs b)
  have "V k = Some v" "state v = Ready" using served_one.hyps(1) by (simp_all add: most_urgent_def)
  moreover have h: "fst b k = Some (held now i v)"
    using served_states [OF served_one.hyps(5), of k "held now i v"] by (simp add: held_def)
  moreover have old: "rv_JobId r \<noteq> k \<and> rv_ClientId r \<noteq> i" if r: "r \<in> set rs" for r
  proof -
    have "\<exists>w. (V(k \<mapsto> held now i v)) (rv_JobId r) = Some w \<and> state w = Ready"
      and "(W(i := None)) (rv_ClientId r) \<noteq> None"
      using served_one.IH r by auto
    then show ?thesis by (auto simp: held_def split: if_splits)
  qed
  moreover have "(\<exists>w. V (rv_JobId r) = Some w \<and> state w = Ready \<and> fst b (rv_JobId r) = Some (held now (rv_ClientId r) w)) \<and>
      W (rv_ClientId r) \<noteq> None \<and> rv_Status r = Matched" if r: "r \<in> set rs" for r
    using served_one.IH r old [OF r] by auto
  ultimately show ?case using served_one.IH served_one.hyps(3) unfolding reply_def by auto
qed

lemma ended_keeps:
  "ended now a rs b \<Longrightarrow> fst a i = Some v \<Longrightarrow> \<not> (state v = Reserved \<and> expiresAt v < now) \<Longrightarrow> fst b i = Some v"
proof (induction rule: ended.induct)
  case (ended_job V k w W L rs b)
  have "k \<noteq> i" using ended_job.hyps(1-3) ended_job.prems by auto
  then show ?case using ended_job.IH ended_job.prems by simp
qed simp_all

lemma Tick_serves:
  assumes ok: "jsm_ok s {}" and now: "sane_time now"
    and ord: "set ord = dom (mget (tubes s))" "set ord' = dom (mget (tubes s))"
    and tick: "Tick s now ord ord' = Some (s', Inr res)"
  shows "\<exists>rs qs. res = rs @ qs \<and> distinct (map rv_JobId rs) \<and> distinct (map rv_ClientId rs) \<and>
           (\<forall>r \<in> set rs. rv_Status r = Matched \<and> waiting_on s (rv_ClientId r) \<noteq> None \<and>
              (\<exists>v. ripen now UNIV (job_views s) (rv_JobId r) = Some v \<and> state v = Ready \<and>
                 (0 \<le> ttr v \<longrightarrow> job_views s' (rv_JobId r) = Some (held now (rv_ClientId r) v))))"
proof -
  obtain rs qs b where t: "res = rs @ qs" "ended now b qs (seen_of s')"
      "served now (ripen now UNIV (job_views s), waiting_on s, wait_line s) rs b"
    using Tick_ok [OF ok now ord] tick by auto
  note once = served_each_once [OF t(3)]
  have held: "job_views s' (rv_JobId r) = Some (held now (rv_ClientId r) v)"
    if r: "r \<in> set rs" and v: "ripen now UNIV (job_views s) (rv_JobId r) = Some v" "0 \<le> ttr v" for r v
  proof -
    have b: "fst b (rv_JobId r) = Some (held now (rv_ClientId r) v)" using once r v(1) by auto
    obtain w where w: "job_views s (rv_JobId r) = Some w" "ttr w = ttr v"
      using v(1) by (auto simp: ripen_def split: if_splits)
    have "sane s" using ok by (simp add: jsm_ok_def)
    then have "sane_ttr (ttr v)" using w unfolding sane_def by metis
    then have "expiresAt (held now (rv_ClientId r) v) = now + ttr v" using sane_sum [OF now] by (simp add: held_def)
    then show ?thesis using ended_keeps [OF t(2) b] v(2) by (simp add: seen_of_def)
  qed
  show ?thesis
  proof (rule exI [of _ rs], rule exI [of _ qs], intro conjI ballI)
    fix r assume r: "r \<in> set rs"
    then obtain v where "ripen now UNIV (job_views s) (rv_JobId r) = Some v" "state v = Ready"
      using once by auto
    then show "\<exists>v. ripen now UNIV (job_views s) (rv_JobId r) = Some v \<and> state v = Ready \<and>
        (0 \<le> ttr v \<longrightarrow> job_views s' (rv_JobId r) = Some (held now (rv_ClientId r) v))"
      using held [OF r] by blast
  qed (use t(1) once in auto)
qed

end
