(* ===== verification/JSM_Cmds.thy ===== *)
theory JSM_Cmds
  imports JSM_Tick
begin

text \<open>
  The commands of the state machine on its whole state: each returns, keeps the invariant,
  and does to the jobs, the waiting clients and the lines what its specification says.
  The states that the commands reach from the empty one satisfy the invariant.
\<close>

section \<open>Commands on one job\<close>

text \<open>
  \<open>does s res spec\<close>: the call returns the error of the specification or succeeds, the table
  of jobs becomes the specified one, the waiting clients stay, the invariant holds.
\<close>

definition does :: "localJSM \<Rightarrow> unit jsm_result \<Rightarrow> error + job_table \<Rightarrow> bool" where
  "does s res spec \<longleftrightarrow>
     (\<exists>s'. res = Some (s', map_sum (\<lambda>e. e) (\<lambda>_. ()) spec) \<and> jsm_ok s' {} \<and>
        seen_of s' = ((case spec of Inl _ \<Rightarrow> job_views s | Inr V \<Rightarrow> V), waiting_on s, wait_line s))"

lemma refines_does:
  assumes ok: "jsm_ok s {}" and r: "refines s res spec"
    and v: "\<And>V. spec = Inr V \<Longrightarrow> no_new_holds (job_views s) V"
  shows "does s res spec"
proof -
  obtain s' where s': "res = Some (s', map_sum (\<lambda>e. e) (\<lambda>_. ()) spec)" "jsm_ok s' {}" "same_clients s s'"
      "job_views s' = (case spec of Inl _ \<Rightarrow> job_views s | Inr V \<Rightarrow> V)"
    using jsm_ok_refines [OF ok r v] by blast
  then show ?thesis using same_clients_waiting [OF s'(3)] by (simp add: does_def seen_of_def)
qed

lemma Delete_does:
  assumes ok: "jsm_ok s {}"
  shows "does s (Delete s i c) (spec_delete (job_views s) i c)"
proof (rule refines_does [OF ok])
  show "refines s (Delete s i c) (spec_delete (job_views s) i c)"
    using Delete_refines ok by (simp add: jsm_ok_def)
  show "no_new_holds (job_views s) V" if "spec_delete (job_views s) i c = Inr V" for V
    using that by (auto simp: spec_delete_def no_new_holds_def split: option.splits if_splits)
qed

lemma ReleaseWith_does:
  assumes ok: "jsm_ok s {}"
  shows "does s (ReleaseWith s now i c pri dly) (on_job (job_views s) i (spec_release now c pri dly))"
proof (rule refines_does [OF ok])
  show "refines s (ReleaseWith s now i c pri dly) (on_job (job_views s) i (spec_release now c pri dly))"
    using ReleaseWith_refines ok by (simp add: jsm_ok_def)
  show "no_new_holds (job_views s) V" if "on_job (job_views s) i (spec_release now c pri dly) = Inr V" for V
    using that by (rule no_new_holds_on_job) (auto simp: spec_release_def Let_def split: option.splits if_splits)
qed

lemma Bury_does:
  assumes ok: "jsm_ok s {}"
  shows "does s (Bury s now i pri c) (on_job (job_views s) i (spec_bury now pri c))"
proof (rule refines_does [OF ok])
  show "refines s (Bury s now i pri c) (on_job (job_views s) i (spec_bury now pri c))"
    using Bury_refines ok by (simp add: jsm_ok_def)
  show "no_new_holds (job_views s) V" if "on_job (job_views s) i (spec_bury now pri c) = Inr V" for V
    using that by (rule no_new_holds_on_job) (auto simp: spec_bury_def split: option.splits)
qed

lemma Kick_does:
  assumes ok: "jsm_ok s {}"
  shows "does s (Kick s i) (on_job (job_views s) i spec_kick)"
proof (rule refines_does [OF ok])
  show "refines s (Kick s i) (on_job (job_views s) i spec_kick)"
    using Kick_refines ok by (simp add: jsm_ok_def)
  show "no_new_holds (job_views s) V" if "on_job (job_views s) i spec_kick = Inr V" for V
    using that by (rule no_new_holds_on_job) (auto simp: spec_kick_def split: if_splits)
qed

lemma Touch_does:
  assumes ok: "jsm_ok s {}" and "sane_time now" and "c \<noteq> []"
  shows "does s (Touch s now i c) (on_job (job_views s) i (spec_touch now c))"
proof -
  obtain s' where s': "Touch s now i c =
        Some (s', map_sum (\<lambda>e. e) (\<lambda>_. ()) (on_job (job_views s) i (spec_touch now c)))"
      "jsm_ok s' {}" "waiting_on s' = waiting_on s" "wait_line s' = wait_line s"
      "job_views s' = (case on_job (job_views s) i (spec_touch now c) of Inl _ \<Rightarrow> job_views s | Inr V \<Rightarrow> V)"
    using Touch_ok [OF assms] by blast
  then show ?thesis unfolding does_def seen_of_def by simp
qed

section \<open>New jobs\<close>

lemma Put_ok:
  assumes ok: "jsm_ok s {}" and ttr: "sane_ttr ttrv"
  defines "i \<equiv> maxJobID s + 1"
  shows "\<exists>s'. Put s now pri dly ttrv sz bdy tube =
           Some (s', if job_views s i = None then Inr i else Inl (Wrapped ErrEntryExists)) \<and> jsm_ok s' {} \<and>
         maxJobID s' = i \<and>
         seen_of s' = (if job_views s i = None
           then (job_views s)(i \<mapsto> spec_new_job i now pri dly ttrv sz bdy tube) else job_views s,
           waiting_on s, wait_line s)"
proof -
  have inv: "jobs_inv s {}" "delay_ok s" "sane s" "cinv s" "tinv s {}" using ok by (simp_all add: jsm_ok_def)
  let ?n = "spec_new_job i now pri dly ttrv sz bdy tube"
  obtain s' where s': "Put s now pri dly ttrv sz bdy tube =
        Some (s', if job_views s i = None then Inr i else Inl (Wrapped ErrEntryExists))"
      "jobs_inv s' {}" "same_clients s s'" "maxJobID s' = i" "delay_ok s'"
      "job_views s' = (if job_views s i = None then (job_views s)(i \<mapsto> ?n) else job_views s)"
    using Put_correct [OF inv(1), of now pri dly ttrv sz bdy tube] inv(2) unfolding i_def by blast
  have new: "state ?n \<noteq> Reserved" "sane_ttr (ttr ?n)" using ttr by (simp_all add: spec_new_job_def)
  have old: "job_views s k = Some v \<or> v = ?n" if "job_views s' k = Some v" for k v
    using that unfolding s'(6) by (auto split: if_splits)
  have "sane s'" using inv(3) old new unfolding sane_def by metis
  moreover have "cinv s'" using cinv_same_clients [OF inv(4) s'(3) jobs_inv_waits [OF s'(2)]] .
  moreover have "tinv s' {}"
    by (rule tinv_same_clients [OF inv(5) s'(3) order_refl]) (use old new(1) in \<open>metis order_refl\<close>)
  ultimately have "jsm_ok s' {}" using s'(2,5) by (simp add: jsm_ok_def)
  then show ?thesis using s' same_clients_waiting [OF s'(3)] by (simp add: seen_of_def)
qed

section \<open>Kicking several jobs\<close>

lemma KickN_loop_ok:
  assumes "jsm_ok s {}"
  shows "\<exists>s' r. KickN_loop k s t c = Some (s', r) \<and> jsm_ok s' {} \<and> snd (seen_of s') = snd (seen_of s)"
  using assms
proof (induction k arbitrary: s c)
  case (Suc k)
  let ?s = "tally (\<lambda>c. c\<lparr>nCmdPeekBuried := nCmdPeekBuried c + 1\<rparr>) s"
  have ok: "jsm_ok ?s {}" using Suc.prems by simp
  show ?case
  proof (cases "NextBuriedJob (tubes s) t")
    case (Inl err)
    then show ?thesis using ok by (simp add: PeekBuriedJob_def)
  next
    case (Inr e)
    obtain s1 where s1: "Kick ?s (ID (job_of (jsm_mem s) e)) =
          Some (s1, map_sum (\<lambda>e. e) (\<lambda>_. ()) (on_job (job_views ?s) (ID (job_of (jsm_mem s) e)) spec_kick))"
        "jsm_ok s1 {}" "snd (seen_of s1) = snd (seen_of s)"
      using Kick_does [OF ok, of "ID (job_of (jsm_mem s) e)"] by (auto simp: does_def seen_of_def)
    show ?thesis
    proof (cases "on_job (job_views ?s) (ID (job_of (jsm_mem s) e)) spec_kick")
      case (Inl err)
      then show ?thesis using Inr s1 by (simp add: PeekBuriedJob_def)
    next
      case kicked: (Inr V)
      have "KickN_loop (Suc k) s t c = KickN_loop k s1 t (c + 1)"
        using Inr kicked s1(1) by (simp add: PeekBuriedJob_def)
      then show ?thesis using Suc.IH [OF s1(2), of "c + 1"] s1(3) by simp
    qed
  qed
qed simp

text \<open>The jobs that are kicked are the ones buried first; a buried job that was deleted is in the way.\<close>

definition kicked :: "JobID set \<Rightarrow> job_table \<Rightarrow> job_table" where
  "kicked K V = (\<lambda>i. map_option (\<lambda>v. if i \<in> K then v\<lparr>state := Ready, buriedAt := 0, kickCount := kickCount v + 1\<rparr>
     else v) (V i))"

definition oldest :: "job_table \<Rightarrow> JobID set \<Rightarrow> JobID set \<Rightarrow> bool" where
  "oldest V K A \<longleftrightarrow> K \<subseteq> A \<and>
     (\<forall>a \<in> K. \<forall>b \<in> A - K. \<forall>v w. V a = Some v \<and> V b = Some w \<longrightarrow> (buriedAt v, a) \<le> (buriedAt w, b))"

lemma loc_buried: "loc_of v = Some (LBuried t) \<longleftrightarrow> state v = Buried \<and> tubeName v = t"
  by (cases "state v") (auto simp: loc_of_def)

lemma buried_root:
  assumes inv: "jobs_inv s {}" and g: "\<not> has_ghost s (LBuried t)" and p: "NextBuriedJob (tubes s) t = Inr e"
  defines "i \<equiv> ID (job_of (jsm_mem s) e)" and "v \<equiv> view (job_of (jsm_mem s) e)"
  shows "job_views s i = Some v" and "state v = Buried" and "tubeName v = t"
    and "\<And>k w. job_views s k = Some w \<Longrightarrow> state w = Buried \<Longrightarrow> tubeName w = t \<Longrightarrow>
           (buriedAt v, i) \<le> (buriedAt w, k)"
proof -
  have pk: "jobHeap_Peek (heaps s (LBuried t)) = Some e"
    using p next_job_peek(3) [of s t] by (simp split: option.splits)
  note l = peek_least [OF inv g pk]
  show "job_views s i = Some v" using l(1) by (simp add: i_def v_def)
  show "state v = Buried" "tubeName v = t" using l(2) by (simp_all add: v_def loc_buried)
  fix k w assume w: "job_views s k = Some w" "state w = Buried" "tubeName w = t"
  have lw: "loc_of w = Some (LBuried t)" using w(2,3) loc_buried by simp
  have "job_id w = k" using views_entry [OF inv w(1) lw] by metis
  then show "(buriedAt v, i) \<le> (buriedAt w, k)" using l(3) [OF w(1) lw] by (simp add: i_def v_def getter_view)
qed

lemma KickN_loop_exact:
  assumes "jsm_ok s {}" and "\<not> has_ghost s (LBuried t)"
  defines "B \<equiv> \<lambda>V. ids_at V (LBuried t)"
  shows "\<exists>s' K. KickN_loop n s t c = Some (s', Inr (c + int (card K))) \<and> jsm_ok s' {} \<and>
           card K = min n (card (B (job_views s))) \<and> oldest (job_views s) K (B (job_views s)) \<and>
           seen_of s' = (kicked K (job_views s), waiting_on s, wait_line s)"
  using assms(1,2)
proof (induction n arbitrary: s c)
  case 0
  have "kicked {} V = V" for V by (simp add: kicked_def option.map_ident)
  then show ?case using 0 by (intro exI [of _ s] exI [of _ "{}"]) (simp add: oldest_def seen_of_def)
next
  case (Suc n)
  let ?s = "tally (\<lambda>c. c\<lparr>nCmdPeekBuried := nCmdPeekBuried c + 1\<rparr>) s"
  have ok: "jsm_ok ?s {}" using Suc.prems by simp
  have inv: "jobs_inv s {}" using Suc.prems by (simp add: jsm_ok_def)
  show ?case
  proof (cases "NextBuriedJob (tubes s) t")
    case (Inl err)
    then have pk: "jobHeap_Peek (heaps s (LBuried t)) = None" "err = ErrEntryMissing"
      using next_job_peek(3) [of s t] by (auto split: option.splits)
    have "B (job_views s) = {}" using peek_none(1) [OF inv pk(1)] by (simp add: B_def)
    moreover have "kicked {} V = V" for V by (simp add: kicked_def option.map_ident)
    ultimately show ?thesis using Inl pk(2) ok
      by (intro exI [of _ ?s] exI [of _ "{}"]) (simp add: PeekBuriedJob_def oldest_def seen_of_def)
  next
    case (Inr e)
    let ?i = "ID (job_of (jsm_mem s) e)" and ?v = "view (job_of (jsm_mem s) e)"
    let ?v' = "?v\<lparr>state := Ready, buriedAt := 0, kickCount := kickCount ?v + 1\<rparr>"
    note r = buried_root [OF inv Suc.prems(2) Inr]
    have spec: "on_job (job_views ?s) ?i spec_kick = Inr ((job_views s)(?i \<mapsto> ?v'))"
      using r(1,2) by (simp add: on_job_def spec_kick_def)
    obtain s1 where s1: "Kick ?s ?i = Some (s1, Inr ())" "jsm_ok s1 {}"
        "seen_of s1 = ((job_views s)(?i \<mapsto> ?v'), waiting_on s, wait_line s)"
      using Kick_does [OF ok, of ?i] unfolding spec does_def by auto
    have v1: "job_views s1 = (job_views s)(?i \<mapsto> ?v')" using s1(3) by (simp add: seen_of_def)
    have g1: "\<not> has_ghost s1 (LBuried t)"
    proof (rule Kick_no_ghost [OF _ _ s1(1)])
      show "\<not> has_ghost ?s (LBuried t)" using Suc.prems(2) by (simp add: has_ghost_def)
      show "jobs_inv ?s {}" using inv by simp
    qed
    have i: "?i \<in> B (job_views s)" using r(1-3) by (auto simp: B_def ids_at_def loc_buried)
    have b1: "B (job_views s1) = B (job_views s) - {?i}"
      unfolding v1 by (auto simp: B_def ids_at_def loc_buried split: if_splits)
    obtain s' K where s': "KickN_loop n s1 t (c + 1) = Some (s', Inr (c + 1 + int (card K)))" "jsm_ok s' {}"
        "card K = min n (card (B (job_views s1)))" "oldest (job_views s1) K (B (job_views s1))"
        "seen_of s' = (kicked K (job_views s1), waiting_on s1, wait_line s1)"
      using Suc.IH [OF s1(2) g1, of "c + 1"] by blast
    have K: "K \<subseteq> B (job_views s) - {?i}" using s'(4) b1 by (simp add: oldest_def)
    have fin: "finite (B (job_views s))" unfolding B_def by (rule finite_ids_at)
    then have finK: "finite K" using K finite_subset by blast
    have cB: "card (B (job_views s)) = Suc (card (B (job_views s1)))"
      unfolding b1 using i fin by (metis card_Suc_Diff1)
    have cK: "card (insert ?i K) = Suc (card K)" by (rule card_insert_disjoint [OF finK]) (use K in blast)
    have "kicked K (job_views s1) = kicked (insert ?i K) (job_views s)"
    proof
      fix k
      have "?i \<notin> K" using K by blast
      then show "kicked K (job_views s1) k = kicked (insert ?i K) (job_views s) k"
        using r(1) unfolding v1 kicked_def by (cases "k = ?i") simp_all
    qed
    then have "seen_of s' = (kicked (insert ?i K) (job_views s), waiting_on s, wait_line s)"
      using s'(5) s1(3) by (simp add: seen_of_def)
    moreover have "oldest (job_views s) (insert ?i K) (B (job_views s))"
      unfolding oldest_def
    proof (intro conjI ballI allI impI)
      show "insert ?i K \<subseteq> B (job_views s)" using K i by auto
      fix a b v w assume ab: "a \<in> insert ?i K" "b \<in> B (job_views s) - insert ?i K" and vw: "job_views s a = Some v \<and> job_views s b = Some w"
      show "(buriedAt v, a) \<le> (buriedAt w, b)"
      proof (cases "a = ?i")
        case True
        have "state w = Buried" "tubeName w = t" using ab(2) vw by (auto simp: B_def ids_at_def loc_buried)
        then show ?thesis using r(4) [of b w] vw True r(1) by simp
      next
        case False
        then have "a \<in> K" "b \<in> B (job_views s1) - K" using ab b1 by auto
        moreover have "job_views s1 a = Some v" "job_views s1 b = Some w" using vw False ab(2) unfolding v1 by auto
        ultimately show ?thesis using s'(4) unfolding oldest_def by blast
      qed
    qed
    moreover have "KickN_loop (Suc n) s t c = Some (s', Inr (c + int (card (insert ?i K))))"
      using Inr s1(1) s'(1) cK by (simp add: PeekBuriedJob_def)
    moreover have "card (insert ?i K) = min (Suc n) (card (B (job_views s)))" using cK cB s'(3) by simp
    ultimately show ?thesis using s'(2) by blast
  qed
qed

section \<open>Asking about clients\<close>

definition known :: "localJSM \<Rightarrow> ClientID \<Rightarrow> bool" where
  "known s i \<longleftrightarrow> (\<exists>c. clientResvQueue_Find (clients s) i = Inr c)"

lemma check_clients_eq:
  assumes inv: "cinv s"
  shows "check_clients s ids (ws, ns, ms) =
     Inr (ws @ filter (\<lambda>i. waiting_on s i \<noteq> None) ids,
          ns @ filter (\<lambda>i. known s i \<and> waiting_on s i = None) ids,
          ms @ filter (\<lambda>i. \<not> known s i) ids)"
proof (induction ids arbitrary: ws ns ms)
  case (Cons i ids)
  show ?case
  proof (cases "clientResvQueue_Find (clients s) i")
    case (Inl err)
    then have "err = ErrEntryMissing" using cq.Find_error [OF cinvD(1) [OF inv]] by blast
    then show ?thesis using Inl Cons.IH by (simp add: known_def waiting_on_def)
  next
    case (Inr c)
    then show ?thesis using Cons.IH by (simp add: known_def waiting_on_def)
  qed
qed simp

section \<open>The empty state\<close>

lemma jinv_empty: "jinv m [] (heap_at [] []) {}"
proof -
  have h: "entries (heap_at [] [] l) = []" "lessFn (heap_at [] [] l) = loc_order l" for l
    by (cases l; simp add: tube_at_def new_tubeState_def NewPriorityJobs_def NewDelayedJobs_def
        NewBuriedJobs_def NewReservedJobs_def)+
  then show ?thesis
    by (simp add: jinv_def index_ok_def entries_ok_def heaps_ok_def jh_wf_def jh_ordered_def jh_elems_def
        ordered_right_def mwf_def heap_ordered_def heap_ok_def)
qed

lemma waits_wf_empty: "waits_wf m []"
  by (simp add: waits_wf_def tube_at_def new_tubeState_def)

lemma NewJSM_ok: "jsm_ok NewJSM {}"
proof -
  have w: "waiters (tubes NewJSM) t = []" for t
    by (simp add: NewJSM_def waiters_def tube_at_def new_tubeState_def)
  have v: "job_views NewJSM i = None" for i by (simp add: NewJSM_def job_views_def NewJobIndex_def)
  have wf: "waits_wf (jsm_mem NewJSM) (tubes NewJSM)" using waits_wf_empty by (simp add: NewJSM_def)
  have "jobs_inv NewJSM {}"
    using jinv_empty waits_wf_empty by (simp add: jobs_inv_def NewJSM_def NewJobIndex_def)
  moreover have "cinv NewJSM"
    using wf w by (simp add: cinv_def) (simp add: NewJSM_def newClientResvHeap_def ch_wf_def ch_ordered_def ch_elems_def heap_ordered_def heap_ok_def)
  moreover have "delay_ok NewJSM" "sane NewJSM" "tinv NewJSM {}"
    using v by (simp_all add: delay_ok_def sane_def tinv_def) (simp add: NewJSM_def)
  ultimately show ?thesis by (simp add: jsm_ok_def)
qed

section \<open>Summaries\<close>

lemma AppendReservation_ok:
  assumes ok: "jsm_ok s {}" and now: "sane_time now" and ts: "distinct ts"
  shows "\<exists>s' r. AppendReservation s i req ts now dl = Some (s', r) \<and> jsm_ok s' {}"
proof (cases "dl < now \<or> now + 86400 < dl")
  case True
  then show ?thesis using AppendReservation_refused(1) [OF now] ok by blast
next
  case False
  then have dl: "now \<le> dl" "dl \<le> now + 86400" by auto
  show ?thesis
  proof (cases "waiting_on s i")
    case None
    show ?thesis using ok now ts dl None
    proof (cases rule: AppendReservation_accepted [where req = req])
      case (match s' ts1 t ts2 k v)
      then show ?thesis by blast
    next
      case (queue s')
      then show ?thesis by blast
    qed
  next
    case (Some x)
    then obtain f where "AppendReservation s i req ts now dl = Some (tally f s, Inl ErrClientIsWaitingForReservation)"
      using AppendReservation_refused(2) [OF now dl] by blast
    then show ?thesis using ok by auto
  qed
qed

lemma dom_mkeys: "dom (mget m) = set (mkeys m)"
  using mget_mkeys [of m] by (auto simp: dom_def)

end
