(* ===== verification/Net_URL.thy ===== *)
theory Net_URL
  imports Job
begin

text \<open>
  The part of Go's \<^verbatim>\<open>net/url\<close> (Go 1.13) that \<^verbatim>\<open>store/client_uri.go\<close> uses: \<^verbatim>\<open>Parse\<close> with the
  checks of every part of a URL, \<^verbatim>\<open>Query\<close>, \<^verbatim>\<open>Values.Encode\<close> and \<^verbatim>\<open>String\<close>. A string is a list
  of bytes; an error of the package is told apart by nothing but being one, so a call that
  can fail returns an \<open>option\<close>.
\<close>

section \<open>Strings\<close>

fun cut :: "string \<Rightarrow> string \<Rightarrow> string \<times> string option" where
  "cut seps [] = ([], None)"
| "cut seps (c # s) =
     (if c \<in> set seps then ([], Some s) else (let (a, b) = cut seps s in (c # a, b)))"

text \<open>\<open>cut seps s\<close> cuts \<open>s\<close> at the first byte that is one of \<open>seps\<close>, \<open>cut_last\<close> at the last.\<close>

definition cut_last :: "string \<Rightarrow> string \<Rightarrow> string \<times> string option" where
  "cut_last seps s =
     (case cut seps (rev s) of (a, None) \<Rightarrow> (s, None) | (a, Some b) \<Rightarrow> (rev b, Some (rev a)))"

definition is_digit :: "char \<Rightarrow> bool" where
  "is_digit c \<longleftrightarrow> CHR ''0'' \<le> c \<and> c \<le> CHR ''9''"

definition is_letter :: "char \<Rightarrow> bool" where
  "is_letter c \<longleftrightarrow> (CHR ''a'' \<le> c \<and> c \<le> CHR ''z'') \<or> (CHR ''A'' \<le> c \<and> c \<le> CHR ''Z'')"

section \<open>Escaping\<close>

datatype encoding = encodePath | encodeHost | encodeZone | encodeUserPassword
  | encodeQueryComponent | encodeFragment

definition ishex :: "char \<Rightarrow> bool" where
  "ishex c \<longleftrightarrow> is_digit c \<or> (CHR ''a'' \<le> c \<and> c \<le> CHR ''f'') \<or> (CHR ''A'' \<le> c \<and> c \<le> CHR ''F'')"

definition unhex :: "char \<Rightarrow> nat" where
  "unhex c =
     (if is_digit c then of_char c - 48
      else if CHR ''a'' \<le> c \<and> c \<le> CHR ''f'' then of_char c - 97 + 10
      else if CHR ''A'' \<le> c \<and> c \<le> CHR ''F'' then of_char c - 65 + 10
      else 0)"

definition hexdigit :: "nat \<Rightarrow> char" where
  "hexdigit n = ''0123456789ABCDEF'' ! n"

definition shouldEscape :: "char \<Rightarrow> encoding \<Rightarrow> bool" where
  "shouldEscape c mode =
     (if is_letter c \<or> is_digit c then False
      else if mode \<in> {encodeHost, encodeZone} \<and> c \<in> set (''!$&()*+,;=:[]<>'' @ [CHR 0x27, CHR 0x22]) then False
      else if c \<in> set ''-_.~'' then False
      else if c \<in> set ''$&+,/:;=?@'' \<and> mode = encodePath then c = CHR ''?''
      else if c \<in> set ''$&+,/:;=?@'' \<and> mode = encodeUserPassword then c \<in> set ''@/?:''
      else if c \<in> set ''$&+,/:;=?@'' \<and> mode = encodeFragment then False
      else if mode = encodeFragment \<and> c \<in> set ''!()*'' then False
      else True)"

fun escape :: "encoding \<Rightarrow> string \<Rightarrow> string" where
  "escape mode [] = []"
| "escape mode (c # s) =
     (if c = CHR '' '' \<and> mode = encodeQueryComponent then CHR ''+'' # escape mode s
      else if shouldEscape c mode
      then [CHR ''%'', hexdigit (of_char c div 16), hexdigit (of_char c mod 16)] @ escape mode s
      else c # escape mode s)"

text \<open>
  The first loop of \<^verbatim>\<open>unescape\<close> checks the string, the second decodes it; the model does both
  in one pass. \<open>bad_escape\<close> is the check of one escape sequence.
\<close>

definition bad_escape :: "encoding \<Rightarrow> char \<Rightarrow> char \<Rightarrow> bool" where
  "bad_escape mode a b \<longleftrightarrow>
     \<not> ishex a \<or> \<not> ishex b \<or>
     (mode = encodeHost \<and> unhex a < 8 \<and> [a, b] \<noteq> ''25'') \<or>
     (mode = encodeZone \<and> [a, b] \<noteq> ''25'' \<and> char_of (unhex a * 16 + unhex b) \<noteq> CHR '' '' \<and>
        shouldEscape (char_of (unhex a * 16 + unhex b)) encodeHost)"

fun unescape :: "encoding \<Rightarrow> string \<Rightarrow> string option" where
  "unescape mode [] = Some []"
| "unescape mode (c # s) =
     (if c = CHR ''%''
      then (case s of
              a # b # s' \<Rightarrow>
                if bad_escape mode a b then None
                else map_option ((#) (char_of (unhex a * 16 + unhex b))) (unescape mode s')
            | _ \<Rightarrow> None)
      else if c = CHR ''+'' \<and> mode = encodeQueryComponent then map_option ((#) (CHR '' '')) (unescape mode s)
      else if c \<noteq> CHR ''+'' \<and> mode \<in> {encodeHost, encodeZone} \<and> of_char c < (128 :: nat) \<and> shouldEscape c mode then None
      else map_option ((#) c) (unescape mode s))"

abbreviation QueryEscape :: "string \<Rightarrow> string" where
  "QueryEscape \<equiv> escape encodeQueryComponent"

abbreviation QueryUnescape :: "string \<Rightarrow> string option" where
  "QueryUnescape \<equiv> unescape encodeQueryComponent"

section \<open>Parsing\<close>

record URL =
  u_Scheme :: string
  u_Opaque :: string
  u_Host :: string
  u_Path :: string
  u_RawQuery :: string

text \<open>The parts of a URL that the program does not read (the user and the fragment) are checked and dropped.\<close>

text \<open>
  \<open>getscheme_from i s\<close> is the loop of \<^verbatim>\<open>getscheme\<close> at index \<open>i\<close>, with \<open>s\<close> still to
  read; \<open>Some None\<close> means that there is no scheme and \<open>None\<close> that it is missing.
\<close>

fun getscheme_from :: "nat \<Rightarrow> string \<Rightarrow> (string \<times> string) option option" where
  "getscheme_from i [] = Some None"
| "getscheme_from i (c # s) =
     (if is_letter c then map_option (map_option (apfst ((#) c))) (getscheme_from (Suc i) s)
      else if is_digit c \<or> c \<in> set ''+-.''
      then if i = 0 then Some None else map_option (map_option (apfst ((#) c))) (getscheme_from (Suc i) s)
      else if c = CHR '':'' then if i = 0 then None else Some (Some ([], s))
      else Some None)"

definition getscheme :: "string \<Rightarrow> (string \<times> string) option" where
  "getscheme rawurl = map_option (case_option ([], rawurl) id) (getscheme_from 0 rawurl)"

definition validOptionalPort :: "string \<Rightarrow> bool" where
  "validOptionalPort port = (case port of [] \<Rightarrow> True | c # s \<Rightarrow> c = CHR '':'' \<and> list_all is_digit s)"

definition validUserinfo :: "string \<Rightarrow> bool" where
  "validUserinfo s =
     list_all (\<lambda>c. is_letter c \<or> is_digit c \<or> c \<in> set (''-._:~!$&()*+,;=%@'' @ [CHR 0x27])) s"

text \<open>The index of the zone of an IPv6 address, \<^verbatim>\<open>strings.Index(s, "%25")\<close>.\<close>

fun zone_at :: "string \<Rightarrow> nat option" where
  "zone_at [] = None"
| "zone_at (c # s) = (if take 3 (c # s) = ''%25'' then Some 0 else map_option Suc (zone_at s))"

definition parseHost :: "string \<Rightarrow> string option" where
  "parseHost host =
     (if take 1 host = ''[''
      then (case cut_last '']'' host of
              (_, None) \<Rightarrow> None
            | (a, Some colonPort) \<Rightarrow>
                if \<not> validOptionalPort colonPort then None
                else (case zone_at a of
                        Some z \<Rightarrow>
                          (case (unescape encodeHost (take z a), unescape encodeZone (drop z a),
                                 unescape encodeHost (CHR '']'' # colonPort)) of
                             (Some host1, Some host2, Some host3) \<Rightarrow> Some (host1 @ host2 @ host3)
                           | _ \<Rightarrow> None)
                      | None \<Rightarrow> unescape encodeHost host))
      else (case cut_last '':'' host of
              (_, Some port) \<Rightarrow> if validOptionalPort (CHR '':'' # port) then unescape encodeHost host else None
            | (_, None) \<Rightarrow> unescape encodeHost host))"

definition parseAuthority :: "string \<Rightarrow> string option" where
  "parseAuthority authority =
     (case cut_last ''@'' authority of
        (_, None) \<Rightarrow> parseHost authority
      | (userinfo, Some h) \<Rightarrow>
          (case parseHost h of
             None \<Rightarrow> None
           | Some host \<Rightarrow>
               if \<not> validUserinfo userinfo then None
               else (case cut '':'' userinfo of
                       (username, password) \<Rightarrow>
                         if unescape encodeUserPassword username = None \<or>
                            case_option False (\<lambda>p. unescape encodeUserPassword p = None) password
                         then None else Some host)))"

definition containsCTLByte :: "string \<Rightarrow> bool" where
  "containsCTLByte s = list_ex (\<lambda>c. c < CHR '' '' \<or> c = CHR 0x7F) s"

definition prefixed :: "string \<Rightarrow> string \<Rightarrow> bool" where
  "prefixed p s \<longleftrightarrow> take (length p) s = p"

text \<open>
  \<^verbatim>\<open>parse\<close> with \<open>viaRequest\<close> false. A query that is only a question mark at the end sets
  \<^verbatim>\<open>ForceQuery\<close>, which the program does not read; the raw query is then empty.
\<close>

definition url_parse :: "string \<Rightarrow> URL option" where
  "url_parse rawurl =
     (if containsCTLByte rawurl then None
      else if rawurl = ''*'' then Some \<lparr>u_Scheme = [], u_Opaque = [], u_Host = [], u_Path = ''*'', u_RawQuery = []\<rparr>
      else (case getscheme rawurl of
              None \<Rightarrow> None
            | Some (sch, rest) \<Rightarrow>
                (let sch = ToLower sch;
                     (rest, q) = (case cut ''?'' rest of (r, q) \<Rightarrow> (r, case_option [] id q))
                 in if \<not> prefixed ''/'' rest \<and> sch \<noteq> []
                    then Some \<lparr>u_Scheme = sch, u_Opaque = rest, u_Host = [], u_Path = [], u_RawQuery = q\<rparr>
                    else if \<not> prefixed ''/'' rest \<and> CHR '':'' \<in> set (fst (cut ''/'' rest)) then None
                    else if (sch \<noteq> [] \<or> \<not> prefixed ''///'' rest) \<and> prefixed ''//'' rest
                    then (case cut ''/'' (drop 2 rest) of
                            (authority, p) \<Rightarrow>
                              (case (parseAuthority authority,
                                     unescape encodePath (case_option [] ((#) (CHR ''/'')) p)) of
                                 (Some host, Some path) \<Rightarrow>
                                   Some \<lparr>u_Scheme = sch, u_Opaque = [], u_Host = host, u_Path = path, u_RawQuery = q\<rparr>
                               | _ \<Rightarrow> None))
                    else (case unescape encodePath rest of
                            None \<Rightarrow> None
                          | Some path \<Rightarrow>
                              Some \<lparr>u_Scheme = sch, u_Opaque = [], u_Host = [], u_Path = path, u_RawQuery = q\<rparr>))))"

definition url_Parse :: "string \<Rightarrow> URL option" where
  "url_Parse rawurl =
     (case cut ''#'' rawurl of
        (u, frag) \<Rightarrow>
          (case url_parse u of
             None \<Rightarrow> None
           | Some url \<Rightarrow>
               if case_option False (\<lambda>f. unescape encodeFragment f = None) frag then None else Some url))"

section \<open>Queries\<close>

type_synonym Values = "(string, string list) gomap"

definition Values_Add :: "Values \<Rightarrow> string \<Rightarrow> string \<Rightarrow> Values" where
  "Values_Add v key value = mput v key (case_option [] id (mget v key) @ [value])"

definition Values_Get :: "Values \<Rightarrow> string \<Rightarrow> string" where
  "Values_Get v key = (case mget v key of Some (x # _) \<Rightarrow> x | _ \<Rightarrow> [])"

text \<open>One round of the loop of \<^verbatim>\<open>parseQuery\<close>; the error that it collects is dropped by \<^verbatim>\<open>Query\<close>.\<close>

definition parseQuery_pair :: "Values \<Rightarrow> string \<Rightarrow> Values" where
  "parseQuery_pair m key =
     (if key = [] then m
      else (case cut ''='' key of
              (k, v) \<Rightarrow>
                (case (QueryUnescape k, QueryUnescape (case_option [] id v)) of
                   (Some k, Some v) \<Rightarrow> Values_Add m k v
                 | _ \<Rightarrow> m)))"

lemma cut_length [termination_simp]: "cut seps s = (a, Some b) \<Longrightarrow> length b < length s"
  by (induction seps s arbitrary: a rule: cut.induct) (auto split: if_splits prod.splits)

function parseQuery :: "Values \<Rightarrow> string \<Rightarrow> Values" where
  "parseQuery m query =
     (if query = [] then m
      else (case cut ''&;'' query of
              (key, None) \<Rightarrow> parseQuery_pair m key
            | (key, Some query') \<Rightarrow> parseQuery (parseQuery_pair m key) query'))"
  by pat_completeness auto
termination
proof (relation "measure (\<lambda>(_, q). length q)", goal_cases)
  case (2 m query key rest query')
  then have "cut ''&;'' query = (key, Some query')" by simp
  from cut_length [OF this] show ?case by simp
qed simp

declare parseQuery.simps [simp del]

definition Query :: "URL \<Rightarrow> Values" where
  "Query u = parseQuery [] (u_RawQuery u)"

fun join_amp :: "string list \<Rightarrow> string" where
  "join_amp [] = []"
| "join_amp [x] = x"
| "join_amp (x # xs) = x @ ''&'' @ join_amp xs"

definition Values_Encode :: "Values \<Rightarrow> string" where
  "Values_Encode v =
     join_amp (concat (map (\<lambda>k. map (\<lambda>x. QueryEscape k @ ''='' @ QueryEscape x) (case_option [] id (mget v k)))
       (sort (mkeys v))))"

text \<open>\<^verbatim>\<open>String\<close> for a URL with no user, opaque part, path or fragment, which is all that is printed.\<close>

definition URL_String :: "URL \<Rightarrow> string" where
  "URL_String u =
     (if u_Scheme u = [] then [] else u_Scheme u @ '':'') @
     (if u_Host u = [] then [] else ''//'' @ escape encodeHost (u_Host u)) @
     (if u_RawQuery u = [] then [] else ''?'' @ u_RawQuery u)"

end
