(* ===== verification/Client_URI.thy ===== *)
theory Client_URI
  imports Net_URL
begin

text \<open>
  \<^verbatim>\<open>store/client_uri.go\<close>: the id of a client in the job state machine is a URI made of the id of
  the proxy it came through and of its id at the proxy.
\<close>

section \<open>Client URIs\<close>

text \<open>
  The errors of the package: its own, those of the job state machine and of the Raft library,
  and \<^verbatim>\<open>fmt.Errorf\<close> around another error. Of the errors of the library the code tells apart
  only the one for a node that is not the leader.
\<close>

datatype raft_error = RaftErrNotLeader | RaftErrOther string

datatype store_error =
    ErrInvalidURI | ErrValidationFailed | ErrInvalidSchema
  | ErrRaftConfig | ErrNotRaftLeader | ErrNodeNotFound
  | StateErr error | RaftErr raft_error | WrappedErr store_error

definition scheme :: string where
  "scheme = ''client''"

record ClientURI =
  proxyID :: string
  clientID :: string

definition NewClientURI :: "string \<Rightarrow> string \<Rightarrow> ClientURI" where
  "NewClientURI p c = \<lparr>proxyID = p, clientID = c\<rparr>"

definition Validate :: "ClientURI \<Rightarrow> store_error option" where
  "Validate c =
     (if length (clientID c) = 0 \<or> length (proxyID c) = 0 then Some ErrValidationFailed else None)"

definition ParseClientURI :: "ClientID \<Rightarrow> store_error + ClientURI" where
  "ParseClientURI i =
     (case url_Parse i of
        None \<Rightarrow> Inl ErrInvalidURI
      | Some u \<Rightarrow>
          if ToLower (u_Scheme u) \<noteq> scheme then Inl ErrInvalidSchema
          else (let q = Query u;
                    c = NewClientURI (Values_Get q ''proxy'') (Values_Get q ''client'')
                in case Validate c of Some err \<Rightarrow> Inl err | None \<Rightarrow> Inr c))"

definition ToClientID :: "ClientURI \<Rightarrow> ClientID option" where
  "ToClientID c =
     (case url_Parse ''client://id'' of
        None \<Rightarrow> None
      | Some baseUrl \<Rightarrow>
          (let params = Values_Add (Values_Add [] ''proxy'' (proxyID c)) ''client'' (clientID c)
           in Some (URL_String (baseUrl\<lparr>u_RawQuery := Values_Encode params\<rparr>))))"

section \<open>Escaping is undone\<close>

definition safe :: "char \<Rightarrow> bool" where
  "safe c \<longleftrightarrow> is_letter c \<or> is_digit c \<or> c \<in> set ''-_.~+%''"

lemma hexdigit_ok:
  assumes "n < 16"
  shows "unhex (hexdigit n) = n" and "ishex (hexdigit n)" and "safe (hexdigit n)"
proof -
  have "list_all (\<lambda>n. unhex (hexdigit n) = n \<and> ishex (hexdigit n) \<and> safe (hexdigit n)) [0..<16]" by code_simp
  then show "unhex (hexdigit n) = n" "ishex (hexdigit n)" "safe (hexdigit n)"
    using assms by (auto simp: list_all_iff)
qed

lemma of_char_parts: "of_char c div 16 < (16 :: nat)" "of_char c mod 16 < (16 :: nat)"
  using nat_of_char_less_256 [of c] by (auto simp: less_mult_imp_div_less)

lemma safe_kept: "\<not> shouldEscape c encodeQueryComponent \<Longrightarrow> safe c \<and> c \<noteq> CHR ''%'' \<and> c \<noteq> CHR ''+''"
proof -
  assume *: "\<not> shouldEscape c encodeQueryComponent"
  then have "safe c" unfolding shouldEscape_def safe_def by (simp split: if_splits) blast+
  moreover have "shouldEscape (CHR ''%'') encodeQueryComponent" "shouldEscape (CHR ''+'') encodeQueryComponent"
    by (simp_all add: shouldEscape_def is_letter_def is_digit_def)
  ultimately show ?thesis using * by auto
qed

lemma safe_neq:
  assumes "safe c"
  shows "c \<notin> set ''?#&;=''" and "c \<noteq> CHR 0x7F" and "\<not> c < CHR '' ''"
proof -
  have "\<not> safe (CHR ''?'')" "\<not> safe (CHR ''#'')" "\<not> safe (CHR ''&'')" "\<not> safe (CHR '';'')" "\<not> safe (CHR ''='')"
    "\<not> safe (CHR 0x7F)" by (simp_all add: safe_def is_letter_def is_digit_def)
  then show "c \<notin> set ''?#&;=''" "c \<noteq> CHR 0x7F" using assms by auto
  have "CHR '' '' \<le> c" using assms
    unfolding safe_def is_letter_def is_digit_def by (elim disjE conjE) (auto simp: less_eq_char_def)
  then show "\<not> c < CHR '' ''" by simp
qed

lemma QueryEscape_safe: "list_all safe (QueryEscape s)"
proof (induction s)
  case (Cons c s)
  have "safe (CHR ''+'')" "safe (CHR ''%'')" by (simp_all add: safe_def)
  then show ?case using Cons safe_kept [of c] hexdigit_ok(3) of_char_parts [of c] by simp
qed simp

lemma QueryEscape_no: "c \<in> set ''?#&;='' \<Longrightarrow> c \<notin> set (QueryEscape s)"
  using QueryEscape_safe [of s] safe_neq(1) [of c] unfolding list_all_iff by blast

lemma QueryUnescape_QueryEscape: "QueryUnescape (QueryEscape s) = Some s"
proof (induction s)
  case (Cons c s)
  have "\<not> bad_escape encodeQueryComponent (hexdigit (of_char c div 16)) (hexdigit (of_char c mod 16))"
    using hexdigit_ok(2) of_char_parts [of c] by (simp add: bad_escape_def)
  moreover have "char_of (unhex (hexdigit (of_char c div 16)) * 16 + unhex (hexdigit (of_char c mod 16))) = c"
    using hexdigit_ok(1) of_char_parts [of c] by (simp add: div_mult_mod_eq)
  ultimately show ?case using Cons safe_kept [of c] by simp
qed simp

section \<open>Cutting\<close>

lemma cut_none: "list_all (\<lambda>c. c \<notin> set seps) s \<Longrightarrow> cut seps s = (s, None)"
  by (induction s) auto

lemma cut_some: "list_all (\<lambda>c. c \<notin> set seps) a \<Longrightarrow> c \<in> set seps \<Longrightarrow> cut seps (a @ c # b) = (a, Some b)"
  by (induction a) auto

section \<open>The round trip\<close>

lemma ToClientID_eq:
  "ToClientID c = Some (''client://id?client='' @ QueryEscape (clientID c) @ ''&proxy='' @ QueryEscape (proxyID c))"
proof -
  have b: "url_Parse ''client://id'' =
      Some \<lparr>u_Scheme = ''client'', u_Opaque = [], u_Host = ''id'', u_Path = [], u_RawQuery = []\<rparr>"
    by code_simp
  have e: "QueryEscape ''client'' = ''client''" "QueryEscape ''proxy'' = ''proxy''"
    "escape encodeHost ''id'' = ''id''" "sort [''proxy'', ''client''] = [''client'', ''proxy'']"
    by code_simp+
  show ?thesis
    unfolding ToClientID_def b
    by (simp add: Values_Add_def Values_Encode_def URL_String_def e del: escape.simps)
qed

lemma url_Parse_client:
  assumes "list_all (\<lambda>c. safe c \<or> c \<in> set ''&='') q"
  shows "url_Parse (''client://id?'' @ q) =
     Some \<lparr>u_Scheme = ''client'', u_Opaque = [], u_Host = ''id'', u_Path = [], u_RawQuery = q\<rparr>"
proof -
  have q: "c \<noteq> CHR ''#''" "c \<noteq> CHR ''?''" "\<not> c < CHR '' ''" "c \<noteq> CHR 0x7F" if "c \<in> set q" for c
    using assms that safe_neq [of c] by (auto simp: list_all_iff)
  have f: "cut ''#'' (''client://id?'' @ q) = (''client://id?'' @ q, None)"
    using q(1) by (intro cut_none) (auto simp: list_all_iff)
  have ctl: "\<not> containsCTLByte (''client://id?'' @ q)"
    using q(3,4) by (auto simp: containsCTLByte_def list_ex_iff)
  have g: "getscheme (''client://id?'' @ q) = Some (''client'', ''//id?'' @ q)"
    by (simp add: getscheme_def is_letter_def is_digit_def)
  have c: "cut ''?'' (''//id?'' @ q) = (''//id'', Some q)"
    using cut_some [of "''?''" "''//id''" "CHR ''?''" q] by simp
  have e: "ToLower ''client'' = ''client''" "cut ''/'' ''id'' = (''id'', None)" "parseAuthority ''id'' = Some ''id''"
    "prefixed ''/'' ''//id''" "prefixed ''//'' ''//id''"
    by code_simp+
  have "url_parse (''client://id?'' @ q) =
     Some \<lparr>u_Scheme = ''client'', u_Opaque = [], u_Host = ''id'', u_Path = [], u_RawQuery = q\<rparr>"
    unfolding url_parse_def using ctl by (simp add: g [simplified] c [simplified] e)
  then show ?thesis unfolding url_Parse_def f by simp
qed

lemma parseQuery_pair_escaped:
  "QueryUnescape k = Some k \<Longrightarrow> list_all (\<lambda>c. c \<noteq> CHR ''='') k \<Longrightarrow>
   parseQuery_pair m (k @ ''='' @ QueryEscape v) = Values_Add m k v"
  using cut_some [of "''=''" k "CHR ''=''" "QueryEscape v"]
  by (simp add: parseQuery_pair_def QueryUnescape_QueryEscape)

lemma parse_printed:
  fixes c :: ClientURI
  assumes "ToClientID c = Some i"
  shows "ParseClientURI i = (case Validate c of Some err \<Rightarrow> Inl err | None \<Rightarrow> Inr c)"
proof -
  let ?p = "''client='' @ QueryEscape (clientID c)" and ?r = "''proxy='' @ QueryEscape (proxyID c)"
  let ?q = "?p @ ''&'' @ ?r"
  have esc: "list_all safe (QueryEscape s)" for s by (rule QueryEscape_safe)
  have lit: "list_all safe ''client''" "list_all safe ''proxy''" by code_simp+
  have sq: "list_all (\<lambda>c. safe c \<or> c \<in> set ''&='') ?q"
    using esc [of "clientID c"] esc [of "proxyID c"] lit by (auto simp: list_all_iff)
  have np: "list_all (\<lambda>c. c \<notin> set ''&;'') ?p" "list_all (\<lambda>c. c \<notin> set ''&;'') ?r"
    using QueryEscape_no [of "CHR ''&''"] QueryEscape_no [of "CHR '';''"] by (auto simp: list_all_iff)
  have k: "parseQuery_pair [] ?p = Values_Add [] ''client'' (clientID c)"
    "parseQuery_pair m ?r = Values_Add m ''proxy'' (proxyID c)" for m
    using parseQuery_pair_escaped [of "''client''" "[]" "clientID c"]
      parseQuery_pair_escaped [of "''proxy''" m "proxyID c"] by simp_all
  have "parseQuery [] ?q = Values_Add (Values_Add [] ''client'' (clientID c)) ''proxy'' (proxyID c)"
    using cut_some [OF np(1), of "CHR ''&''" ?r] cut_none [OF np(2)] k
    by (subst parseQuery.simps, simp, subst parseQuery.simps, simp)
  moreover have "url_Parse i = Some \<lparr>u_Scheme = ''client'', u_Opaque = [], u_Host = ''id'', u_Path = [], u_RawQuery = ?q\<rparr>"
    using url_Parse_client [OF sq] assms by (auto simp: ToClientID_eq)
  moreover have "ToLower ''client'' = scheme" by code_simp
  moreover have "NewClientURI (Values_Get (Values_Add (Values_Add [] ''client'' (clientID c)) ''proxy'' (proxyID c)) ''proxy'')
      (Values_Get (Values_Add (Values_Add [] ''client'' (clientID c)) ''proxy'' (proxyID c)) ''client'') = c"
    by (simp add: Values_Add_def Values_Get_def NewClientURI_def)
  ultimately show ?thesis unfolding ParseClientURI_def Query_def by (simp add: Let_def split: option.split)
qed

lemma ToClientID_defined: "\<exists>i. ToClientID c = Some i \<and> i \<noteq> []"
  by (simp add: ToClientID_eq)

lemma ToClientID_inj:
  assumes "ToClientID c = Some i" and "ToClientID d = Some i"
  shows "c = (d :: ClientURI)"
proof -
  have "list_all (\<lambda>x. x \<notin> set ''&'') (QueryEscape s)" for s
    using QueryEscape_no [of "CHR ''&''" s] by (auto simp: list_all_iff)
  then have *: "cut ''&'' (QueryEscape s @ CHR ''&'' # b) = (QueryEscape s, Some b)" for s b
    by (rule cut_some) simp
  have "QueryEscape (clientID c) @ CHR ''&'' # ''proxy='' @ QueryEscape (proxyID c) =
      QueryEscape (clientID d) @ CHR ''&'' # ''proxy='' @ QueryEscape (proxyID d)"
    using assms by (auto simp: ToClientID_eq)
  from arg_cong [OF this, of "cut ''&''"]
  have "QueryEscape (clientID c) = QueryEscape (clientID d)" "QueryEscape (proxyID c) = QueryEscape (proxyID d)"
    unfolding * by simp_all
  then have "Some (clientID c) = Some (clientID d)" "Some (proxyID c) = Some (proxyID d)"
    by (metis QueryUnescape_QueryEscape)+
  then show ?thesis by simp
qed

section \<open>Properties\<close>

text \<open>
  C6: the client id that \<^verbatim>\<open>ToClientID\<close> prints for a client is parsed back by \<^verbatim>\<open>ParseClientURI\<close>
  into the same client, whatever bytes its two ids have; only an empty id is refused, with
  the error of the validation. Two clients never print the same id.
\<close>

theorem ClientURI_roundtrip:
  "\<exists>i. ToClientID c = Some i \<and>
       ParseClientURI i = (if clientID c = [] \<or> proxyID c = [] then Inl ErrValidationFailed else Inr c) \<and>
       (\<forall>d. ToClientID d = Some i \<longleftrightarrow> d = (c :: ClientURI))"
proof -
  obtain i where i: "ToClientID c = Some i" using ToClientID_defined [of c] by auto
  show ?thesis
  proof (intro exI conjI allI iffI)
    show "ToClientID c = Some i" by (rule i)
    show "ParseClientURI i = (if clientID c = [] \<or> proxyID c = [] then Inl ErrValidationFailed else Inr c)"
      using parse_printed [OF i] by (simp add: Validate_def)
    show "d = c" if "ToClientID d = Some i" for d :: ClientURI using ToClientID_inj [OF that i] .
    show "ToClientID d = Some i" if "d = c" for d :: ClientURI using that i by simp
  qed
qed

text \<open>
  What \<^verbatim>\<open>ParseClientURI\<close> accepts and refuses, on the ids of the tests of the package: extra
  parameters are ignored, a missing one fails the validation, another scheme or none is an
  invalid schema, and a string that is not a URI is an invalid URI.
\<close>

theorem ParseClientURI_cases:
  "map ParseClientURI
     [''client://id?proxy=alpha&client=beta&theta=omega'', ''client://id?proxy=alpha'', ''client:'', ''client'',
      ''http://id?proxy=a&client=b'', '':::'', ''client://i d?proxy=a&client=b'', ''client://id:x?proxy=a&client=b''] =
   [Inr \<lparr>proxyID = ''alpha'', clientID = ''beta''\<rparr>, Inl ErrValidationFailed, Inl ErrValidationFailed, Inl ErrInvalidSchema,
    Inl ErrInvalidSchema, Inl ErrInvalidURI, Inl ErrInvalidURI, Inl ErrInvalidURI]"
  by code_simp

end
