(* ===== verification/FSM.thy ===== *)
theory FSM
  imports JSM_Cmds Client_URI
begin

text \<open>
  \<^verbatim>\<open>store/store.go\<close>, the finite state machine that Raft drives: \<^verbatim>\<open>Apply\<close> decodes a committed log
  entry, runs the operation on the job state machine and encodes the answer. Protocol
  buffers are third-party code: \<open>protobuf\<close> holds a decoder and an encoder for every message
  that the code reads or writes, with \<open>None\<close> for an error. The messages are records with the
  fields of \<^verbatim>\<open>api/v1\<close>; enumerations that the code converts by a cast are the same type here.
\<close>

section \<open>Messages\<close>

datatype OpType =
    OpType_PUT | OpType_RESERVE | OpType_TICK | OpType_DELETE | OpType_RELEASE | OpType_CHECK_CLIENT_STATE
  | OpType_BURY | OpType_KICK | OpType_KICKN | OpType_TOUCH | OpType_GET_JOB | OpType_PEEK_READY
  | OpType_PEEK_BURIED | OpType_PEEK_DELAYED | OpType_STATS_JOB_YAML | OpType_STATS_TUBE_YAML
  | OpType_STATS_YAML | OpType_LIST_TUBES | OpType_other int

datatype ResultCode =
    ResultCode_OK | ResultCode_Unknown | ResultCode_InvalidArgument | ResultCode_FailedPrecondition
  | ResultCode_Unimplemented | ResultCode_Internal

text \<open>A message text: its constant beginning and what \<^verbatim>\<open>%v\<close> prints at the end.\<close>

datatype message_text = Text string | Text_error string store_error | Text_op string OpType

record ApplyOpRequest =
  ao_Op :: OpType
  ao_NowSecs :: int64
  ao_Body :: bytes

record ApplyOpResponse =
  ar_ErrorCode :: ResultCode
  ar_ErrorMessage :: message_text
  ar_Body :: bytes

record client_proxy =
  cp_ClientId :: string
  cp_ProxyId :: string

text \<open>
  The requests that come from a client carry the id of the client and of its proxy, which
  the interface \<^verbatim>\<open>clientProxyUri\<close> reads; their records extend \<open>client_proxy\<close>.
\<close>

record BuryRequest = client_proxy +
  br_JobId :: int64
  br_Priority :: uint32

record DeleteRequest = client_proxy +
  dr_JobId :: int64

record ReleaseRequest = client_proxy +
  rr_JobId :: int64
  rr_Delay :: int64
  rr_Priority :: uint32

record ReserveRequest = client_proxy +
  rs_RequestId :: string
  rs_TimeoutSecs :: int
  rs_WatchedTubes :: "string list"

record TouchRequest = client_proxy +
  tr_JobId :: int64

record PutRequest =
  pr_Priority :: uint32
  pr_Delay :: int64
  pr_Ttr :: int
  pr_TubeName :: string
  pr_BodySize :: int
  pr_Body :: bytes

record CheckClientStateRequest =
  cc_ProxyId :: string
  cc_ClientIds :: "string list"

record CheckClientStateResponse =
  cr_ProxyId :: string
  cr_WaitingClientIds :: "string list"
  cr_NotWaitingClientIds :: "string list"
  cr_MissingClientIds :: "string list"

record V1Reservation =
  v1_RequestId :: string
  v1_ClientId :: string
  v1_ProxyId :: string
  v1_Status :: ReservationStatus
  v1_JobId :: int64
  v1_BodySize :: int
  v1_Body :: "bytes option"
  v1_ErrorMsg :: "error option"

type_synonym TickResponse = "(string, V1Reservation list) gomap"

text \<open>
  Messages with one field are that field: a job id (kick, get, statistics of a job), a tube
  name (peek, statistics of a tube), a tube name with a bound (kick), statistics.
\<close>

record protobuf =
  dec_ApplyOpRequest :: "bytes \<Rightarrow> ApplyOpRequest option"
  dec_BuryRequest :: "bytes \<Rightarrow> BuryRequest option"
  dec_DeleteRequest :: "bytes \<Rightarrow> DeleteRequest option"
  dec_KickRequest :: "bytes \<Rightarrow> int64 option"
  dec_KickNRequest :: "bytes \<Rightarrow> (string \<times> int) option"
  dec_PeekRequest :: "bytes \<Rightarrow> string option"
  dec_PutRequest :: "bytes \<Rightarrow> PutRequest option"
  dec_GetJobRequest :: "bytes \<Rightarrow> int64 option"
  dec_ReleaseRequest :: "bytes \<Rightarrow> ReleaseRequest option"
  dec_ReserveRequest :: "bytes \<Rightarrow> ReserveRequest option"
  dec_GetStatsJobYamlRequest :: "bytes \<Rightarrow> int64 option"
  dec_GetStatsTubeYamlRequest :: "bytes \<Rightarrow> string option"
  dec_Empty :: "bytes \<Rightarrow> unit option"
  dec_TouchRequest :: "bytes \<Rightarrow> TouchRequest option"
  dec_CheckClientStateRequest :: "bytes \<Rightarrow> CheckClientStateRequest option"
  enc_ApplyOpRequest :: "ApplyOpRequest \<Rightarrow> bytes option"
  enc_ApplyOpResponse :: "ApplyOpResponse \<Rightarrow> bytes option"
  dec_ApplyOpResponse :: "bytes \<Rightarrow> ApplyOpResponse option"
  enc_Empty :: "unit \<Rightarrow> bytes option"
  enc_KickNResponse :: "int \<Rightarrow> bytes option"
  enc_ListTubesResponse :: "string list \<Rightarrow> bytes option"
  enc_PeekResponse :: "JobProto \<Rightarrow> bytes option"
  enc_PutResponse :: "int64 \<Rightarrow> bytes option"
  enc_GetJobResponse :: "JobProto \<Rightarrow> bytes option"
  enc_ReserveResponse :: "V1Reservation \<Rightarrow> bytes option"
  enc_GetStatsJobYamlResponse :: "bytes \<Rightarrow> bytes option"
  enc_GetStatsTubeYamlResponse :: "bytes \<Rightarrow> bytes option"
  enc_GetStatsYamlResponse :: "bytes \<Rightarrow> bytes option"
  enc_TickResponse :: "TickResponse \<Rightarrow> bytes option"
  enc_CheckClientStateResponse :: "CheckClientStateResponse \<Rightarrow> bytes option"

section \<open>Helpers\<close>

type_synonym 'a fsm_result = "(localJSM, store_error, 'a) outcome"

definition of_jsm :: "'a jsm_result \<Rightarrow> 'a fsm_result" where
  "of_jsm r = map_option (map_prod id (map_sum StateErr id)) r"

text \<open>The conversions between the signed job ids of the messages and the unsigned ones of the jobs.\<close>

definition to_JobID :: "int64 \<Rightarrow> JobID" where
  "to_JobID i = word_of_int i"

definition of_JobID :: "JobID \<Rightarrow> int64" where
  "of_JobID i = sint i"

definition JobToJobProto :: "Job \<Rightarrow> JobProto" where
  "JobToJobProto j =
     \<lparr>jp_Id = of_JobID (ID j), jp_Priority = Priority j, jp_Delay = Delay j, jp_Ttr = wrap32 (TTR j),
      jp_TubeName = TubeName j, jp_CreatedAt = CreatedAt j, jp_ReadyAt = ReadyAt j,
      jp_ExpiresAt = ExpiresAt j, jp_State = State j, jp_ReservedBy = ReservedBy j,
      jp_BodySize = wrap32 (BodySize j), jp_Body = Body j, jp_BuriedAt = BuriedAt j,
      jp_ReserveCount = ReserveCount j, jp_TimeoutCount = TimeoutCount j,
      jp_ReleaseCount = ReleaseCount j, jp_BuryCount = BuryCount j, jp_KickCount = KickCount j\<rparr>"

definition unmarshalP :: "(bytes \<Rightarrow> 'm option) \<Rightarrow> bytes \<Rightarrow> 'm option" where
  "unmarshalP dec b = dec b"

definition marshalP :: "('m \<Rightarrow> bytes option) \<Rightarrow> 'm \<Rightarrow> bytes option" where
  "marshalP enc m = enc m"

definition newApplyReq :: "protobuf \<Rightarrow> bytes \<Rightarrow> ApplyOpRequest option" where
  "newApplyReq pb b = unmarshalP (dec_ApplyOpRequest pb) b"

definition newApplyRespBytes :: "protobuf \<Rightarrow> ('m \<Rightarrow> bytes option) \<Rightarrow> store_error + 'm \<Rightarrow> bytes option" where
  "newApplyRespBytes pb enc r =
     (case r of
        Inl err \<Rightarrow>
          marshalP (enc_ApplyOpResponse pb)
            \<lparr>ar_ErrorCode = ResultCode_Unknown, ar_ErrorMessage = Text_error ''applyResponse err='' err, ar_Body = []\<rparr>
      | Inr m \<Rightarrow>
          (case marshalP enc m of
             None \<Rightarrow> None
           | Some b \<Rightarrow>
               marshalP (enc_ApplyOpResponse pb)
                 \<lparr>ar_ErrorCode = ResultCode_OK, ar_ErrorMessage = Text [], ar_Body = b\<rparr>))"

definition newClientUri :: "('a :: type) client_proxy_scheme \<Rightarrow> store_error + ClientURI" where
  "newClientUri uri =
     (let cu = NewClientURI (cp_ProxyId uri) (cp_ClientId uri)
      in case Validate cu of Some err \<Rightarrow> Inl err | None \<Rightarrow> Inr cu)"

definition toV1Reservation :: "Reservation \<Rightarrow> store_error + V1Reservation" where
  "toV1Reservation r =
     (case ParseClientURI (rv_ClientId r) of
        Inl err \<Rightarrow> Inl err
      | Inr cu \<Rightarrow>
          Inr \<lparr>v1_RequestId = rv_RequestId r, v1_ClientId = clientID cu, v1_ProxyId = proxyID cu,
            v1_Status = rv_Status r, v1_JobId = of_JobID (rv_JobId r), v1_BodySize = wrap32 (rv_BodySize r),
            v1_Body = rv_Body r, v1_ErrorMsg = rv_Error r\<rparr>)"

primrec ToStrings :: "ClientID list \<Rightarrow> store_error + string list" where
  "ToStrings [] = Inr []"
| "ToStrings (c # clientIds) =
     (case ParseClientURI c of
        Inl err \<Rightarrow> Inl err
      | Inr cu \<Rightarrow> map_sum id ((#) (clientID cu)) (ToStrings clientIds))"

section \<open>Operations\<close>

text \<open>
  \<open>with_client s req k\<close>: the beginning of the operations that come from a client. It makes the
  client id of the request and returns early if it is not valid.
\<close>

definition with_client ::
    "localJSM \<Rightarrow> ('a :: type) client_proxy_scheme \<Rightarrow> (ClientID \<Rightarrow> 'b fsm_result) \<Rightarrow> 'b fsm_result" where
  "with_client s req k =
     (case newClientUri req of
        Inl err \<Rightarrow> Some (s, Inl err)
      | Inr cu \<Rightarrow> (case ToClientID cu of None \<Rightarrow> None | Some i \<Rightarrow> k i))"

definition ApplyBury :: "localJSM \<Rightarrow> int64 \<Rightarrow> BuryRequest \<Rightarrow> unit fsm_result" where
  "ApplyBury s nowSecs req =
     with_client s req (\<lambda>i. of_jsm (Bury s nowSecs (to_JobID (br_JobId req)) (br_Priority req) i))"

definition ApplyDelete :: "localJSM \<Rightarrow> DeleteRequest \<Rightarrow> unit fsm_result" where
  "ApplyDelete s req = with_client s req (\<lambda>i. of_jsm (Delete s (to_JobID (dr_JobId req)) i))"

definition ApplyGetJob :: "localJSM \<Rightarrow> int64 \<Rightarrow> JobProto fsm_result" where
  "ApplyGetJob s jobId =
     and_then (of_jsm (GetJob s (to_JobID jobId))) (\<lambda>s j. Some (s, Inr (JobToJobProto (job_at s j))))"

definition ApplyPut :: "localJSM \<Rightarrow> int64 \<Rightarrow> PutRequest \<Rightarrow> int64 fsm_result" where
  "ApplyPut s nowSecs pReq =
     and_then
       (of_jsm (Put s nowSecs (pr_Priority pReq) (pr_Delay pReq) (pr_Ttr pReq) (pr_BodySize pReq)
          (pr_Body pReq) (pr_TubeName pReq)))
       (\<lambda>s jobID. Some (s, Inr (of_JobID jobID)))"

definition ApplyPeek :: "(TubeName \<Rightarrow> localJSM \<times> (error + ref)) \<Rightarrow> string \<Rightarrow> JobProto fsm_result" where
  "ApplyPeek pfunc tube =
     and_then (of_jsm (Some (pfunc tube))) (\<lambda>s e. Some (s, Inr (JobToJobProto (job_of (jsm_mem s) e))))"

definition ApplyPeekBuried :: "localJSM \<Rightarrow> string \<Rightarrow> JobProto fsm_result" where
  "ApplyPeekBuried s tube = ApplyPeek (PeekBuriedJob s) tube"

definition ApplyPeekDelayed :: "localJSM \<Rightarrow> string \<Rightarrow> JobProto fsm_result" where
  "ApplyPeekDelayed s tube = ApplyPeek (PeekDelayedJob s) tube"

definition ApplyPeekReady :: "localJSM \<Rightarrow> string \<Rightarrow> JobProto fsm_result" where
  "ApplyPeekReady s tube = ApplyPeek (PeekReadyJob s) tube"

definition ApplyKick :: "localJSM \<Rightarrow> int64 \<Rightarrow> unit fsm_result" where
  "ApplyKick s jobId = of_jsm (Kick s (to_JobID jobId))"

definition ApplyKickN :: "localJSM \<Rightarrow> string \<times> int \<Rightarrow> int fsm_result" where
  "ApplyKickN s req =
     (case req of (tube, bound) \<Rightarrow>
        and_then (of_jsm (KickN s tube bound)) (\<lambda>s jobsKicked. Some (s, Inr (wrap32 jobsKicked))))"

definition ApplyListTubes :: "localJSM \<Rightarrow> TubeName list \<Rightarrow> string list fsm_result" where
  "ApplyListTubes s ord = of_jsm (GetTubes s ord)"

definition ApplyRelease :: "localJSM \<Rightarrow> int64 \<Rightarrow> ReleaseRequest \<Rightarrow> unit fsm_result" where
  "ApplyRelease s nowSecs req =
     with_client s req (\<lambda>i.
       of_jsm (ReleaseWith s nowSecs (to_JobID (rr_JobId req)) i (rr_Priority req) (rr_Delay req)))"

definition ApplyReserve :: "localJSM \<Rightarrow> int64 \<Rightarrow> ReserveRequest \<Rightarrow> V1Reservation fsm_result" where
  "ApplyReserve s nowSecs req =
     with_client s req (\<lambda>i.
       and_then
         (of_jsm (AppendReservation s i (rs_RequestId req) (rs_WatchedTubes req) nowSecs
            (wrap64 (nowSecs + rs_TimeoutSecs req))))
         (\<lambda>s r. Some (s, toV1Reservation r)))"

definition ApplyStatsJobYaml :: "marshal \<Rightarrow> localJSM \<Rightarrow> int64 \<Rightarrow> int64 \<Rightarrow> bytes fsm_result" where
  "ApplyStatsJobYaml y s nowSecs jobId = of_jsm (GetStatsJobAsYaml y s nowSecs (to_JobID jobId))"

definition ApplyStatsTubeYaml :: "marshal \<Rightarrow> localJSM \<Rightarrow> string \<Rightarrow> bytes fsm_result" where
  "ApplyStatsTubeYaml y s tube = of_jsm (GetStatsTubeAsYaml y s tube)"

definition ApplyStatsYaml :: "marshal \<Rightarrow> localJSM \<Rightarrow> bytes fsm_result" where
  "ApplyStatsYaml y s = of_jsm (GetStatsAsYaml y s)"

text \<open>The loop of \<^verbatim>\<open>ApplyTick\<close> that groups the reservations by proxy.\<close>

fun group_by_proxy :: "Reservation list \<Rightarrow> TickResponse \<Rightarrow> store_error + TickResponse" where
  "group_by_proxy [] proxyReservations = Inr proxyReservations"
| "group_by_proxy (r # rs) proxyReservations =
     (case toV1Reservation r of
        Inl err \<Rightarrow> Inl err
      | Inr v1r \<Rightarrow>
          group_by_proxy rs
            (case mget proxyReservations (v1_ProxyId v1r) of
               None \<Rightarrow> mput proxyReservations (v1_ProxyId v1r) [v1r]
             | Some resvns \<Rightarrow> mput proxyReservations (v1_ProxyId v1r) (resvns @ [v1r])))"

definition ApplyTick :: "localJSM \<Rightarrow> int64 \<Rightarrow> TubeName list \<Rightarrow> TubeName list \<Rightarrow> TickResponse fsm_result" where
  "ApplyTick s nowSecs ord ord' =
     and_then (of_jsm (Tick s nowSecs ord ord')) (\<lambda>s rs. Some (s, group_by_proxy rs []))"

definition ApplyTouch :: "localJSM \<Rightarrow> int64 \<Rightarrow> TouchRequest \<Rightarrow> unit fsm_result" where
  "ApplyTouch s nowSecs req =
     with_client s req (\<lambda>i. of_jsm (Touch s nowSecs (to_JobID (tr_JobId req)) i))"

text \<open>The loop of \<^verbatim>\<open>ApplyCheckState\<close> over the client ids of the request; \<open>None\<close> is the panic of \<^verbatim>\<open>ToClientID\<close>.\<close>

primrec check_ids :: "string \<Rightarrow> string list \<Rightarrow> (store_error + ClientID list) option" where
  "check_ids proxy [] = Some (Inr [])"
| "check_ids proxy (c # cs) =
     (let cu = NewClientURI proxy c
      in case Validate cu of
           Some err \<Rightarrow> Some (Inl err)
         | None \<Rightarrow>
             (case ToClientID cu of
                None \<Rightarrow> None
              | Some i \<Rightarrow> map_option (map_sum id ((#) i)) (check_ids proxy cs)))"

definition ApplyCheckState :: "localJSM \<Rightarrow> CheckClientStateRequest \<Rightarrow> CheckClientStateResponse fsm_result" where
  "ApplyCheckState s req =
     (case check_ids (cc_ProxyId req) (cc_ClientIds req) of
        None \<Rightarrow> None
      | Some (Inl err) \<Rightarrow> Some (s, Inl err)
      | Some (Inr ids) \<Rightarrow>
          (case CheckClientState s ids of
             Inl err \<Rightarrow> Some (s, Inl (StateErr err))
           | Inr (w, nw, m) \<Rightarrow>
               Some (s,
                 case ToStrings m of
                   Inl err \<Rightarrow> Inl err
                 | Inr missingIds \<Rightarrow>
                     (case ToStrings w of
                        Inl err \<Rightarrow> Inl err
                      | Inr waitingIds \<Rightarrow>
                          (case ToStrings nw of
                             Inl err \<Rightarrow> Inl err
                           | Inr notWaitingIds \<Rightarrow>
                               Inr \<lparr>cr_ProxyId = cc_ProxyId req, cr_WaitingClientIds = waitingIds,
                                 cr_NotWaitingClientIds = notWaitingIds, cr_MissingClientIds = missingIds\<rparr>)))))"

section \<open>Applying a log entry\<close>

text \<open>\<open>answer pb enc r\<close> encodes the result of an operation; a panic in either is a panic.\<close>

definition answer :: "protobuf \<Rightarrow> ('m \<Rightarrow> bytes option) \<Rightarrow> 'm fsm_result \<Rightarrow> (localJSM \<times> bytes) option" where
  "answer pb enc r =
     (case r of None \<Rightarrow> None | Some (s, x) \<Rightarrow> map_option (Pair s) (newApplyRespBytes pb enc x))"

definition decoded :: "('m \<Rightarrow> 'r option) \<Rightarrow> 'm option \<Rightarrow> 'r option" where
  "decoded k m = Option.bind m k"

text \<open>
  \<open>ord\<close> and \<open>ord'\<close> are the orders of the loops over the map of tubes, \<open>y\<close> is \<^verbatim>\<open>yaml.Marshal\<close>.
\<close>

definition Apply ::
    "protobuf \<Rightarrow> marshal \<Rightarrow> localJSM \<Rightarrow> bytes \<Rightarrow> TubeName list \<Rightarrow> TubeName list \<Rightarrow> (localJSM \<times> bytes) option" where
  "Apply pb y s data ord ord' =
     decoded (\<lambda>applyReq.
       let b = ao_Body applyReq; now = ao_NowSecs applyReq
       in case ao_Op applyReq of
            OpType_BURY \<Rightarrow> decoded (\<lambda>r. answer pb (enc_Empty pb) (ApplyBury s now r)) (unmarshalP (dec_BuryRequest pb) b)
          | OpType_DELETE \<Rightarrow> decoded (\<lambda>r. answer pb (enc_Empty pb) (ApplyDelete s r)) (unmarshalP (dec_DeleteRequest pb) b)
          | OpType_KICK \<Rightarrow> decoded (\<lambda>r. answer pb (enc_Empty pb) (ApplyKick s r)) (unmarshalP (dec_KickRequest pb) b)
          | OpType_KICKN \<Rightarrow>
              decoded (\<lambda>r. answer pb (enc_KickNResponse pb) (ApplyKickN s r)) (unmarshalP (dec_KickNRequest pb) b)
          | OpType_LIST_TUBES \<Rightarrow> answer pb (enc_ListTubesResponse pb) (ApplyListTubes s ord)
          | OpType_PEEK_BURIED \<Rightarrow>
              decoded (\<lambda>r. answer pb (enc_PeekResponse pb) (ApplyPeekBuried s r)) (unmarshalP (dec_PeekRequest pb) b)
          | OpType_PEEK_READY \<Rightarrow>
              decoded (\<lambda>r. answer pb (enc_PeekResponse pb) (ApplyPeekReady s r)) (unmarshalP (dec_PeekRequest pb) b)
          | OpType_PEEK_DELAYED \<Rightarrow>
              decoded (\<lambda>r. answer pb (enc_PeekResponse pb) (ApplyPeekDelayed s r)) (unmarshalP (dec_PeekRequest pb) b)
          | OpType_PUT \<Rightarrow> decoded (\<lambda>r. answer pb (enc_PutResponse pb) (ApplyPut s now r)) (unmarshalP (dec_PutRequest pb) b)
          | OpType_GET_JOB \<Rightarrow>
              decoded (\<lambda>r. answer pb (enc_GetJobResponse pb) (ApplyGetJob s r)) (unmarshalP (dec_GetJobRequest pb) b)
          | OpType_RELEASE \<Rightarrow>
              decoded (\<lambda>r. answer pb (enc_Empty pb) (ApplyRelease s now r)) (unmarshalP (dec_ReleaseRequest pb) b)
          | OpType_RESERVE \<Rightarrow>
              decoded (\<lambda>r. answer pb (enc_ReserveResponse pb) (ApplyReserve s now r)) (unmarshalP (dec_ReserveRequest pb) b)
          | OpType_STATS_JOB_YAML \<Rightarrow>
              decoded (\<lambda>r. answer pb (enc_GetStatsJobYamlResponse pb) (ApplyStatsJobYaml y s now r))
                (unmarshalP (dec_GetStatsJobYamlRequest pb) b)
          | OpType_STATS_TUBE_YAML \<Rightarrow>
              decoded (\<lambda>r. answer pb (enc_GetStatsTubeYamlResponse pb) (ApplyStatsTubeYaml y s r))
                (unmarshalP (dec_GetStatsTubeYamlRequest pb) b)
          | OpType_STATS_YAML \<Rightarrow>
              decoded (\<lambda>_. answer pb (enc_GetStatsYamlResponse pb) (ApplyStatsYaml y s)) (unmarshalP (dec_Empty pb) b)
          | OpType_TICK \<Rightarrow> answer pb (enc_TickResponse pb) (ApplyTick s now ord ord')
          | OpType_TOUCH \<Rightarrow> decoded (\<lambda>r. answer pb (enc_Empty pb) (ApplyTouch s now r)) (unmarshalP (dec_TouchRequest pb) b)
          | OpType_CHECK_CLIENT_STATE \<Rightarrow>
              decoded (\<lambda>r. answer pb (enc_CheckClientStateResponse pb) (ApplyCheckState s r))
                (unmarshalP (dec_CheckClientStateRequest pb) b)
          | OpType_other n \<Rightarrow>
              map_option (Pair s) (marshalP (enc_ApplyOpResponse pb)
                \<lparr>ar_ErrorCode = ResultCode_Unimplemented,
                 ar_ErrorMessage = Text_op ''Unsupported optype='' (ao_Op applyReq), ar_Body = []\<rparr>))
       (newApplyReq pb data)"

end
