(* ===== verification/FSM_Correct.thy ===== *)
theory FSM_Correct
  imports FSM
begin

text \<open>
  Correctness of the finite state machine of \<^verbatim>\<open>store/store.go\<close>: no committed log entry that
  decodes makes it panic, whatever the log before was; the invariant of the job state machine
  holds after every log; answers go to the client and the proxy that asked.
\<close>

section \<open>Every operation returns\<close>

text \<open>
  \<open>returns s A r\<close>: the call returns with the invariant kept, and only clients that waited
  before or are in \<open>A\<close> wait afterwards.
\<close>

definition returns :: "localJSM \<Rightarrow> ClientID set \<Rightarrow> (localJSM \<times> 'x) option \<Rightarrow> bool" where
  "returns s A r \<longleftrightarrow>
     (\<exists>s' x. r = Some (s', x) \<and> jsm_ok s' {} \<and> dom (waiting_on s') \<subseteq> dom (waiting_on s) \<union> A)"

named_theorems returns_intros \<open>the operations that return\<close>

lemma returns_tally [returns_intros]: "jsm_ok s {} \<Longrightarrow> returns s A (Some (tally f s, x))"
  by (auto simp: returns_def)

lemma returns_same: "jsm_ok s {} \<Longrightarrow> returns s A (Some (s, x))"
  by (auto simp: returns_def)

lemma returns_does: "does s r spec \<Longrightarrow> returns s A r"
  by (auto simp: does_def returns_def seen_of_def)

lemma returns_of_jsm [returns_intros]: "returns s A r \<Longrightarrow> returns s A (of_jsm r)"
  by (fastforce simp: returns_def of_jsm_def)

lemma returns_and_then:
  assumes "returns s A r" and "\<And>s' a. jsm_ok s' {} \<Longrightarrow> \<exists>x. k s' a = Some (s', x)"
  shows "returns s A (and_then r k)"
proof -
  obtain s' x where r: "r = Some (s', x)" "jsm_ok s' {}" "dom (waiting_on s') \<subseteq> dom (waiting_on s) \<union> A"
    using assms(1) by (auto simp: returns_def)
  then show ?thesis using assms(2) [OF r(2)] by (cases x) (fastforce simp: returns_def)+
qed

lemma returns_with_client:
  assumes "jsm_ok s {}" and "\<And>c i. ParseClientURI i = Inr c \<Longrightarrow> i \<noteq> [] \<Longrightarrow> returns s A (k i)"
  shows "returns s A (with_client s req k)"
proof (cases "newClientUri req")
  case (Inl err)
  then show ?thesis using returns_same [OF assms(1)] by (simp add: with_client_def)
next
  case (Inr cu)
  then have v: "Validate cu = None" by (auto simp: newClientUri_def Let_def split: option.splits)
  obtain i where i: "ToClientID cu = Some i" "i \<noteq> []" using ToClientID_defined by blast
  then have "ParseClientURI i = Inr cu" using parse_printed [OF i(1)] v by simp
  then show ?thesis using assms(2) i Inr by (simp add: with_client_def)
qed

lemma KickN_returns [returns_intros]: "jsm_ok s {} \<Longrightarrow> returns s A (KickN s t n)"
  using KickN_loop_ok [of "tally (\<lambda>c. c\<lparr>nCmdKickN := nCmdKickN c + 1\<rparr>) s" "nat n" t 0]
  by (auto simp: KickN_def returns_def seen_of_def)

lemma Put_returns [returns_intros]: "jsm_ok s {} \<Longrightarrow> sane_ttr x \<Longrightarrow> returns s A (Put s now p d x z b t)"
  using Put_ok [of s x now p d z b t] by (fastforce simp: returns_def seen_of_def)

lemma reading_returns [returns_intros]:
  assumes "jsm_ok s {}"
  shows "returns s A (GetJob s i)" and "returns s A (GetTubes s ord)"
    and "returns s A (GetStatsJobAsYaml y s now i)" and "returns s A (GetStatsTubeAsYaml y s t)"
    and "returns s A (GetStatsAsYaml y s)"
  using assms
  by (auto simp: GetJob_def GetTubes_def GetStatsJobAsYaml_def GetStatsTubeAsYaml_def GetStatsAsYaml_def Let_def
      get_entry_def JobIndex_Get_def intro!: returns_tally returns_same split: option.splits sum.splits)
    (cases "tubeIndex_GetStatistics (tubes s) t"; simp add: returns_tally returns_same)

lemma AppendReservation_returns:
  assumes "jsm_ok s {}" and "sane_time now" and "distinct ts"
  shows "returns s {i} (AppendReservation s i req ts now dl)"
proof -
  consider "dl < now \<or> now + 86400 < dl" | "now \<le> dl" "dl \<le> now + 86400" "waiting_on s i \<noteq> None"
    | "now \<le> dl" "dl \<le> now + 86400" "waiting_on s i = None" by linarith
  then show ?thesis
  proof cases
    case 1
    then show ?thesis using AppendReservation_refused(1) [OF assms(2), of dl s i req ts] returns_same [OF assms(1)] by simp
  next
    case 2
    then show ?thesis
      using AppendReservation_refused(2) [OF assms(2), of dl s i req ts] returns_tally [OF assms(1)] by metis
  next
    case 3
    show ?thesis
      using assms 3 by (cases rule: AppendReservation_accepted [where req = req]) (auto simp: returns_def)
  qed
qed

section \<open>The clients of the answers of the clock\<close>

lemma served_clients:
  "served now a rs b \<Longrightarrow>
     dom (fst (snd b)) \<subseteq> dom (fst (snd a)) \<and> (\<forall>r \<in> set rs. rv_ClientId r \<in> dom (fst (snd a)))"
  by (induction rule: served.induct) (auto simp: reply_def split: if_splits)

lemma ended_clients:
  "ended now a rs b \<Longrightarrow>
     dom (fst (snd b)) \<subseteq> dom (fst (snd a)) \<and> (\<forall>r \<in> set rs. rv_ClientId r \<in> dom (fst (snd a)))"
  by (induction rule: ended.induct) (auto simp: stop_reply_def split: if_splits)

lemma Tick_clients:
  assumes "jsm_ok s {}" and "sane_time now"
    and "set ord = set (mkeys (tubes s))" and "set ord' = set (mkeys (tubes s))"
  shows "\<exists>s' rs. Tick s now ord ord' = Some (s', Inr rs) \<and> jsm_ok s' {} \<and>
           dom (waiting_on s') \<subseteq> dom (waiting_on s) \<and> rv_ClientId ` set rs \<subseteq> dom (waiting_on s)"
proof -
  obtain s' rs qs b where t: "Tick s now ord ord' = Some (s', Inr (rs @ qs))" "jsm_ok s' {}"
      "served now (ripen now UNIV (job_views s), waiting_on s, wait_line s) rs b" "ended now b qs (seen_of s')"
    using Tick_ok [OF assms(1,2), of ord ord'] assms(3,4) unfolding dom_mkeys by blast
  note c = served_clients [OF t(3), simplified] ended_clients [OF t(4), unfolded seen_of_def, simplified]
  have "dom (waiting_on s') \<subseteq> dom (waiting_on s)" using c by (meson subset_trans)
  moreover have "rv_ClientId ` set (rs @ qs) \<subseteq> dom (waiting_on s)" using c unfolding image_subset_iff set_append by blast
  ultimately show ?thesis using t(1,2) by blast
qed

section \<open>Grouping by proxy\<close>

text \<open>The answers for one proxy.\<close>

definition for_proxy :: "TickResponse \<Rightarrow> string \<Rightarrow> V1Reservation list" where
  "for_proxy m p = case_option [] id (mget m p)"

definition v1_of :: "Reservation \<Rightarrow> V1Reservation" where
  "v1_of r = projr (toV1Reservation r)"

lemma group_by_proxy_ok:
  assumes "\<And>r. r \<in> set rs \<Longrightarrow> \<exists>c. ParseClientURI (rv_ClientId r) = Inr c"
  shows "\<exists>m'. group_by_proxy rs m = Inr m' \<and>
           (\<forall>p. for_proxy m' p = for_proxy m p @ filter (\<lambda>v. v1_ProxyId v = p) (map v1_of rs)) \<and>
           set (mkeys m') = set (mkeys m) \<union> (v1_ProxyId \<circ> v1_of) ` set rs"
  using assms
proof (induction rs arbitrary: m)
  case (Cons r rs)
  obtain v where v: "toV1Reservation r = Inr v" using Cons.prems [of r] by (auto simp: toV1Reservation_def)
  define m1 where "m1 = mput m (v1_ProxyId v) (for_proxy m (v1_ProxyId v) @ [v])"
  have "group_by_proxy (r # rs) m = group_by_proxy rs m1"
    by (simp add: v m1_def for_proxy_def split: option.splits)
  moreover have "v1_of r = v" by (simp add: v1_of_def v)
  moreover have "for_proxy m1 p = for_proxy m p @ (if v1_ProxyId v = p then [v] else [])" for p
    by (simp add: m1_def for_proxy_def)
  moreover have "set (mkeys m1) = insert (v1_ProxyId v) (set (mkeys m))"
    unfolding dom_mkeys [symmetric] m1_def update_conv' by auto
  ultimately show ?case using Cons.IH [of m1] Cons.prems by (auto simp: Cons.prems)
qed simp

section \<open>The invariant of a replica\<close>

text \<open>Every client that waits has an id that names its proxy.\<close>

definition uri_ok :: "localJSM \<Rightarrow> bool" where
  "uri_ok s \<longleftrightarrow> (\<forall>i \<in> dom (waiting_on s). \<exists>c. ParseClientURI i = Inr c)"

definition replica_ok :: "localJSM \<Rightarrow> bool" where
  "replica_ok s \<longleftrightarrow> jsm_ok s {} \<and> uri_ok s"

text \<open>What the code relies on of the protocol buffers library: encoding does not fail.\<close>

definition encodes :: "protobuf \<Rightarrow> bool" where
  "encodes pb \<longleftrightarrow>
     (\<forall>m. enc_ApplyOpResponse pb m \<noteq> None) \<and> (\<forall>m. enc_Empty pb m \<noteq> None) \<and> (\<forall>m. enc_KickNResponse pb m \<noteq> None) \<and>
     (\<forall>m. enc_ListTubesResponse pb m \<noteq> None) \<and> (\<forall>m. enc_PeekResponse pb m \<noteq> None) \<and>
     (\<forall>m. enc_PutResponse pb m \<noteq> None) \<and> (\<forall>m. enc_GetJobResponse pb m \<noteq> None) \<and>
     (\<forall>m. enc_ReserveResponse pb m \<noteq> None) \<and> (\<forall>m. enc_GetStatsJobYamlResponse pb m \<noteq> None) \<and>
     (\<forall>m. enc_GetStatsTubeYamlResponse pb m \<noteq> None) \<and> (\<forall>m. enc_GetStatsYamlResponse pb m \<noteq> None) \<and>
     (\<forall>m. enc_TickResponse pb m \<noteq> None) \<and> (\<forall>m. enc_CheckClientStateResponse pb m \<noteq> None)"

text \<open>
  \<open>entry_ok pb data\<close>: a log entry as the leader writes it. It decodes, as does its body to the
  request of its operation, its clock is sane, the watched tubes of a reservation are
  distinct and a time to run is a 32-bit number.
\<close>

definition body_ok :: "protobuf \<Rightarrow> OpType \<Rightarrow> bytes \<Rightarrow> bool" where
  "body_ok pb op b =
     (case op of
        OpType_BURY \<Rightarrow> dec_BuryRequest pb b \<noteq> None
      | OpType_DELETE \<Rightarrow> dec_DeleteRequest pb b \<noteq> None
      | OpType_KICK \<Rightarrow> dec_KickRequest pb b \<noteq> None
      | OpType_KICKN \<Rightarrow> dec_KickNRequest pb b \<noteq> None
      | OpType_PEEK_BURIED \<Rightarrow> dec_PeekRequest pb b \<noteq> None
      | OpType_PEEK_READY \<Rightarrow> dec_PeekRequest pb b \<noteq> None
      | OpType_PEEK_DELAYED \<Rightarrow> dec_PeekRequest pb b \<noteq> None
      | OpType_PUT \<Rightarrow> (\<exists>r. dec_PutRequest pb b = Some r \<and> in_int32 (pr_Ttr r))
      | OpType_GET_JOB \<Rightarrow> dec_GetJobRequest pb b \<noteq> None
      | OpType_RELEASE \<Rightarrow> dec_ReleaseRequest pb b \<noteq> None
      | OpType_RESERVE \<Rightarrow> (\<exists>r. dec_ReserveRequest pb b = Some r \<and> distinct (rs_WatchedTubes r))
      | OpType_STATS_JOB_YAML \<Rightarrow> dec_GetStatsJobYamlRequest pb b \<noteq> None
      | OpType_STATS_TUBE_YAML \<Rightarrow> dec_GetStatsTubeYamlRequest pb b \<noteq> None
      | OpType_STATS_YAML \<Rightarrow> dec_Empty pb b \<noteq> None
      | OpType_TOUCH \<Rightarrow> dec_TouchRequest pb b \<noteq> None
      | OpType_CHECK_CLIENT_STATE \<Rightarrow> dec_CheckClientStateRequest pb b \<noteq> None
      | _ \<Rightarrow> True)"

definition entry_ok :: "protobuf \<Rightarrow> bytes \<Rightarrow> bool" where
  "entry_ok pb data =
     (case dec_ApplyOpRequest pb data of
        None \<Rightarrow> False
      | Some r \<Rightarrow> sane_time (ao_NowSecs r) \<and> body_ok pb (ao_Op r) (ao_Body r))"

text \<open>\<open>A\<close> holds ids that name their proxy.\<close>

definition keeps :: "localJSM \<Rightarrow> (localJSM \<times> 'x) option \<Rightarrow> bool" where
  "keeps s r \<longleftrightarrow> (\<exists>s' x. r = Some (s', x) \<and> replica_ok s')"

lemma returns_keeps:
  assumes "replica_ok s" and "returns s A r" and "\<And>i. i \<in> A \<Longrightarrow> \<exists>c. ParseClientURI i = Inr c"
  shows "keeps s r"
  using assms unfolding returns_def keeps_def replica_ok_def uri_ok_def by blast

lemma answer_keeps:
  assumes "keeps s r" and "encodes pb" and "\<And>m. enc m \<noteq> None"
  shows "keeps s (answer pb enc r)"
proof -
  obtain s' x where r: "r = Some (s', x)" "replica_ok s'" using assms(1) by (auto simp: keeps_def)
  have e: "\<exists>b. enc_ApplyOpResponse pb m = Some b" for m using assms(2) by (auto simp: encodes_def)
  have "\<exists>b. newApplyRespBytes pb enc x = Some b"
  proof (cases x)
    case (Inl err)
    then show ?thesis using e by (simp add: newApplyRespBytes_def marshalP_def)
  next
    case (Inr m)
    moreover obtain b where "enc m = Some b" using assms(3) [of m] by auto
    ultimately show ?thesis using e by (simp add: newApplyRespBytes_def marshalP_def)
  qed
  then show ?thesis using r by (auto simp: answer_def keeps_def)
qed

lemma int32_sane_ttr: "in_int32 x \<Longrightarrow> sane_ttr x"
  by (simp add: in_int32_def sane_ttr_def)

lemma Apply_op_returns:
  assumes ok: "jsm_ok s {}" and now: "sane_time now"
  shows "returns s {} (ApplyBury s now br)" and "returns s {} (ApplyDelete s dr)"
    and "returns s {} (ApplyGetJob s i)" and "in_int32 (pr_Ttr pr) \<Longrightarrow> returns s {} (ApplyPut s now pr)"
    and "returns s {} (ApplyPeekBuried s t)" and "returns s {} (ApplyPeekDelayed s t)"
    and "returns s {} (ApplyPeekReady s t)" and "returns s {} (ApplyKick s i)" and "returns s {} (ApplyKickN s kr)"
    and "returns s {} (ApplyListTubes s ord)" and "returns s {} (ApplyRelease s now rr)"
    and "returns s {} (ApplyStatsJobYaml y s now i)" and "returns s {} (ApplyStatsTubeYaml y s t)"
    and "returns s {} (ApplyStatsYaml y s)" and "returns s {} (ApplyTouch s now tr)"
proof -
  show "returns s {} (ApplyBury s now br)" "returns s {} (ApplyDelete s dr)" "returns s {} (ApplyRelease s now rr)"
    "returns s {} (ApplyTouch s now tr)"
    using ok now
    by (auto simp: ApplyBury_def ApplyDelete_def ApplyRelease_def ApplyTouch_def
        intro!: returns_with_client returns_of_jsm Bury_does [THEN returns_does] Delete_does [THEN returns_does]
          ReleaseWith_does [THEN returns_does] Touch_does [THEN returns_does])
  show "returns s {} (ApplyKick s i)"
    unfolding ApplyKick_def by (intro returns_of_jsm Kick_does [THEN returns_does] ok)
  show "returns s {} (ApplyGetJob s i)" "returns s {} (ApplyKickN s kr)"
    unfolding ApplyGetJob_def ApplyKickN_def
    by (auto split: prod.split intro!: returns_and_then returns_intros ok)
  show "returns s {} (ApplyPut s now pr)" if "in_int32 (pr_Ttr pr)"
    unfolding ApplyPut_def by (auto intro!: returns_and_then returns_intros ok int32_sane_ttr that)
  show "returns s {} (ApplyPeekBuried s t)" "returns s {} (ApplyPeekDelayed s t)" "returns s {} (ApplyPeekReady s t)"
    unfolding ApplyPeekBuried_def ApplyPeekDelayed_def ApplyPeekReady_def ApplyPeek_def
      PeekBuriedJob_def PeekDelayedJob_def PeekReadyJob_def Let_def
    by (auto intro!: returns_and_then returns_intros ok)
  show "returns s {} (ApplyListTubes s ord)" "returns s {} (ApplyStatsJobYaml y s now i)"
    "returns s {} (ApplyStatsTubeYaml y s t)" "returns s {} (ApplyStatsYaml y s)"
    unfolding ApplyListTubes_def ApplyStatsJobYaml_def ApplyStatsTubeYaml_def ApplyStatsYaml_def
    by (auto intro!: returns_intros ok)
qed

lemma with_client_valid:
  assumes "cp_ClientId req \<noteq> []" and "cp_ProxyId req \<noteq> []"
  shows "\<exists>i. with_client s req k = k i \<and> i \<noteq> [] \<and> ToClientID (NewClientURI (cp_ProxyId req) (cp_ClientId req)) = Some i \<and>
           ParseClientURI i = Inr (NewClientURI (cp_ProxyId req) (cp_ClientId req))"
proof -
  let ?c = "NewClientURI (cp_ProxyId req) (cp_ClientId req)"
  have v: "Validate ?c = None" using assms by (simp add: Validate_def NewClientURI_def)
  obtain i where i: "ToClientID ?c = Some i" "i \<noteq> []" using ToClientID_defined by blast
  then show ?thesis using parse_printed [OF i(1)] v by (simp add: with_client_def newClientUri_def Let_def)
qed

lemma with_client_invalid:
  assumes "cp_ClientId req = [] \<or> cp_ProxyId req = []"
  shows "with_client s req k = Some (s, Inl ErrValidationFailed)"
  using assms by (auto simp: with_client_def newClientUri_def Validate_def NewClientURI_def Let_def)

lemma ApplyReserve_keeps:
  assumes "replica_ok s" and "sane_time now" and "distinct (rs_WatchedTubes req)"
  shows "keeps s (ApplyReserve s now req)"
proof (cases "cp_ClientId req = [] \<or> cp_ProxyId req = []")
  case True
  then show ?thesis using assms(1) by (simp add: ApplyReserve_def keeps_def with_client_invalid)
next
  case False
  let ?k = "\<lambda>i. and_then (of_jsm (AppendReservation s i (rs_RequestId req) (rs_WatchedTubes req) now
      (wrap64 (now + rs_TimeoutSecs req)))) (\<lambda>s r. Some (s, toV1Reservation r))"
  obtain i where i: "with_client s req ?k = ?k i" "ParseClientURI i = Inr (NewClientURI (cp_ProxyId req) (cp_ClientId req))"
    using with_client_valid [of req s ?k] False by blast
  have ok: "jsm_ok s {}" using assms(1) by (simp add: replica_ok_def)
  have "returns s {i} (?k i)"
    by (intro returns_and_then returns_of_jsm AppendReservation_returns ok assms(2,3)) simp
  then have "keeps s (?k i)" by (rule returns_keeps [OF assms(1)]) (use i(2) in auto)
  then show ?thesis by (simp add: ApplyReserve_def i(1))
qed

lemma ApplyTick_groups:
  assumes ok: "replica_ok s" and "sane_time now"
    and "set ord = set (mkeys (tubes s))" and "set ord' = set (mkeys (tubes s))"
  shows "\<exists>s' rs m. Tick s now ord ord' = Some (s', Inr rs) \<and> ApplyTick s now ord ord' = Some (s', Inr m) \<and>
           replica_ok s' \<and> (\<forall>p. for_proxy m p = filter (\<lambda>v. v1_ProxyId v = p) (map v1_of rs)) \<and>
           set (mkeys m) = (v1_ProxyId \<circ> v1_of) ` set rs \<and>
           (\<forall>r \<in> set rs. \<exists>c. ParseClientURI (rv_ClientId r) = Inr c)"
proof -
  obtain s' rs where t: "Tick s now ord ord' = Some (s', Inr rs)" "jsm_ok s' {}"
      "dom (waiting_on s') \<subseteq> dom (waiting_on s)" "rv_ClientId ` set rs \<subseteq> dom (waiting_on s)"
    using Tick_clients [of s now ord ord'] assms by (auto simp: replica_ok_def)
  have u: "\<exists>c. ParseClientURI (rv_ClientId r) = Inr c" if "r \<in> set rs" for r
    using ok t(4) that by (auto simp: replica_ok_def uri_ok_def)
  obtain m where m: "group_by_proxy rs [] = Inr m"
      "\<And>p. for_proxy m p = filter (\<lambda>v. v1_ProxyId v = p) (map v1_of rs)" "set (mkeys m) = (v1_ProxyId \<circ> v1_of) ` set rs"
    using group_by_proxy_ok [OF u, of rs "[]"] by (auto simp: for_proxy_def)
  have "replica_ok s'" using ok t(2,3) by (auto simp: replica_ok_def uri_ok_def)
  then show ?thesis
    using t(1) m u by (intro exI [of _ s'] exI [of _ rs] exI [of _ m]) (simp add: ApplyTick_def of_jsm_def)
qed

section \<open>Checking the state of clients\<close>

definition client_uri :: "string \<Rightarrow> string \<Rightarrow> ClientID" where
  "client_uri p c = the (ToClientID (NewClientURI p c))"

lemma client_uri_parse:
  "ToClientID (NewClientURI p c) = Some (client_uri p c)"
  "p \<noteq> [] \<Longrightarrow> c \<noteq> [] \<Longrightarrow> ParseClientURI (client_uri p c) = Inr (NewClientURI p c)"
proof -
  show i: "ToClientID (NewClientURI p c) = Some (client_uri p c)"
    using ToClientID_defined [of "NewClientURI p c"] by (auto simp: client_uri_def)
  show "ParseClientURI (client_uri p c) = Inr (NewClientURI p c)" if "p \<noteq> []" "c \<noteq> []"
    using parse_printed [OF i] that by (simp add: Validate_def NewClientURI_def)
qed

lemma check_ids_eq:
  "check_ids p cs = Some (if cs \<noteq> [] \<and> p = [] \<or> [] \<in> set cs then Inl ErrValidationFailed else Inr (map (client_uri p) cs))"
  by (induction cs) (auto simp: Let_def Validate_def NewClientURI_def client_uri_parse [unfolded NewClientURI_def])

lemma ToStrings_uris:
  "p \<noteq> [] \<Longrightarrow> [] \<notin> set cs \<Longrightarrow> ToStrings (map (client_uri p) cs) = Inr cs"
  by (induction cs) (auto simp: client_uri_parse NewClientURI_def)

lemma ApplyCheckState_eq:
  assumes "jsm_ok s {}" and "cc_ProxyId req \<noteq> []" and "[] \<notin> set (cc_ClientIds req)"
  defines "u \<equiv> client_uri (cc_ProxyId req)"
  shows "ApplyCheckState s req = Some (s, Inr \<lparr>cr_ProxyId = cc_ProxyId req,
           cr_WaitingClientIds = filter (\<lambda>c. waiting_on s (u c) \<noteq> None) (cc_ClientIds req),
           cr_NotWaitingClientIds = filter (\<lambda>c. known s (u c) \<and> waiting_on s (u c) = None) (cc_ClientIds req),
           cr_MissingClientIds = filter (\<lambda>c. \<not> known s (u c)) (cc_ClientIds req)\<rparr>)"
proof -
  have t: "ToStrings (filter P (map u (cc_ClientIds req))) = Inr (filter (P \<circ> u) (cc_ClientIds req))" for P
    using ToStrings_uris [OF assms(2), of "filter (P \<circ> u) (cc_ClientIds req)"] assms(3) by (simp add: filter_map u_def)
  have c: "CheckClientState s (map u (cc_ClientIds req)) =
      Inr (filter (\<lambda>i. waiting_on s i \<noteq> None) (map u (cc_ClientIds req)),
           filter (\<lambda>i. known s i \<and> waiting_on s i = None) (map u (cc_ClientIds req)),
           filter (\<lambda>i. \<not> known s i) (map u (cc_ClientIds req)))"
    using check_clients_eq [of s "map u (cc_ClientIds req)" "[]" "[]" "[]"] assms(1)
    by (simp add: CheckClientState_def jsm_ok_def)
  have "check_ids (cc_ProxyId req) (cc_ClientIds req) = Some (Inr (map u (cc_ClientIds req)))"
    using assms(2,3) by (simp add: check_ids_eq u_def)
  then show ?thesis unfolding ApplyCheckState_def by (simp only: option.case sum.case c prod.case t) (simp add: comp_def)
qed

lemma ApplyCheckState_keeps:
  assumes "replica_ok s"
  shows "keeps s (ApplyCheckState s req)"
proof (cases "cc_ClientIds req \<noteq> [] \<and> cc_ProxyId req = [] \<or> [] \<in> set (cc_ClientIds req)")
  case True
  then show ?thesis using assms by (simp add: ApplyCheckState_def check_ids_eq keeps_def)
next
  case False
  show ?thesis
  proof (cases "cc_ClientIds req = []")
    case True
    then show ?thesis using assms by (simp add: ApplyCheckState_def CheckClientState_def keeps_def)
  next
    case ne: False
    then show ?thesis using ApplyCheckState_eq [of s req] False assms by (simp add: keeps_def replica_ok_def)
  qed
qed

section \<open>Applying the log\<close>

lemma Apply_keeps:
  assumes ok: "replica_ok s" and pb: "encodes pb" and e: "entry_ok pb data"
    and ord: "set ord = set (mkeys (tubes s))" "set ord' = set (mkeys (tubes s))"
  shows "keeps s (Apply pb y s data ord ord')"
proof -
  obtain r where r: "dec_ApplyOpRequest pb data = Some r" "sane_time (ao_NowSecs r)" "body_ok pb (ao_Op r) (ao_Body r)"
    using e by (auto simp: entry_ok_def split: option.splits)
  have jok: "jsm_ok s {}" using ok by (simp add: replica_ok_def)
  have enc: "\<And>m. enc_Empty pb m \<noteq> None" "\<And>m. enc_KickNResponse pb m \<noteq> None" "\<And>m. enc_ListTubesResponse pb m \<noteq> None"
    "\<And>m. enc_PeekResponse pb m \<noteq> None" "\<And>m. enc_PutResponse pb m \<noteq> None" "\<And>m. enc_GetJobResponse pb m \<noteq> None"
    "\<And>m. enc_ReserveResponse pb m \<noteq> None" "\<And>m. enc_GetStatsJobYamlResponse pb m \<noteq> None"
    "\<And>m. enc_GetStatsTubeYamlResponse pb m \<noteq> None" "\<And>m. enc_GetStatsYamlResponse pb m \<noteq> None"
    "\<And>m. enc_TickResponse pb m \<noteq> None" "\<And>m. enc_CheckClientStateResponse pb m \<noteq> None"
    and resp: "\<And>m. \<exists>b. enc_ApplyOpResponse pb m = Some b"
    using pb unfolding encodes_def by blast+
  note ops = Apply_op_returns [OF jok r(2)]
  have tick: "keeps s (ApplyTick s (ao_NowSecs r) ord ord')"
    using ApplyTick_groups [OF ok r(2) ord] by (auto simp: keeps_def)
  show ?thesis
  proof (cases "ao_Op r")
    case (OpType_other n)
    then show ?thesis
      using r(1) ok resp by (auto simp: Apply_def newApplyReq_def unmarshalP_def decoded_def marshalP_def keeps_def)
  qed (use r in \<open>auto simp: Apply_def newApplyReq_def unmarshalP_def decoded_def body_ok_def
      intro!: answer_keeps pb enc tick ApplyReserve_keeps ApplyCheckState_keeps ok ops [THEN returns_keeps [OF ok]]\<close>)
qed

text \<open>The states that a node reaches by applying log entries.\<close>

inductive replica :: "protobuf \<Rightarrow> marshal \<Rightarrow> localJSM \<Rightarrow> bool" for pb y where
  replica_new: "replica pb y NewJSM"
| replica_apply: "replica pb y s \<Longrightarrow> entry_ok pb data \<Longrightarrow>
     set ord = set (mkeys (tubes s)) \<Longrightarrow> set ord' = set (mkeys (tubes s)) \<Longrightarrow>
     Apply pb y s data ord ord' = Some (s', b) \<Longrightarrow> replica pb y s'"

lemma NewJSM_replica_ok: "replica_ok NewJSM"
  using NewJSM_ok
  by (auto simp: replica_ok_def uri_ok_def NewJSM_def waiting_on_def clientResvQueue_Find_def newClientResvQueue_def)

lemma replica_invariant:
  assumes "encodes pb" and "replica pb y s"
  shows "replica_ok s"
  using assms(2)
proof induction
  case (replica_apply s data ord ord' s' b)
  then show ?case using Apply_keeps [OF _ assms(1), of s data ord ord' y] by (auto simp: keeps_def)
qed (rule NewJSM_replica_ok)

section \<open>A concrete codec\<close>

text \<open>A codec whose log entries are the letters of the operations, to run the definitions on.\<close>

definition demo_request :: ReserveRequest where
  "demo_request =
     \<lparr>cp_ClientId = ''c'', cp_ProxyId = ''x'', rs_RequestId = ''q'', rs_TimeoutSecs = 10, rs_WatchedTubes = [''t'']\<rparr>"

definition demo_pb :: protobuf where
  "demo_pb = \<lparr>
     dec_ApplyOpRequest = (\<lambda>b.
       if b = ''p'' then Some \<lparr>ao_Op = OpType_PUT, ao_NowSecs = 100, ao_Body = []\<rparr>
       else if b = ''r'' then Some \<lparr>ao_Op = OpType_RESERVE, ao_NowSecs = 101, ao_Body = []\<rparr>
       else if b = ''t'' then Some \<lparr>ao_Op = OpType_TICK, ao_NowSecs = 102, ao_Body = []\<rparr>
       else None),
     dec_BuryRequest = (\<lambda>_. None), dec_DeleteRequest = (\<lambda>_. None), dec_KickRequest = (\<lambda>_. None),
     dec_KickNRequest = (\<lambda>_. None), dec_PeekRequest = (\<lambda>_. None),
     dec_PutRequest = (\<lambda>_. Some \<lparr>pr_Priority = 7, pr_Delay = 0, pr_Ttr = 60, pr_TubeName = ''t'', pr_BodySize = 3, pr_Body = ''abc''\<rparr>),
     dec_GetJobRequest = (\<lambda>_. None), dec_ReleaseRequest = (\<lambda>_. None),
     dec_ReserveRequest = (\<lambda>_. Some demo_request),
     dec_GetStatsJobYamlRequest = (\<lambda>_. None), dec_GetStatsTubeYamlRequest = (\<lambda>_. None), dec_Empty = (\<lambda>_. Some ()),
     dec_TouchRequest = (\<lambda>_. None), dec_CheckClientStateRequest = (\<lambda>_. None),
     enc_ApplyOpRequest = (\<lambda>r. if ao_Op r = OpType_PUT then Some ''p'' else None),
     enc_ApplyOpResponse = (\<lambda>r. Some (ar_Body r)),
     dec_ApplyOpResponse = (\<lambda>b. Some \<lparr>ar_ErrorCode = ResultCode_OK, ar_ErrorMessage = Text [], ar_Body = b\<rparr>),
     enc_Empty = (\<lambda>_. Some []), enc_KickNResponse = (\<lambda>_. Some []), enc_ListTubesResponse = (\<lambda>_. Some []),
     enc_PeekResponse = (\<lambda>_. Some []), enc_PutResponse = (\<lambda>i. Some (if i = 1 then ''one'' else [])), enc_GetJobResponse = (\<lambda>_. Some []),
     enc_ReserveResponse = (\<lambda>_. Some []), enc_GetStatsJobYamlResponse = Some, enc_GetStatsTubeYamlResponse = Some,
     enc_GetStatsYamlResponse = Some, enc_TickResponse = (\<lambda>_. Some []), enc_CheckClientStateResponse = (\<lambda>_. Some [])\<rparr>"

definition demo_yaml :: marshal where
  "demo_yaml _ = Inr []"

lemma demo_pb_ok: "encodes demo_pb" "entry_ok demo_pb ''p''" "entry_ok demo_pb ''r''" "entry_ok demo_pb ''t''"
  by (simp_all add: encodes_def entry_ok_def body_ok_def demo_pb_def demo_request_def sane_time_def in_int32_def)

lemma demo_replica: "replica demo_pb demo_yaml NewJSM"
  by (rule replica_new)

text \<open>A node on which a client waits.\<close>

definition demo_node :: localJSM where
  "demo_node = fst (the (Apply demo_pb demo_yaml NewJSM ''r'' [] []))"

lemma demo_node_facts: "replica_ok demo_node" "set [''t''] = set (mkeys (tubes demo_node))"
proof -
  have h: "set [] = set (mkeys (tubes NewJSM))" by (simp add: NewJSM_def)
  show "replica_ok demo_node"
    using Apply_keeps [OF NewJSM_replica_ok demo_pb_ok(1,3) h h, of demo_yaml] by (auto simp: demo_node_def keeps_def)
qed code_simp

section \<open>Properties\<close>

text \<open>
  C1: a node never gets stuck on its log. In every state that a node reaches by applying log
  entries (whose clock is sane, and that decode to a request with distinct watched tubes and
  a 32-bit time to run), the invariant of the job state machine holds, and every further
  entry, whatever the operation and the orders of the map loops, is applied without a panic
  and without running forever, provided that encoding an answer never fails.
\<close>

theorem replica_never_stuck:
  assumes "encodes pb" and "replica pb y s" and "entry_ok pb data"
    and "set ord = set (mkeys (tubes s))" and "set ord' = set (mkeys (tubes s))"
  shows "jsm_ok s {} \<and> (\<exists>s' b. Apply pb y s data ord ord' = Some (s', b) \<and> replica pb y s' \<and> jsm_ok s' {})"
proof -
  have ok: "replica_ok s" by (rule replica_invariant [OF assms(1,2)])
  obtain s' b where a: "Apply pb y s data ord ord' = Some (s', b)" "replica_ok s'"
    using Apply_keeps [OF ok assms(1,3,4,5), of y] by (auto simp: keeps_def)
  then show ?thesis using replica_apply [OF assms(2-5) a(1)] ok by (auto simp: replica_ok_def)
qed

theorem replica_never_stuck_witness:
  "encodes demo_pb \<and> replica demo_pb demo_yaml NewJSM \<and> entry_ok demo_pb ''p'' \<and>
   set [] = set (mkeys (tubes NewJSM)) \<and> jsm_ok NewJSM {} \<and>
   (\<exists>s' b. Apply demo_pb demo_yaml NewJSM ''p'' [] [] = Some (s', b) \<and> replica demo_pb demo_yaml s' \<and> jsm_ok s' {})"
proof -
  have h: "set [] = set (mkeys (tubes NewJSM))" by (simp add: NewJSM_def)
  show ?thesis
    using replica_never_stuck [OF demo_pb_ok(1) demo_replica demo_pb_ok(2) h h] demo_pb_ok(1,2) demo_replica h by simp
qed

text \<open>
  C5: no answer of the clock is lost and none goes to the wrong proxy: for every reservation
  that \<^verbatim>\<open>Tick\<close> returns the response of \<^verbatim>\<open>ApplyTick\<close> has exactly one entry, under the proxy of its
  client and in the order of \<^verbatim>\<open>Tick\<close>; and only proxies with an entry occur.
\<close>

theorem ApplyTick_delivers:
  assumes "replica_ok s" and "sane_time now"
    and "set ord = set (mkeys (tubes s))" and "set ord' = set (mkeys (tubes s))"
  shows "\<exists>s' rs m. Tick s now ord ord' = Some (s', Inr rs) \<and> ApplyTick s now ord ord' = Some (s', Inr m) \<and>
           (\<forall>p. for_proxy m p = filter (\<lambda>v. v1_ProxyId v = p) (map v1_of rs)) \<and>
           set (mkeys m) = (v1_ProxyId \<circ> v1_of) ` set rs \<and>
           (\<forall>r \<in> set rs. ParseClientURI (rv_ClientId r) = Inr (NewClientURI (v1_ProxyId (v1_of r)) (v1_ClientId (v1_of r))))"
proof -
  obtain s' rs m where t: "Tick s now ord ord' = Some (s', Inr rs)" "ApplyTick s now ord ord' = Some (s', Inr m)"
      "\<forall>p. for_proxy m p = filter (\<lambda>v. v1_ProxyId v = p) (map v1_of rs)" "set (mkeys m) = (v1_ProxyId \<circ> v1_of) ` set rs"
      "\<forall>r \<in> set rs. \<exists>c. ParseClientURI (rv_ClientId r) = Inr c"
    using ApplyTick_groups [OF assms] by blast
  have "ParseClientURI (rv_ClientId r) = Inr (NewClientURI (v1_ProxyId (v1_of r)) (v1_ClientId (v1_of r)))"
    if "r \<in> set rs" for r
    using t(5) that by (auto simp: v1_of_def toV1Reservation_def NewClientURI_def)
  with t(1-4) show ?thesis by blast
qed

theorem ApplyTick_delivers_witness:
  "replica_ok demo_node \<and> sane_time 200 \<and> set [''t''] = set (mkeys (tubes demo_node)) \<and>
   (\<exists>s' rs m. Tick demo_node 200 [''t''] [''t''] = Some (s', Inr rs) \<and> ApplyTick demo_node 200 [''t''] [''t''] = Some (s', Inr m) \<and>
           (\<forall>p. for_proxy m p = filter (\<lambda>v. v1_ProxyId v = p) (map v1_of rs)) \<and>
           set (mkeys m) = (v1_ProxyId \<circ> v1_of) ` set rs \<and>
           (\<forall>r \<in> set rs. ParseClientURI (rv_ClientId r) = Inr (NewClientURI (v1_ProxyId (v1_of r)) (v1_ClientId (v1_of r)))))"
proof -
  have h: "sane_time 200" by (simp add: sane_time_def)
  show ?thesis
    using ApplyTick_delivers [OF demo_node_facts(1) h demo_node_facts(2) demo_node_facts(2)] demo_node_facts(1,2) h
    by (intro conjI)
qed

text \<open>
  C8: a reservation with valid ids and a timeout of at most a day, from a client that is not
  waiting, is answered to that client, its proxy and its request: at once with the most
  urgent ready job of the first watched tube that has one, or as queued.
\<close>

theorem ApplyReserve_answers:
  assumes "jsm_ok s {}" and "sane_time now" and "distinct (rs_WatchedTubes req)"
    and "cp_ClientId req \<noteq> []" and "cp_ProxyId req \<noteq> []"
    and "0 \<le> rs_TimeoutSecs req" and "rs_TimeoutSecs req \<le> 86400"
    and "waiting_on s (client_uri (cp_ProxyId req) (cp_ClientId req)) = None"
  shows "\<exists>s' v. ApplyReserve s now req = Some (s', Inr v) \<and> jsm_ok s' {} \<and>
           v1_ClientId v = cp_ClientId req \<and> v1_ProxyId v = cp_ProxyId req \<and> v1_RequestId v = rs_RequestId req \<and>
           (v1_Status v = Queued \<and> (\<forall>u \<in> set (rs_WatchedTubes req). ids_at (job_views s) (LReady u) = {}) \<or>
            v1_Status v = Matched \<and> (\<exists>ts1 t ts2 k j. rs_WatchedTubes req = ts1 @ t # ts2 \<and>
              (\<forall>u \<in> set ts1. ids_at (job_views s) (LReady u) = {}) \<and> most_urgent (job_views s) t k j \<and>
              v1_JobId v = of_JobID k \<and> v1_Body v = Some (body j)))"
proof -
  let ?i = "client_uri (cp_ProxyId req) (cp_ClientId req)" and ?dl = "wrap64 (now + rs_TimeoutSecs req)"
  have dl: "?dl = now + rs_TimeoutSecs req"
    using assms(2,6,7) by (intro wrap64_id) (simp add: sane_time_def in_int64_def)
  have p: "ParseClientURI ?i = Inr \<lparr>proxyID = cp_ProxyId req, clientID = cp_ClientId req\<rparr>"
    using client_uri_parse(2) assms(4,5) by (simp add: NewClientURI_def)
  have a: "ApplyReserve s now req =
      and_then (of_jsm (AppendReservation s ?i (rs_RequestId req) (rs_WatchedTubes req) now ?dl))
        (\<lambda>s r. Some (s, toV1Reservation r))"
    using with_client_valid [of req s] client_uri_parse(1) assms(4,5) unfolding ApplyReserve_def by fastforce
  have "now \<le> ?dl" "?dl \<le> now + 86400" using dl assms(6,7) by simp_all
  with assms(1-3) show ?thesis using assms(8)
  proof (cases rule: AppendReservation_accepted [where req = "rs_RequestId req"])
    case (match s' ts1 t ts2 k v)
    show ?thesis using match(1-3,5) unfolding a match(4) by (auto simp: of_jsm_def toV1Reservation_def p)
  next
    case (queue s')
    show ?thesis using queue(1,3) unfolding a queue(2) by (auto simp: of_jsm_def toV1Reservation_def p queued_reply_def)
  qed
qed

theorem ApplyReserve_answers_witness:
  "jsm_ok NewJSM {} \<and> waiting_on NewJSM (client_uri ''x'' ''c'') = None \<and>
   (\<exists>s' v. ApplyReserve NewJSM 101 demo_request = Some (s', Inr v) \<and> jsm_ok s' {} \<and>
           v1_ClientId v = cp_ClientId demo_request \<and> v1_ProxyId v = cp_ProxyId demo_request \<and>
           v1_RequestId v = rs_RequestId demo_request \<and>
           (v1_Status v = Queued \<and> (\<forall>u \<in> set (rs_WatchedTubes demo_request). ids_at (job_views NewJSM) (LReady u) = {}) \<or>
            v1_Status v = Matched \<and> (\<exists>ts1 t ts2 k j. rs_WatchedTubes demo_request = ts1 @ t # ts2 \<and>
              (\<forall>u \<in> set ts1. ids_at (job_views NewJSM) (LReady u) = {}) \<and> most_urgent (job_views NewJSM) t k j \<and>
              v1_JobId v = of_JobID k \<and> v1_Body v = Some (body j))))"
proof -
  have h: "sane_time 101" "distinct (rs_WatchedTubes demo_request)" "cp_ClientId demo_request \<noteq> []"
    "cp_ProxyId demo_request \<noteq> []" "0 \<le> rs_TimeoutSecs demo_request" "rs_TimeoutSecs demo_request \<le> 86400"
    "waiting_on NewJSM (client_uri (cp_ProxyId demo_request) (cp_ClientId demo_request)) = None"
    by (simp_all add: demo_request_def sane_time_def NewJSM_def waiting_on_def clientResvQueue_Find_def newClientResvQueue_def)
  have w: "waiting_on NewJSM (client_uri ''x'' ''c'') = None" using h(7) by (simp add: demo_request_def)
  show ?thesis using ApplyReserve_answers [OF NewJSM_ok h] NewJSM_ok w by (intro conjI)
qed

text \<open>
  C30: \<^verbatim>\<open>ApplyCheckState\<close> answers in the client ids of the request, although the job state machine
  knows the clients under their URIs: the ids of the request are sorted into waiting, known
  but not waiting, and missing, each in the order of the request. It does not change the state.
\<close>

theorem ApplyCheckState_sorts:
  assumes "jsm_ok s {}" and "cc_ProxyId req \<noteq> []" and "[] \<notin> set (cc_ClientIds req)"
  shows "ApplyCheckState s req = Some (s, Inr \<lparr>cr_ProxyId = cc_ProxyId req,
           cr_WaitingClientIds = filter (\<lambda>c. waiting_on s (client_uri (cc_ProxyId req) c) \<noteq> None) (cc_ClientIds req),
           cr_NotWaitingClientIds = filter (\<lambda>c. known s (client_uri (cc_ProxyId req) c) \<and>
              waiting_on s (client_uri (cc_ProxyId req) c) = None) (cc_ClientIds req),
           cr_MissingClientIds = filter (\<lambda>c. \<not> known s (client_uri (cc_ProxyId req) c)) (cc_ClientIds req)\<rparr>)"
  by (rule ApplyCheckState_eq [OF assms])

theorem ApplyCheckState_sorts_witness:
  "jsm_ok demo_node {} \<and>
   ApplyCheckState demo_node \<lparr>cc_ProxyId = ''x'', cc_ClientIds = [''d'', ''c'']\<rparr> = Some (demo_node, Inr \<lparr>cr_ProxyId = ''x'',
           cr_WaitingClientIds = filter (\<lambda>c. waiting_on demo_node (client_uri ''x'' c) \<noteq> None) [''d'', ''c''],
           cr_NotWaitingClientIds = filter (\<lambda>c. known demo_node (client_uri ''x'' c) \<and>
              waiting_on demo_node (client_uri ''x'' c) = None) [''d'', ''c''],
           cr_MissingClientIds = filter (\<lambda>c. \<not> known demo_node (client_uri ''x'' c)) [''d'', ''c'']\<rparr>)"
proof -
  have h: "jsm_ok demo_node {}" using demo_node_facts(1) by (simp add: replica_ok_def)
  then show ?thesis
    using ApplyCheckState_sorts [OF h, of "\<lparr>cc_ProxyId = ''x'', cc_ClientIds = [''d'', ''c'']\<rparr>"]
    by (simp del: filter.simps)
qed

text \<open>
  C31: a request whose client id or proxy id is empty is refused by every operation that comes
  from a client, and nothing changes.
\<close>

theorem invalid_client_refused:
  fixes br :: BuryRequest and dr :: DeleteRequest and rr :: ReleaseRequest and rs :: ReserveRequest and tr :: TouchRequest
  shows "(cp_ClientId br = [] \<or> cp_ProxyId br = [] \<longrightarrow> ApplyBury s now br = Some (s, Inl ErrValidationFailed)) \<and>
    (cp_ClientId dr = [] \<or> cp_ProxyId dr = [] \<longrightarrow> ApplyDelete s dr = Some (s, Inl ErrValidationFailed)) \<and>
    (cp_ClientId rr = [] \<or> cp_ProxyId rr = [] \<longrightarrow> ApplyRelease s now rr = Some (s, Inl ErrValidationFailed)) \<and>
    (cp_ClientId rs = [] \<or> cp_ProxyId rs = [] \<longrightarrow> ApplyReserve s now rs = Some (s, Inl ErrValidationFailed)) \<and>
    (cp_ClientId tr = [] \<or> cp_ProxyId tr = [] \<longrightarrow> ApplyTouch s now tr = Some (s, Inl ErrValidationFailed))"
  by (simp add: ApplyBury_def ApplyDelete_def ApplyRelease_def ApplyReserve_def ApplyTouch_def with_client_invalid)

theorem invalid_client_refused_witness:
  "ApplyDelete NewJSM \<lparr>cp_ClientId = [], cp_ProxyId = ''x'', dr_JobId = 1\<rparr> = Some (NewJSM, Inl ErrValidationFailed) \<and>
   ApplyTouch NewJSM 5 \<lparr>cp_ClientId = ''c'', cp_ProxyId = [], tr_JobId = 1\<rparr> = Some (NewJSM, Inl ErrValidationFailed)"
  using invalid_client_refused [where s = NewJSM and now = 5 and dr = "\<lparr>cp_ClientId = [], cp_ProxyId = ''x'', dr_JobId = 1\<rparr>"
      and tr = "\<lparr>cp_ClientId = ''c'', cp_ProxyId = [], tr_JobId = 1\<rparr>"] by simp

end
