(* ===== verification/Raft_Store.thy ===== *)
theory Raft_Store
  imports FSM_Correct
begin

text \<open>
  \<^verbatim>\<open>store/store.go\<close>, the \<^verbatim>\<open>Store\<close>: membership of the cluster, leadership, and \<^verbatim>\<open>ApplyOp\<close>, which sends
  an operation through the Raft log. The Raft library is third-party code: \<open>raft_lib\<close> holds the
  calls that the code makes, on a state of the library that the model does not look into. The
  result of a future is the result of the call.
\<close>

record raft_server =
  sv_ID :: string
  sv_Address :: string

record 'r raft_lib =
  rl_IsLeader :: "'r \<Rightarrow> bool"
  rl_GetConfiguration :: "'r \<Rightarrow> raft_error + raft_server list"
  rl_RemoveServer :: "'r \<Rightarrow> string \<Rightarrow> 'r \<times> raft_error option"
  rl_AddVoter :: "'r \<Rightarrow> string \<Rightarrow> string \<Rightarrow> 'r \<times> raft_error option"
  rl_BootstrapCluster :: "'r \<Rightarrow> raft_server list \<Rightarrow> 'r \<times> raft_error option"
  rl_LeadershipTransfer :: "'r \<Rightarrow> 'r \<times> raft_error option"
  rl_Snapshot :: "'r \<Rightarrow> 'r \<times> raft_error option"
  rl_Shutdown :: "'r \<Rightarrow> 'r \<times> raft_error option"
  rl_Apply :: "'r \<Rightarrow> bytes \<Rightarrow> 'r \<times> (raft_error + bytes option)"

section \<open>Membership\<close>

definition Close :: "'r raft_lib \<Rightarrow> 'r \<Rightarrow> 'r \<times> raft_error option" where
  "Close lib r = rl_Shutdown lib r"

text \<open>\<open>nc\<close> is the map of the argument in the order in which the loop visits it.\<close>

definition BootstrapCluster :: "'r raft_lib \<Rightarrow> 'r \<Rightarrow> (string \<times> string) list \<Rightarrow> 'r \<times> raft_error option" where
  "BootstrapCluster lib r nc =
     rl_BootstrapCluster lib r (map (\<lambda>(i, addr). \<lparr>sv_ID = i, sv_Address = addr\<rparr>) nc)"

definition GetRaftConfiguration :: "'r raft_lib \<Rightarrow> 'r \<Rightarrow> store_error + raft_server list" where
  "GetRaftConfiguration lib r =
     (case rl_GetConfiguration lib r of
        Inl err \<Rightarrow> Inl (WrappedErr ErrRaftConfig)
      | Inr cfg \<Rightarrow> Inr cfg)"

definition member_error :: "raft_error \<Rightarrow> store_error" where
  "member_error err =
     (if err = RaftErrNotLeader then WrappedErr ErrNotRaftLeader else WrappedErr (RaftErr err))"

text \<open>
  The loop of \<^verbatim>\<open>Join\<close> over the servers of the configuration; \<open>Some\<close> is an early return, of an
  error or of nil.
\<close>

fun Join_loop ::
    "'r raft_lib \<Rightarrow> 'r \<Rightarrow> string \<Rightarrow> string \<Rightarrow> raft_server list \<Rightarrow> 'r \<times> store_error option option" where
  "Join_loop lib r nodeID addr [] = (r, None)"
| "Join_loop lib r nodeID addr (srv # servers) =
     (if sv_ID srv = nodeID \<or> sv_Address srv = addr
      then if sv_Address srv = addr \<and> sv_ID srv = nodeID then (r, Some None)
           else (case rl_RemoveServer lib r (sv_ID srv) of
                   (r, Some err) \<Rightarrow> (r, Some (Some (member_error err)))
                 | (r, None) \<Rightarrow> Join_loop lib r nodeID addr servers)
      else Join_loop lib r nodeID addr servers)"

definition Join :: "'r raft_lib \<Rightarrow> 'r \<Rightarrow> string \<Rightarrow> string \<Rightarrow> 'r \<times> store_error option" where
  "Join lib r nodeID addr =
     (case GetRaftConfiguration lib r of
        Inl err \<Rightarrow> (r, Some err)
      | Inr servers \<Rightarrow>
          (case Join_loop lib r nodeID addr servers of
             (r, Some res) \<Rightarrow> (r, res)
           | (r, None) \<Rightarrow>
               (case rl_AddVoter lib r nodeID addr of
                  (r, Some err) \<Rightarrow> (r, Some (member_error err))
                | (r, None) \<Rightarrow> (r, None))))"

definition IsLeader :: "'r raft_lib \<Rightarrow> 'r \<Rightarrow> bool" where
  "IsLeader lib r = rl_IsLeader lib r"

definition Store_Ready :: "'r raft_lib \<Rightarrow> 'r \<Rightarrow> bool" where
  "Store_Ready lib r = IsLeader lib r"

definition TransferLeadership :: "'r raft_lib \<Rightarrow> 'r \<Rightarrow> 'r \<times> raft_error option" where
  "TransferLeadership lib r = (if \<not> IsLeader lib r then (r, None) else rl_LeadershipTransfer lib r)"



definition Store_Snapshot :: "'r raft_lib \<Rightarrow> 'r \<Rightarrow> 'r \<times> raft_error option" where
  "Store_Snapshot lib r = rl_Snapshot lib r"

section \<open>Sending an operation through the log\<close>



section \<open>The laws of the library\<close>

text \<open>
  \<open>raft_laws lib cfg\<close>: \<open>cfg r\<close> is the configuration of the cluster. It is what the library
  returns, removing a server takes it out, adding a voter adds it or changes its address, and
  a call that fails leaves the configuration alone.
\<close>

definition raft_laws :: "'r raft_lib \<Rightarrow> ('r \<Rightarrow> raft_server list) \<Rightarrow> bool" where
  "raft_laws lib cfg \<longleftrightarrow>
     (\<forall>r c. rl_GetConfiguration lib r = Inr c \<longrightarrow> c = cfg r) \<and>
     (\<forall>r i r' e. rl_RemoveServer lib r i = (r', e) \<longrightarrow>
        cfg r' = (if e = None then filter (\<lambda>x. sv_ID x \<noteq> i) (cfg r) else cfg r)) \<and>
     (\<forall>r i a r' e. rl_AddVoter lib r i a = (r', e) \<longrightarrow>
        cfg r' = (if e \<noteq> None then cfg r
          else if i \<in> sv_ID ` set (cfg r) then map (\<lambda>x. if sv_ID x = i then x\<lparr>sv_Address := a\<rparr> else x) (cfg r)
          else cfg r @ [\<lparr>sv_ID = i, sv_Address = a\<rparr>]))"

definition cluster_ok :: "raft_server list \<Rightarrow> bool" where
  "cluster_ok c \<longleftrightarrow> distinct (map sv_ID c) \<and> distinct (map sv_Address c)"

lemma cluster_ok_filter: "cluster_ok c \<Longrightarrow> cluster_ok (filter P c)"
  by (simp add: cluster_ok_def distinct_map_filter)

lemma cluster_ok_append:
  "cluster_ok c \<Longrightarrow> sv_ID x \<notin> sv_ID ` set c \<Longrightarrow> sv_Address x \<notin> sv_Address ` set c \<Longrightarrow> cluster_ok (c @ [x])"
  by (auto simp: cluster_ok_def)

lemma same_ID: "cluster_ok c \<Longrightarrow> x \<in> set c \<Longrightarrow> y \<in> set c \<Longrightarrow> sv_ID x = sv_ID y \<Longrightarrow> x = y"
  by (auto simp: cluster_ok_def distinct_map dest: inj_onD)

lemma same_Address: "cluster_ok c \<Longrightarrow> x \<in> set c \<Longrightarrow> y \<in> set c \<Longrightarrow> sv_Address x = sv_Address y \<Longrightarrow> x = y"
  by (auto simp: cluster_ok_def distinct_map dest: inj_onD)

text \<open>The servers that stand in the way of \<open>n\<close> at \<open>a\<close>.\<close>

abbreviation in_the_way :: "string \<Rightarrow> string \<Rightarrow> raft_server \<Rightarrow> bool" where
  "in_the_way n a x \<equiv> sv_ID x = n \<or> sv_Address x = a"

lemma Join_loop_removes:
  assumes laws: "raft_laws lib cfg" and ok: "cluster_ok (cfg r)"
    and sub: "set srvs \<subseteq> set (cfg r)" "distinct srvs" "\<And>x. x \<in> set (cfg r) \<Longrightarrow> in_the_way n a x \<Longrightarrow> x \<in> set srvs"
    and new: "\<lparr>sv_ID = n, sv_Address = a\<rparr> \<notin> set (cfg r)"
    and loop: "Join_loop lib r n a srvs = (r', res)"
  shows "(res = None \<and> cfg r' = filter (\<lambda>x. \<not> in_the_way n a x) (cfg r)) \<or> (\<exists>e. res = Some (Some e))"
  using ok sub new loop
proof (induction srvs arbitrary: r)
  case Nil
  then have "filter (\<lambda>x. \<not> in_the_way n a x) (cfg r) = cfg r" by (intro filter_True) auto
  then show ?case using Nil by simp
next
  case (Cons srv srvs)
  have ne: "\<not> (sv_Address srv = a \<and> sv_ID srv = n)"
  proof
    assume "sv_Address srv = a \<and> sv_ID srv = n"
    then have "srv = \<lparr>sv_ID = n, sv_Address = a\<rparr>" by simp
    then show False using Cons.prems(2,5) by simp
  qed
  show ?case
  proof (cases "in_the_way n a srv")
    case False
    then show ?thesis using Cons.IH [of r] Cons.prems by auto
  next
    case True
    obtain r1 e where rm: "rl_RemoveServer lib r (sv_ID srv) = (r1, e)" by fastforce
    show ?thesis
    proof (cases e)
      case (Some err)
      then show ?thesis using Cons.prems(6) True ne rm by auto
    next
      case None
      have c1: "cfg r1 = filter (\<lambda>x. sv_ID x \<noteq> sv_ID srv) (cfg r)"
        using laws rm None unfolding raft_laws_def by metis
      have s1: "set (cfg r1) = set (cfg r) - {srv}"
        using c1 same_ID [OF Cons.prems(1), of _ srv] Cons.prems(2) by auto
      have "(res = None \<and> cfg r' = filter (\<lambda>x. \<not> in_the_way n a x) (cfg r1)) \<or> (\<exists>e. res = Some (Some e))"
      proof (rule Cons.IH)
        show "cluster_ok (cfg r1)" using cluster_ok_filter Cons.prems(1) by (simp add: c1)
        show "set srvs \<subseteq> set (cfg r1)" "distinct srvs" using Cons.prems(2,3) s1 by auto
        show "x \<in> set srvs" if "x \<in> set (cfg r1)" "in_the_way n a x" for x
          using Cons.prems(4) [of x] that s1 by auto
        show "\<lparr>sv_ID = n, sv_Address = a\<rparr> \<notin> set (cfg r1)" using Cons.prems(5) s1 by auto
        show "Join_loop lib r1 n a srvs = (r', res)" using Cons.prems(6) True ne rm None by simp
      qed
      moreover have "filter (\<lambda>x. \<not> in_the_way n a x) (cfg r1) = filter (\<lambda>x. \<not> in_the_way n a x) (cfg r)"
        unfolding c1 filter_filter using True same_ID [OF Cons.prems(1), of _ srv] Cons.prems(2)
        by (intro filter_cong) auto
      ultimately show ?thesis by simp
    qed
  qed
qed

lemma Join_loop_member:
  assumes ok: "cluster_ok c" and m: "\<lparr>sv_ID = n, sv_Address = a\<rparr> \<in> set c"
    and s: "set srvs \<subseteq> set c" "\<lparr>sv_ID = n, sv_Address = a\<rparr> \<in> set srvs"
  shows "Join_loop lib r n a srvs = (r, Some None)"
  using s
proof (induction srvs)
  case (Cons srv srvs)
  show ?case
  proof (cases "in_the_way n a srv")
    case True
    then have "srv = \<lparr>sv_ID = n, sv_Address = a\<rparr>"
      using same_ID [OF ok _ m, of srv] same_Address [OF ok _ m, of srv] Cons.prems(1) by auto
    then show ?thesis by simp
  next
    case False
    then have "srv \<noteq> \<lparr>sv_ID = n, sv_Address = a\<rparr>" by auto
    then show ?thesis using Cons False by auto
  qed
qed simp

lemma Join_ok:
  assumes laws: "raft_laws lib cfg" and ok: "cluster_ok (cfg r)" and j: "Join lib r n a = (r', None)"
  shows "cluster_ok (cfg r') \<and>
    set (cfg r') = insert \<lparr>sv_ID = n, sv_Address = a\<rparr> {x \<in> set (cfg r). \<not> in_the_way n a x}"
proof -
  let ?x = "\<lparr>sv_ID = n, sv_Address = a\<rparr>"
  have g: "rl_GetConfiguration lib r = Inr (cfg r)"
    using laws j by (auto simp: raft_laws_def Join_def GetRaftConfiguration_def split: sum.splits)
  show ?thesis
  proof (cases "?x \<in> set (cfg r)")
    case True
    then have "r' = r" using j Join_loop_member [OF ok True order_refl, of lib r]
      by (simp add: Join_def GetRaftConfiguration_def g)
    moreover have "x = ?x" if "x \<in> set (cfg r)" "in_the_way n a x" for x
      using same_ID [OF ok that(1) True] same_Address [OF ok that(1) True] that(2) by auto
    then have "set (cfg r) = insert ?x {x \<in> set (cfg r). \<not> in_the_way n a x}" using True by blast
    ultimately show ?thesis using ok by simp
  next
    case False
    obtain r1 res where l: "Join_loop lib r n a (cfg r) = (r1, res)" by fastforce
    have d: "distinct (cfg r)" using ok by (simp add: cluster_ok_def distinct_map)
    have res: "res = None" and c1: "cfg r1 = filter (\<lambda>x. \<not> in_the_way n a x) (cfg r)"
      using Join_loop_removes [OF laws ok order_refl d _ False l] j l
      by (auto simp: Join_def GetRaftConfiguration_def g)
    have v: "rl_AddVoter lib r1 n a = (r', None)"
      using j l res by (auto simp: Join_def GetRaftConfiguration_def g split: prod.splits option.splits)
    have "n \<notin> sv_ID ` set (cfg r1)" "a \<notin> sv_Address ` set (cfg r1)" by (auto simp: c1)
    then have "cfg r' = cfg r1 @ [?x]" using laws v unfolding raft_laws_def by metis
    moreover have "cluster_ok (cfg r1 @ [?x])"
      using cluster_ok_filter [OF ok] c1 by (intro cluster_ok_append) auto
    ultimately show ?thesis unfolding c1 by simp
  qed
qed


section \<open>A concrete library\<close>

text \<open>A library whose state is the configuration and the state machine of the only node.\<close>

definition demo_lib :: "protobuf \<Rightarrow> marshal \<Rightarrow> (raft_server list \<times> localJSM) raft_lib" where
  "demo_lib pb y = \<lparr>
     rl_IsLeader = (\<lambda>_. True),
     rl_GetConfiguration = (\<lambda>r. Inr (fst r)),
     rl_RemoveServer = (\<lambda>(c, s) i. ((filter (\<lambda>x. sv_ID x \<noteq> i) c, s), None)),
     rl_AddVoter = (\<lambda>(c, s) i a.
       ((if i \<in> sv_ID ` set c then map (\<lambda>x. if sv_ID x = i then x\<lparr>sv_Address := a\<rparr> else x) c
         else c @ [\<lparr>sv_ID = i, sv_Address = a\<rparr>], s), None)),
     rl_BootstrapCluster = (\<lambda>(_, s) c. ((c, s), None)),
     rl_LeadershipTransfer = (\<lambda>r. (r, None)), rl_Snapshot = (\<lambda>r. (r, None)), rl_Shutdown = (\<lambda>r. (r, None)),
     rl_Apply = (\<lambda>(c, s) b.
       case Apply pb y s b (mkeys (tubes s)) (mkeys (tubes s)) of
         None \<Rightarrow> ((c, s), Inl (RaftErrOther ''shutdown''))
       | Some (s', out) \<Rightarrow> ((c, s'), Inr (Some out)))\<rparr>"

lemma demo_lib_laws: "raft_laws (demo_lib pb y) fst"
  by (auto simp: raft_laws_def demo_lib_def split: prod.splits)

definition demo_cluster :: "raft_server list \<times> localJSM" where
  "demo_cluster = ([\<lparr>sv_ID = ''n1'', sv_Address = ''a1''\<rparr>, \<lparr>sv_ID = ''n2'', sv_Address = ''a2''\<rparr>], NewJSM)"



section \<open>Properties\<close>

text \<open>
  C14: a \<^verbatim>\<open>Join\<close> that succeeds leaves the cluster with the joining node at its address, without any
  other node that had its id or its address, and with all other nodes as before; ids and
  addresses stay distinct. Joining again changes nothing.
\<close>

theorem Join_joins:
  assumes "raft_laws lib cfg" and "cluster_ok (cfg r)" and "Join lib r n a = (r', None)"
  shows "cluster_ok (cfg r') \<and>
    set (cfg r') = insert \<lparr>sv_ID = n, sv_Address = a\<rparr> {x \<in> set (cfg r). sv_ID x \<noteq> n \<and> sv_Address x \<noteq> a} \<and>
    (\<forall>r2. Join lib r' n a = (r2, None) \<longrightarrow> r2 = r')"
proof -
  have c: "cluster_ok (cfg r')" "set (cfg r') = insert \<lparr>sv_ID = n, sv_Address = a\<rparr> {x \<in> set (cfg r). sv_ID x \<noteq> n \<and> sv_Address x \<noteq> a}"
    using Join_ok [OF assms] by auto
  have "r2 = r'" if j: "Join lib r' n a = (r2, None)" for r2
  proof -
    have "rl_GetConfiguration lib r' = Inr (cfg r')"
      using assms(1) j by (auto simp: raft_laws_def Join_def GetRaftConfiguration_def split: sum.splits)
    then show ?thesis
      using j Join_loop_member [OF c(1) _ order_refl, of n a lib r'] c(2)
      by (simp add: Join_def GetRaftConfiguration_def)
  qed
  with c show ?thesis by blast
qed

theorem Join_joins_witness:
  "\<exists>r'. raft_laws (demo_lib demo_pb demo_yaml) fst \<and> cluster_ok (fst demo_cluster) \<and>
     Join (demo_lib demo_pb demo_yaml) demo_cluster ''n2'' ''a1'' = (r', None) \<and> cluster_ok (fst r') \<and>
     set (fst r') = insert \<lparr>sv_ID = ''n2'', sv_Address = ''a1''\<rparr>
       {x \<in> set (fst demo_cluster). sv_ID x \<noteq> ''n2'' \<and> sv_Address x \<noteq> ''a1''} \<and>
     (\<forall>r2. Join (demo_lib demo_pb demo_yaml) r' ''n2'' ''a1'' = (r2, None) \<longrightarrow> r2 = r')"
proof -
  have ok: "cluster_ok (fst demo_cluster)" by (simp add: cluster_ok_def demo_cluster_def)
  obtain r' where j: "Join (demo_lib demo_pb demo_yaml) demo_cluster ''n2'' ''a1'' = (r', None)"
    by (simp add: Join_def GetRaftConfiguration_def demo_lib_def demo_cluster_def)
  show ?thesis
    using Join_joins [OF demo_lib_laws ok j] demo_lib_laws [of demo_pb demo_yaml] ok j by blast
qed








end
