(* ===== verification/Snapshot.thy ===== *)
theory Snapshot
  imports FSM
begin

text \<open>
  Snapshots: \<^verbatim>\<open>localSnapshot\<close> of \<^verbatim>\<open>state/jsm.go\<close> and \<^verbatim>\<open>snapshot\<close> of \<^verbatim>\<open>store/snapshot.go\<close>. A snapshot
  turns jobs and client entries into messages; restoring builds new indices next to those of
  the job state machine and then puts them in their place. The jobs and the client entries
  travel over unbuffered channels from a producer to a consumer, which gives up early when its
  context is done or an error occurs; the producer then waits forever for the next entry to be
  taken. Such a run is the value \<open>None\<close>, as a panic is.
\<close>

section \<open>Messages\<close>

record ClientResvEntryProto =
  cp_ClientID :: string
  cp_ResvDeadlineAt :: int64
  cp_IsWaitingForResv :: bool
  cp_TickAt :: int64
  cp_ReqId :: string
  cp_HeapIndex :: int
  cp_WatchedTube :: "string list"

record SnapshotProto =
  sp_Jobs :: "JobProto list"
  sp_Reservations :: "ClientResvEntryProto list"

definition newSnapshot :: SnapshotProto where
  "newSnapshot = \<lparr>sp_Jobs = [], sp_Reservations = []\<rparr>"

definition appendClientRsvEntry :: "SnapshotProto \<Rightarrow> ClientResvEntry \<Rightarrow> SnapshotProto" where
  "appendClientRsvEntry snap cli =
     snap\<lparr>sp_Reservations := sp_Reservations snap @
       [\<lparr>cp_ClientID = CliID cli, cp_ResvDeadlineAt = ResvDeadlineAt cli,
         cp_IsWaitingForResv = IsWaitingForResv cli, cp_TickAt = TickAt cli, cp_ReqId = ReqID cli,
         cp_HeapIndex = wrap32 (HeapIndex cli), cp_WatchedTube = WatchedTubes cli\<rparr>]\<rparr>"

definition appendJob :: "SnapshotProto \<Rightarrow> Job \<Rightarrow> SnapshotProto" where
  "appendJob snap j = snap\<lparr>sp_Jobs := sp_Jobs snap @ [JobToJobProto j]\<rparr>"

section \<open>Taking a snapshot\<close>

text \<open>What is sent on the channels, in the order of the map of jobs and of the queue of clients.\<close>

definition SnapshotJobs :: "localJSM \<Rightarrow> JobID list \<Rightarrow> ref list" where
  "SnapshotJobs s ord = JobIndex_Jobs (jobs s) ord"

definition SnapshotClients :: "localJSM \<Rightarrow> ref list" where
  "SnapshotClients s = clientResvQueue_Entries (jsm_mem s) (clients s)"

definition createFrom :: "SnapshotProto \<Rightarrow> localJSM \<Rightarrow> JobID list \<Rightarrow> SnapshotProto" where
  "createFrom snap s ord =
     (let snap = foldl (\<lambda>snap c. appendClientRsvEntry snap (cli_at s c)) snap (SnapshotClients s)
      in foldl (\<lambda>snap j. appendJob snap (job_at s j)) snap (SnapshotJobs s ord))"

definition NewSnapshotFrom :: "localJSM \<Rightarrow> JobID list \<Rightarrow> SnapshotProto" where
  "NewSnapshotFrom s ord = createFrom newSnapshot s ord"

section \<open>Restoring\<close>

text \<open>
  The struct \<^verbatim>\<open>localSnapshot\<close> has the job index, the tubes, the reserved jobs, the queue of
  clients and the greatest job id of the job state machine that it builds: \<open>sn_new\<close> holds them
  in a \<open>localJSM\<close>, whose memory is the shared memory and whose other fields are not used. The
  heap of clients is a slice with a place for every client, nil at first.
\<close>

record localSnapshot =
  sn_new :: localJSM
  sn_clientHeap :: "ref option list"

definition newLocalSnapshot :: "localJSM \<Rightarrow> localSnapshot" where
  "newLocalSnapshot jsm =
     \<lparr>sn_new = NewJSM\<lparr>jsm_mem := jsm_mem jsm\<rparr>, sn_clientHeap = []\<rparr>"

definition restoreJob :: "localJSM \<Rightarrow> ref \<Rightarrow> unit jsm_result" where
  "restoreJob l j =
     and_then (add_job l j) (\<lambda>l ie.
       let i = ID (job_at l j);
           l = (if i > maxJobID l then l\<lparr>maxJobID := i\<rparr> else l)
       in case State (job_at l j) of
            Reserved \<Rightarrow> enqueue_reserved l (ReservedBy (job_at l j)) i ie
          | Ready \<Rightarrow> enqueue_ready l i ie
          | Delayed \<Rightarrow> enqueue_delayed l i ie
          | Buried \<Rightarrow> enqueue_buried l i ie
          | _ \<Rightarrow> Some (l, Inr ()))"

text \<open>
  The consumer of the jobs and its producer: \<open>cancelled k\<close> tells whether the context is done
  when job \<open>k\<close> arrives. An error is returned if the job that caused it was the last one;
  otherwise the producer hangs.
\<close>

fun RestoreJobs :: "(nat \<Rightarrow> bool) \<Rightarrow> nat \<Rightarrow> localJSM \<Rightarrow> JobProto list \<Rightarrow> unit jsm_result" where
  "RestoreJobs cancelled k l [] = Some (l, Inr ())"
| "RestoreJobs cancelled k l (jp # jps) =
     (let (m, j) = new_job (jsm_mem l) (WrapJob jp);
          l = l\<lparr>jsm_mem := m\<rparr>
      in if cancelled k then if jps = [] then Some (l, Inl ErrCancel) else None
         else (case restoreJob l j of
                 None \<Rightarrow> None
               | Some (l, Inl err) \<Rightarrow> if jps = [] then Some (l, Inl err) else None
               | Some (l, Inr _) \<Rightarrow> RestoreJobs cancelled (Suc k) l jps))"

text \<open>
  \<^verbatim>\<open>restoreClient\<close>; every error of it is a panic in \<^verbatim>\<open>RestoreClients\<close>, as is an index outside
  the slice.
\<close>

definition restoreClient :: "localSnapshot \<Rightarrow> ref \<Rightarrow> localSnapshot option" where
  "restoreClient l cli =
     (let s = sn_new l; c = cli_at s cli
      in if HeapIndex c < 0 then None
         else (case clientResvQueue_Enqueue (jsm_mem s) (clients s) cli of
                 (_, Some err) \<Rightarrow> None
               | (q, None) \<Rightarrow>
                   (case (if IsWaitingForResv c then wait_on (jsm_mem s) (tubes s) cli (WatchedTubes c) else Some (tubes s)) of
                      None \<Rightarrow> None
                    | Some ti \<Rightarrow>
                        if HeapIndex c < int (length (sn_clientHeap l))
                        then Some (l\<lparr>sn_new := s\<lparr>clients := q, tubes := ti\<rparr>,
                                   sn_clientHeap := (sn_clientHeap l)[nat (HeapIndex c) := Some cli]\<rparr>)
                        else None)))"

definition newClientResvHeapWithSize :: "nat \<Rightarrow> ref option list" where
  "newClientResvHeapWithSize n = replicate n None"

text \<open>The entry that \<^verbatim>\<open>restoreCliRevEntries\<close> makes of a message; it does not take over the tubes.\<close>

definition entry_of_proto :: "ClientResvEntryProto \<Rightarrow> ClientResvEntry" where
  "entry_of_proto r =
     \<lparr>CliID = cp_ClientID r, WatchedTubes = [], ResvDeadlineAt = cp_ResvDeadlineAt r,
      IsWaitingForResv = cp_IsWaitingForResv r, TickAt = cp_TickAt r, ReqID = cp_ReqId r,
      HeapIndex = cp_HeapIndex r\<rparr>"

text \<open>The consumer of the client entries; \<open>Inl\<close> is the error for a context that is done.\<close>

fun RestoreClients_loop ::
    "(nat \<Rightarrow> bool) \<Rightarrow> nat \<Rightarrow> localSnapshot \<Rightarrow> ClientResvEntryProto list \<Rightarrow> (localSnapshot, error, unit) outcome" where
  "RestoreClients_loop cancelled k l [] = Some (l, Inr ())"
| "RestoreClients_loop cancelled k l (r # rs) =
     (let (m, cli) = new_client (jsm_mem (sn_new l)) (entry_of_proto r);
          l = l\<lparr>sn_new := (sn_new l)\<lparr>jsm_mem := m\<rparr>\<rparr>
      in if cancelled k then if rs = [] then Some (l, Inl ErrCancel) else None
         else (case restoreClient l cli of
                 None \<Rightarrow> None
               | Some l \<Rightarrow> RestoreClients_loop cancelled (Suc k) l rs))"

text \<open>
  \<^verbatim>\<open>initializeHeap\<close> compares every entry of a heap of two or more, so that a place that is
  still nil is a panic; a heap of one place cannot have a nil place here.
\<close>

definition RestoreClients ::
    "(nat \<Rightarrow> bool) \<Rightarrow> localSnapshot \<Rightarrow> ClientResvEntryProto list \<Rightarrow> (localSnapshot, error, unit) outcome" where
  "RestoreClients cancelled l rs =
     and_then (RestoreClients_loop cancelled 0 (l\<lparr>sn_clientHeap := newClientResvHeapWithSize (length rs)\<rparr>) rs)
       (\<lambda>l _. if None \<in> set (sn_clientHeap l) then None
              else (let (m, h) = initializeHeap (jsm_mem (sn_new l), map the (sn_clientHeap l))
                    in Some (l\<lparr>sn_new := (sn_new l)\<lparr>jsm_mem := m\<rparr>, sn_clientHeap := map Some h\<rparr>, Inr ())))"

definition FinalizeRestore :: "localJSM \<Rightarrow> localSnapshot \<Rightarrow> localJSM" where
  "FinalizeRestore jsm l =
     jsm\<lparr>jsm_mem := jsm_mem (sn_new l), maxJobID := maxJobID (sn_new l), jobs := jobs (sn_new l),
         tubes := tubes (sn_new l), reservedJobs := reservedJobs (sn_new l),
         clientHeap := map the (sn_clientHeap l), clients := clients (sn_new l)\<rparr>"

text \<open>
  The two steps of a restore: the entries and the jobs of the snapshot are sent to the job
  state machine; \<open>cancelled\<close> is about the context of this step.
\<close>

definition restoreCliRevEntries ::
    "(nat \<Rightarrow> bool) \<Rightarrow> SnapshotProto \<Rightarrow> localSnapshot \<Rightarrow> (localSnapshot, error, unit) outcome" where
  "restoreCliRevEntries cancelled snap jsmSnap = RestoreClients cancelled jsmSnap (sp_Reservations snap)"

definition restoreJobs ::
    "(nat \<Rightarrow> bool) \<Rightarrow> SnapshotProto \<Rightarrow> localSnapshot \<Rightarrow> (localSnapshot, error, unit) outcome" where
  "restoreJobs cancelled snap jsmSnap =
     map_option (map_prod (\<lambda>s. jsmSnap\<lparr>sn_new := s\<rparr>) id) (RestoreJobs cancelled 0 (sn_new jsmSnap) (sp_Jobs snap))"

text \<open>The job state machine keeps what it has when a step fails; only the memory has grown.\<close>

definition restoreTo ::
    "(nat \<Rightarrow> bool) \<Rightarrow> (nat \<Rightarrow> bool) \<Rightarrow> SnapshotProto \<Rightarrow> localJSM \<Rightarrow> unit jsm_result" where
  "restoreTo cancelled cancelled' snap jsm =
     (case and_then (restoreCliRevEntries cancelled snap (newLocalSnapshot jsm)) (\<lambda>l _. restoreJobs cancelled' snap l) of
        None \<Rightarrow> None
      | Some (l, Inl err) \<Rightarrow> Some (jsm\<lparr>jsm_mem := jsm_mem (sn_new l)\<rparr>, Inl err)
      | Some (l, Inr _) \<Rightarrow> Some (FinalizeRestore jsm l, Inr ()))"

text \<open>
  The encoded snapshot goes through a sink of the Raft library, on a state that the model does
  not look into; \<open>enc\<close> and \<open>dec\<close> are the codec, whose errors are not told apart.
\<close>

record 'k SnapshotSink =
  sk_Write :: "'k \<Rightarrow> bytes \<Rightarrow> 'k \<times> string option"
  sk_Close :: "'k \<Rightarrow> 'k \<times> string option"
  sk_Cancel :: "'k \<Rightarrow> 'k \<times> string option"

definition Persist ::
    "(SnapshotProto \<Rightarrow> string + bytes) \<Rightarrow> 'k SnapshotSink \<Rightarrow> 'k \<Rightarrow> SnapshotProto \<Rightarrow> 'k \<times> string option" where
  "Persist enc sink k snap =
     (let (k, err) =
        (case enc snap of
           Inl err \<Rightarrow> (k, Some err)
         | Inr b \<Rightarrow>
             (case sk_Write sink k b of
                (k, Some err) \<Rightarrow> (k, Some err)
              | (k, None) \<Rightarrow> sk_Close sink k))
      in if err \<noteq> None then (fst (sk_Cancel sink k), err) else (k, err))"

definition RestoreSnapshotTo ::
    "(bytes \<Rightarrow> SnapshotProto option) \<Rightarrow> (nat \<Rightarrow> bool) \<Rightarrow> (nat \<Rightarrow> bool) \<Rightarrow> bytes \<Rightarrow> localJSM \<Rightarrow>
     (localJSM, error option, unit) outcome" where
  "RestoreSnapshotTo dec cancelled cancelled' b jsm =
     (case dec b of
        None \<Rightarrow> Some (jsm, Inl None)
      | Some snap \<Rightarrow> map_option (map_prod id (map_sum Some id)) (restoreTo cancelled cancelled' snap jsm))"

end
