(* ===== verification/Snapshot_Correct.thy ===== *)
theory Snapshot_Correct
  imports Snapshot
begin

text \<open>
  What restoring a snapshot gives back: all jobs at their places, all clients of the heap, but
  not the tubes that the clients wait for, the time of the next delayed job and the counter of
  job ids.
\<close>

section \<open>Jobs\<close>

lemma jobs_inv_maxJobID [simp]: "jobs_inv (s\<lparr>maxJobID := x\<rparr>) X = jobs_inv s X"
  by (simp add: jobs_inv_def)

lemma job_views_maxJobID [simp]: "job_views (s\<lparr>maxJobID := x\<rparr>) = job_views s"
  by (simp add: job_views_def)

lemma job_views_mem_add: "job_views (s\<lparr>jsm_mem := m, maxJobID := x\<rparr>) = job_views (s\<lparr>jsm_mem := m\<rparr>)"
  by (simp add: job_views_def)

text \<open>Entering a job at the place of its state.\<close>

definition enqueue_any :: "localJSM \<Rightarrow> Job \<Rightarrow> IndexEntry \<Rightarrow> unit jsm_result" where
  "enqueue_any l j ie =
     (case State j of
        Reserved \<Rightarrow> enqueue_reserved l (ReservedBy j) (ID j) ie
      | Ready \<Rightarrow> enqueue_ready l (ID j) ie
      | Delayed \<Rightarrow> enqueue_delayed l (ID j) ie
      | Buried \<Rightarrow> enqueue_buried l (ID j) ie
      | _ \<Rightarrow> Some (l, Inr ()))"

lemma restoreJob_eq:
  "restoreJob l j = and_then (add_job l j) (\<lambda>l ie.
     enqueue_any (if ID (job_at l j) > maxJobID l then l\<lparr>maxJobID := ID (job_at l j)\<rparr> else l) (job_at l j) ie)"
  unfolding restoreJob_def Let_def by (intro arg_cong [where f = "and_then (add_job l j)"] ext)
    (simp add: enqueue_any_def split: JobState.split)

lemma enqueue_any_placed:
  assumes "jobs_inv s {ID j}" and "mget (ji_m (jobs s)) (ID j) = Some e" and "job_at s (ie_job e) = j"
    and "loc_of (view j) \<noteq> None"
  shows "\<exists>s'. enqueue_any s j e = Some (s', Inr ()) \<and> placed (ID j) e s s'"
proof -
  have st: "State j \<in> {Ready, Reserved, Buried, Delayed}"
    using assms(4) by (cases "State j") (auto simp: loc_of_def getter_view)
  show ?thesis
    using st put_ready [OF assms(1,2)] put_reserved [OF assms(1,2)] put_buried [OF assms(1,2)]
      put_delayed [OF assms(1,2)] assms(3)
    by (auto simp: enqueue_any_def)
qed

lemma restoreJob_ok:
  assumes inv: "jobs_inv s {}" and n: "new_job (jsm_mem s) j = (m, r)"
    and new: "job_views s (ID j) = None" and loc: "loc_of (view j) \<noteq> None"
  shows "\<exists>s'. restoreJob (s\<lparr>jsm_mem := m\<rparr>) r = Some (s', Inr ()) \<and> jobs_inv s' {} \<and> same_clients s s' \<and>
           job_views s' = (job_views s)(ID j \<mapsto> view j) \<and>
           maxJobID s' = max (maxJobID s) (ID j)"
proof -
  let ?s1 = "s\<lparr>jsm_mem := m, maxJobID := ID j\<rparr>"
  have c: "created (ID j) j s ?s1 r"
    unfolding created_def using n by (intro exI [of _ m] exI [of _ "nextDelayTickAt s"]) simp
  note f = created_facts [OF inv c]
  obtain s2 e where a: "add_job ?s1 r = Some (s2, Inr e)" "ie_job e = r" "jobs_inv s2 {ID j}"
      "s2 = ?s1\<lparr>jobs := jobs s2\<rparr>" "ji_m (jobs s2) = mput (ji_m (jobs s)) (ID j) e"
    using add_job_new [OF inv c new] by blast
  let ?x = "max (maxJobID s) (ID j)"
  define l where "l = s2\<lparr>maxJobID := ?x\<rparr>"
  have l: "jsm_mem l = m" "job_at l r = j" "mget (ji_m (jobs l)) (ID j) = Some e" "jobs_inv l {ID j}" "maxJobID l = ?x"
    "ji_m (jobs l) = mput (ji_m (jobs s)) (ID j) e"
    using a(3,5) f(2) by (simp_all add: l_def) (subst a(4); simp)+
  have al: "add_job (s\<lparr>jsm_mem := m\<rparr>) r = Some (s2\<lparr>maxJobID := maxJobID s\<rparr>, Inr e)"
    using a(1) by (subst a(4)) (auto simp: add_job_def split: prod.splits)
  have r: "restoreJob (s\<lparr>jsm_mem := m\<rparr>) r = enqueue_any l j e"
  proof -
    have "(if ID j > maxJobID s then (s2\<lparr>maxJobID := maxJobID s\<rparr>)\<lparr>maxJobID := ID j\<rparr> else s2\<lparr>maxJobID := maxJobID s\<rparr>) = l"
      by (simp add: l_def max_def not_le not_less)
    moreover have "job_at (s2\<lparr>maxJobID := maxJobID s\<rparr>) r = j" "maxJobID (s2\<lparr>maxJobID := maxJobID s\<rparr>) = maxJobID s"
      using l(2) by (simp_all add: l_def)
    ultimately show ?thesis unfolding restoreJob_eq al by (simp only: and_then.simps)
  qed
  obtain s' where p: "enqueue_any l j e = Some (s', Inr ())" "placed (ID j) e l s'"
    using enqueue_any_placed [OF l(4,3)] l(2) a(2) loc by auto
  obtain je where je: "ji_m (jobs s') = mput (ji_m (jobs s)) (ID j) (e\<lparr>ie_entry := Some je\<rparr>)"
    using p(2) l(6) by (auto simp: placed_def AList_update_twice)
  have m': "m_jobs (jsm_mem s') = m_jobs m" "same_rest l s'" "jobs_inv s' {}" using p(2) l(1) by (auto simp: placed_def)
  have "job_views s' = (job_views s)(ID j \<mapsto> view j)"
  proof (rule job_views_added [OF je])
    show "view (job_at s' (ie_job (e\<lparr>ie_entry := Some je\<rparr>))) = view j" using m'(1) f(2) a(2) by simp
    show "job_at s' (ie_job e') = job_at s (ie_job e')" if "mget (ji_m (jobs s)) k = Some e'" for k e'
      using f(8) [OF that] m'(1) by simp
  qed
  moreover have "clients l = clients s" "clientHeap l = clientHeap s" "tubes l = tubes s"
    unfolding l_def by (subst a(4), simp)+
  then have "same_clients s l" using f(5) l(1) by (simp add: same_clients_def)
  then have "same_clients s s'" using m'(2) same_clients_trans by (auto simp: same_rest_def)
  moreover have "maxJobID s' = ?x" using m'(2) l(5) by (simp add: same_rest_def)
  ultimately show ?thesis using r p(1) m'(3) by auto
qed

abbreviation proto_ID :: "JobProto \<Rightarrow> JobID" where
  "proto_ID jp \<equiv> ID (WrapJob jp)"

abbreviation proto_view :: "JobProto \<Rightarrow> localJob" where
  "proto_view jp \<equiv> view (WrapJob jp)"

lemma RestoreJobs_ok:
  assumes "\<And>k. \<not> cancelled k" and "jobs_inv s {}" and "distinct (map proto_ID jps)"
    and "\<And>jp. jp \<in> set jps \<Longrightarrow> job_views s (proto_ID jp) = None \<and> loc_of (proto_view jp) \<noteq> None"
  shows "\<exists>s'. RestoreJobs cancelled k s jps = Some (s', Inr ()) \<and> jobs_inv s' {} \<and> same_clients s s' \<and>
           job_views s' = job_views s ++ map_of (map (\<lambda>jp. (proto_ID jp, proto_view jp)) jps) \<and>
           maxJobID s' = foldl max (maxJobID s) (map proto_ID jps)"
  using assms(2-)
proof (induction jps arbitrary: s k)
  case Nil
  then show ?case by (auto simp: same_clients_def)
next
  case (Cons jp jps)
  obtain m r where n: "new_job (jsm_mem s) (WrapJob jp) = (m, r)" by fastforce
  obtain s1 where s1: "restoreJob (s\<lparr>jsm_mem := m\<rparr>) r = Some (s1, Inr ())" "jobs_inv s1 {}" "same_clients s s1"
      "job_views s1 = (job_views s)(proto_ID jp \<mapsto> proto_view jp)" "maxJobID s1 = max (maxJobID s) (proto_ID jp)"
    using restoreJob_ok [OF Cons.prems(1) n] Cons.prems(3) [of jp] by auto
  have nv: "job_views s1 (proto_ID x) = None \<and> loc_of (proto_view x) \<noteq> None" if "x \<in> set jps" for x
    using Cons.prems(2) Cons.prems(3) [of x] that s1(4) by (auto simp: image_iff)
  obtain s' where s': "RestoreJobs cancelled (Suc k) s1 jps = Some (s', Inr ())" "jobs_inv s' {}" "same_clients s1 s'"
      "job_views s' = job_views s1 ++ map_of (map (\<lambda>jp. (proto_ID jp, proto_view jp)) jps)"
      "maxJobID s' = foldl max (maxJobID s1) (map proto_ID jps)"
    using Cons.IH [where k = "Suc k", OF s1(2) _ nv] Cons.prems(2) by auto
  have "RestoreJobs cancelled k s (jp # jps) = Some (s', Inr ())" using n s1(1) s'(1) assms(1) by simp
  moreover have "same_clients s s'" using s1(3) s'(3) same_clients_trans by blast
  moreover have "proto_ID jp \<notin> dom (map_of (map (\<lambda>jp. (proto_ID jp, proto_view jp)) jps))"
    using Cons.prems(2) by (simp add: dom_map_of_conv_image_fst image_image)
  then have "job_views s' = job_views s ++ map_of (map (\<lambda>jp. (proto_ID jp, proto_view jp)) (jp # jps))"
    unfolding s'(4) s1(4) by (auto simp: map_add_upd_left)
  moreover have "maxJobID s' = foldl max (maxJobID s) (map proto_ID (jp # jps))" using s'(5) s1(5) by simp
  ultimately show ?case using s'(2) by blast
qed

text \<open>A snapshot keeps 32 bits of the time to run and of the size of the body.\<close>

definition snap_view :: "localJob \<Rightarrow> localJob" where
  "snap_view v = v\<lparr>ttr := wrap32 (ttr v), bodySize := wrap32 (bodySize v)\<rparr>"

lemma proto_view_eq: "proto_view (JobToJobProto j) = snap_view (view j)" "proto_ID (JobToJobProto j) = ID j"
  by (simp_all add: JobToJobProto_def wrapJob_defs snap_view_def getter_view of_JobID_def)

lemma loc_of_snap_view: "loc_of (snap_view v) = loc_of v"
  by (simp add: snap_view_def loc_of_def)

lemma foldl_append_clients:
  "foldl (\<lambda>snap c. appendClientRsvEntry snap (f c)) snap cs =
     snap\<lparr>sp_Reservations := sp_Reservations snap @ concat (map (\<lambda>c. sp_Reservations (appendClientRsvEntry newSnapshot (f c))) cs)\<rparr>"
  by (induction cs arbitrary: snap) (simp_all add: appendClientRsvEntry_def newSnapshot_def)

lemma foldl_append_jobs:
  "foldl (\<lambda>snap j. appendJob snap (f j)) snap js = snap\<lparr>sp_Jobs := sp_Jobs snap @ map (JobToJobProto \<circ> f) js\<rparr>"
  by (induction js arbitrary: snap) (simp_all add: appendJob_def)

definition proto_of_entry :: "ClientResvEntry \<Rightarrow> ClientResvEntryProto" where
  "proto_of_entry cli =
     \<lparr>cp_ClientID = CliID cli, cp_ResvDeadlineAt = ResvDeadlineAt cli,
      cp_IsWaitingForResv = IsWaitingForResv cli, cp_TickAt = TickAt cli, cp_ReqId = ReqID cli,
      cp_HeapIndex = wrap32 (HeapIndex cli), cp_WatchedTube = WatchedTubes cli\<rparr>"

lemma NewSnapshotFrom_eq:
  "NewSnapshotFrom s ord =
     \<lparr>sp_Jobs = map (JobToJobProto \<circ> job_at s) (SnapshotJobs s ord),
      sp_Reservations = map (proto_of_entry \<circ> cli_at s) (SnapshotClients s)\<rparr>"
proof -
  have c: "concat (map (\<lambda>c. sp_Reservations (appendClientRsvEntry newSnapshot (f c))) cs) = map (proto_of_entry \<circ> f) cs" for f cs
    by (induction cs) (simp_all add: appendClientRsvEntry_def newSnapshot_def proto_of_entry_def)
  show ?thesis
    unfolding NewSnapshotFrom_def createFrom_def Let_def foldl_append_clients foldl_append_jobs c
    by (simp add: newSnapshot_def)
qed

lemma SnapshotJobs_eq:
  assumes "set ord = set (mkeys (ji_m (jobs s)))"
  shows "SnapshotJobs s ord = map (\<lambda>i. ie_job (the (mget (ji_m (jobs s)) i))) ord"
proof -
  have "\<exists>e. mget (ji_m (jobs s)) i = Some e" if "i \<in> set ord" for i
    using that assms mget_mkeys [of "ji_m (jobs s)" i] by auto
  then have "List.map_filter (\<lambda>k. map_option ie_job (mget (ji_m (jobs s)) k)) xs =
      map (\<lambda>i. ie_job (the (mget (ji_m (jobs s)) i))) xs" if "set xs \<subseteq> set ord" for xs
    using that by (induction xs) (fastforce simp: List.map_filter_simps)+
  then show ?thesis by (simp add: SnapshotJobs_def JobIndex_Jobs_def)
qed

section \<open>Clients\<close>

text \<open>
  The entries \<open>es\<close> were restored: they are allocated one after the other, are in the queue in
  this order, and each is at the place of the slice that its heap index says.
\<close>

definition restored :: "nat \<Rightarrow> mem \<Rightarrow> ClientResvEntry list \<Rightarrow> localSnapshot \<Rightarrow> bool" where
  "restored N m0 es l \<longleftrightarrow>
     (\<exists>m q. sn_new l = NewJSM\<lparr>jsm_mem := m, clients := q\<rparr> \<and>
        m_next m = m_next m0 + length es \<and>
        q_wf m q \<and> q_items q = [m_next m0..<m_next m0 + length es] \<and>
        (\<forall>i < length es. m_clients m (m_next m0 + i) = es ! i) \<and> length (sn_clientHeap l) = N \<and>
        (\<forall>i < length es. sn_clientHeap l ! nat (HeapIndex (es ! i)) = Some (m_next m0 + i)))"

definition restorable :: "nat \<Rightarrow> ClientResvEntry list \<Rightarrow> bool" where
  "restorable N es \<longleftrightarrow>
     distinct (map CliID es) \<and> distinct (map HeapIndex es) \<and>
     (\<forall>e \<in> set es. WatchedTubes e = [] \<and> 0 \<le> HeapIndex e \<and> HeapIndex e < int N)"

lemma restoreClient_ok:
  assumes r: "restored N m0 es l" and ok: "restorable N (es @ [e])"
    and n: "new_client (jsm_mem (sn_new l)) e = (m', cli)"
  shows "\<exists>l'. restoreClient (l\<lparr>sn_new := (sn_new l)\<lparr>jsm_mem := m'\<rparr>\<rparr>) cli = Some l' \<and> restored N m0 (es @ [e]) l'"
proof -
  let ?n = "m_next m0" and ?k = "length es"
  obtain m q where l: "sn_new l = NewJSM\<lparr>jsm_mem := m, clients := q\<rparr>" and m: "m_next m = ?n + ?k"
      and q: "q_wf m q" "q_items q = [?n..<?n + ?k]"
      and c: "\<And>i. i < ?k \<Longrightarrow> m_clients m (?n + i) = es ! i" and h: "length (sn_clientHeap l) = N"
      and hs: "\<And>i. i < ?k \<Longrightarrow> sn_clientHeap l ! nat (HeapIndex (es ! i)) = Some (?n + i)"
    using r unfolding restored_def by blast
  have m': "cli = ?n + ?k" "m_next m' = ?n + length (es @ [e])" "m_clients m' cli = e"
      "\<And>i. i < ?k \<Longrightarrow> m_clients m' (?n + i) = es ! i"
    using n l m c by (auto simp: new_client_def)
  have e: "WatchedTubes e = []" "0 \<le> HeapIndex e" "HeapIndex e < int N" "CliID e \<notin> CliID ` set es"
      "HeapIndex e \<notin> HeapIndex ` set es"
      and es: "\<And>x. x \<in> set es \<Longrightarrow> 0 \<le> HeapIndex x"
    using ok by (auto simp: restorable_def)
  have q': "q_wf m' q" using q(1) by (rule q_wf_cong) (use q(2) m'(4) c in \<open>auto simp: le_iff_add\<close>)
  have new: "cli_id m' cli \<notin> cli_id m' ` set (q_items q)"
    using e(4) m'(3,4) q(2) by (fastforce simp: le_iff_add)
  obtain q2 err where q2: "clientResvQueue_Enqueue m' q cli = (q2, err)" by fastforce
  note q2' = cq.Enqueue_cases [OF q' q2]
  have ids: "q_wf m' q2" "q_items q2 = [?n..<?n + length (es @ [e])]" "err = None"
    using q2' new q(2) m'(1) by auto
  define l' where "l' = l\<lparr>sn_new := NewJSM\<lparr>jsm_mem := m', clients := q2\<rparr>,
      sn_clientHeap := (sn_clientHeap l)[nat (HeapIndex e) := Some cli]\<rparr>"
  have "restoreClient (l\<lparr>sn_new := (sn_new l)\<lparr>jsm_mem := m'\<rparr>\<rparr>) cli = Some l'"
    using l m'(3) e(1-3) q2 ids(3) h
    by (cases "IsWaitingForResv e") (simp_all add: restoreClient_def l'_def Let_def NewJSM_def)
  moreover have "restored N m0 (es @ [e]) l'"
    unfolding restored_def
  proof (intro exI [of _ m'] exI [of _ q2] conjI allI impI)
    fix i assume i: "i < length (es @ [e])"
    show "m_clients m' (?n + i) = (es @ [e]) ! i" using i m'(1,3,4) by (cases "i = ?k") (auto simp: nth_append)
    show "sn_clientHeap l' ! nat (HeapIndex ((es @ [e]) ! i)) = Some (?n + i)"
    proof (cases "i = ?k")
      case True
      then show ?thesis using e(2,3) h m'(1) by (simp add: l'_def)
    next
      case False
      then have i': "i < ?k" using i by simp
      have "nat (HeapIndex e) \<noteq> nat (HeapIndex (es ! i))"
        using e(2,5) es i' by (metis image_eqI nat_eq_iff nth_mem)
      then show ?thesis using i' hs by (simp add: l'_def nth_append)
    qed
  qed (use m'(2) ids h in \<open>simp_all add: l'_def\<close>)
  ultimately show ?thesis by blast
qed

lemma RestoreClients_loop_ok:
  assumes "\<And>k. \<not> cancelled k" and "restored N m0 es l" and "restorable N (es @ map entry_of_proto rs)"
  shows "\<exists>l'. RestoreClients_loop cancelled k l rs = Some (l', Inr ()) \<and>
           restored N m0 (es @ map entry_of_proto rs) l'"
  using assms(2-)
proof (induction rs arbitrary: l es k)
  case (Cons r rs)
  obtain m' cli where n: "new_client (jsm_mem (sn_new l)) (entry_of_proto r) = (m', cli)" by fastforce
  have "restorable N (es @ [entry_of_proto r])" using Cons.prems(2) by (auto simp: restorable_def)
  from restoreClient_ok [OF Cons.prems(1) this n]
  obtain l1 where l1: "restoreClient (l\<lparr>sn_new := (sn_new l)\<lparr>jsm_mem := m'\<rparr>\<rparr>) cli = Some l1"
      "restored N m0 (es @ [entry_of_proto r]) l1" by blast
  from Cons.IH [OF l1(2), of "Suc k"] Cons.prems(2)
  show ?case using n l1(1) assms(1) by simp
qed simp

text \<open>With a place for every entry, all places are taken, and the heap is put in order.\<close>

lemma restored_heap:
  assumes r: "restored (length es) m0 es l" and ok: "restorable (length es) es"
  shows "None \<notin> set (sn_clientHeap l)"
    and "ch_wf (jsm_mem (sn_new l), map the (sn_clientHeap l))"
    and "set (map the (sn_clientHeap l)) = {m_next m0..<m_next m0 + length es}"
proof -
  let ?n = "m_next m0" and ?N = "length es" and ?h = "sn_clientHeap l"
  have c: "\<And>i. i < ?N \<Longrightarrow> cli_at (sn_new l) (?n + i) = es ! i" and len: "length ?h = ?N"
      and hs: "\<And>i. i < ?N \<Longrightarrow> ?h ! nat (HeapIndex (es ! i)) = Some (?n + i)"
    using r unfolding restored_def by auto
  have hi: "0 \<le> HeapIndex e" "HeapIndex e < int ?N" if "e \<in> set es" for e
    using ok that by (auto simp: restorable_def)
  have "card (nat ` HeapIndex ` set es) = ?N"
  proof -
    have "inj_on nat (HeapIndex ` set es)" using hi by (auto simp: inj_on_def nat_eq_iff)
    moreover have "card (HeapIndex ` set es) = ?N"
      using ok distinct_card [of "map HeapIndex es"] by (simp add: restorable_def)
    ultimately show ?thesis by (simp add: card_image)
  qed
  moreover have "nat ` HeapIndex ` set es \<subseteq> {..<?N}" using hi by (force simp: nat_less_iff)
  ultimately have all: "nat ` HeapIndex ` set es = {..<?N}" by (intro card_subset_eq) simp_all
  have slot: "\<exists>i < ?N. ?h ! k = Some (?n + i) \<and> HeapIndex (es ! i) = int k" if "k < ?N" for k
  proof -
    have "k \<in> nat ` HeapIndex ` set es" using that all by simp
    then obtain e where e: "e \<in> set es" "nat (HeapIndex e) = k" by blast
    then obtain i where "i < ?N" "es ! i = e" by (auto simp: in_set_conv_nth)
    then show ?thesis using hs [of i] e hi [OF e(1)] by auto
  qed
  then show n: "None \<notin> set ?h" using len by (fastforce simp: in_set_conv_nth)
  have idx: "HeapIndex (cli_at (sn_new l) (map the ?h ! k)) = int k" if "k < ?N" for k
    using slot [OF that] c that len by fastforce
  have "distinct (map the ?h)"
    unfolding distinct_conv_nth using idx len by (metis length_map of_nat_eq_iff)
  then show "ch_wf (jsm_mem (sn_new l), map the ?h)" using idx len by (simp add: ch_defs)
  show "set (map the ?h) = {?n..<?n + ?N}"
  proof (rule set_eqI, rule iffI)
    fix x assume "x \<in> set (map the ?h)"
    then obtain k where "k < ?N" "x = the (?h ! k)" using len by (auto simp: in_set_conv_nth)
    then show "x \<in> {?n..<?n + ?N}" using slot [of k] by auto
  next
    fix x assume x: "x \<in> {?n..<?n + ?N}"
    let ?i = "x - ?n"
    have i: "?i < ?N" "es ! ?i \<in> set es" using x by auto
    have "nat (HeapIndex (es ! ?i)) < length ?h" using hi [OF i(2)] len by auto
    then have "?h ! nat (HeapIndex (es ! ?i)) \<in> set ?h" by (rule nth_mem)
    then show "x \<in> set (map the ?h)" using hs [OF i(1)] x by (force simp: image_iff)
  qed
qed

lemma RestoreClients_ok:
  assumes nc: "\<And>k. \<not> cancelled k" and ok: "restorable (length rs) (map entry_of_proto rs)"
  shows "\<exists>l m q h. RestoreClients cancelled (newLocalSnapshot t) rs = Some (l, Inr ()) \<and>
           sn_new l = NewJSM\<lparr>jsm_mem := m, clients := q\<rparr> \<and> sn_clientHeap l = map Some h \<and>
           q_wf m q \<and> q_items q = [m_next (jsm_mem t)..<m_next (jsm_mem t) + length rs] \<and>
           set h = set (q_items q) \<and> ch_wf (m, h) \<and> ch_ordered (m, h) \<and>
           m_next m = m_next (jsm_mem t) + length rs \<and>
           (\<forall>i < length rs. \<exists>x. m_clients m (m_next (jsm_mem t) + i) = (entry_of_proto (rs ! i))\<lparr>HeapIndex := x\<rparr>)"
proof -
  let ?es = "map entry_of_proto rs" and ?m0 = "jsm_mem t" and ?N = "length rs"
  let ?l0 = "newLocalSnapshot t\<lparr>sn_clientHeap := newClientResvHeapWithSize ?N\<rparr>"
  have "restored ?N ?m0 [] ?l0"
    by (auto simp: restored_def newLocalSnapshot_def newClientResvHeapWithSize_def NewJSM_def)
  from RestoreClients_loop_ok [where cancelled = cancelled and k = 0, OF nc this] ok
  obtain l where l: "RestoreClients_loop cancelled 0 ?l0 rs = Some (l, Inr ())" "restored ?N ?m0 ?es l" by auto
  obtain m q where m: "sn_new l = NewJSM\<lparr>jsm_mem := m, clients := q\<rparr>" "m_next m = m_next ?m0 + ?N"
      "q_wf m q" "q_items q = [m_next ?m0..<m_next ?m0 + ?N]"
      "\<And>i. i < ?N \<Longrightarrow> m_clients m (m_next ?m0 + i) = ?es ! i"
    using l(2) unfolding restored_def by auto
  have h: "None \<notin> set (sn_clientHeap l)" "ch_wf (m, map the (sn_clientHeap l))"
      "set (map the (sn_clientHeap l)) = set (q_items q)"
    using restored_heap [of ?es ?m0 l] l(2) ok m(1,4) by auto
  obtain m' h' where i: "initializeHeap (m, map the (sn_clientHeap l)) = (m', h')"
      "mset h' = mset (map the (sn_clientHeap l))" "ch_wf (m', h')" "ch_ordered (m', h')"
      "same_but_heap_index (set (map the (sn_clientHeap l))) m m'"
    using initializeHeap_ok [OF h(2)] by blast
  have same: "\<exists>x. m_clients m' c = (m_clients m c)\<lparr>HeapIndex := x\<rparr>" and n': "m_next m' = m_next m" for c
    using i(5) unfolding same_but_heap_index_def by meson+
  have id: "cli_id m' c = cli_id m c" for c using same [of c] by auto
  let ?l = "l\<lparr>sn_new := (sn_new l)\<lparr>jsm_mem := m'\<rparr>, sn_clientHeap := map Some h'\<rparr>"
  have "RestoreClients cancelled (newLocalSnapshot t) rs = Some (?l, Inr ())"
    using l(1) h(1) i(1) m(1) by (simp add: RestoreClients_def)
  moreover have "sn_new ?l = NewJSM\<lparr>jsm_mem := m', clients := q\<rparr>" using m(1) by (simp add: NewJSM_def)
  moreover have "q_wf m' q" using m(3) id q_wf_cong by blast
  moreover have "set h' = set (q_items q)" using i(2) h(3) by (metis set_mset_mset)
  moreover have "\<exists>x. m_clients m' (m_next ?m0 + i) = (entry_of_proto (rs ! i))\<lparr>HeapIndex := x\<rparr>" if "i < ?N" for i
    using same [of "m_next ?m0 + i"] m(5) [OF that] that by simp
  ultimately show ?thesis using i(3,4) m(2,4) n'
    by (intro exI [of _ ?l] exI [of _ m'] exI [of _ q] exI [of _ h']) auto
qed

section \<open>The whole state\<close>

lemma fresh_jobs:
  "jobs_inv (NewJSM\<lparr>jsm_mem := m, clients := q\<rparr>) {}"
  "job_views (NewJSM\<lparr>jsm_mem := m, clients := q\<rparr>) = Map.empty"
  using jinv_empty waits_wf_empty by (simp_all add: jobs_inv_def job_views_def NewJSM_def NewJobIndex_def)

text \<open>The clients that a snapshot has are those of the heap.\<close>

lemma SnapshotClients_heap:
  assumes "cinv s"
  shows "set (SnapshotClients s) = set (clientHeap s)" and "length (SnapshotClients s) = length (clientHeap s)"
    and "distinct (map (cli_id (jsm_mem s)) (SnapshotClients s))"
    and "distinct (map (\<lambda>c. HeapIndex (cli_at s c)) (SnapshotClients s))"
    and "c \<in> set (SnapshotClients s) \<Longrightarrow> 0 \<le> HeapIndex (cli_at s c) \<and> HeapIndex (cli_at s c) < int (length (clientHeap s))"
proof -
  have f: "SnapshotClients s = filter (\<lambda>c. \<not> HeapIndex (cli_at s c) < 0) (q_items (clients s))"
    by (simp add: SnapshotClients_def clientResvQueue_Entries_def q_items_def)
  have ids: "distinct (map (cli_id (jsm_mem s)) (q_items (clients s)))"
    using cinvD(1) [OF assms] by (simp add: q_wf_def Let_def)
  have ix: "\<exists>i < length (clientHeap s). clientHeap s ! i = c \<and> HeapIndex (cli_at s c) = int i" if "c \<in> set (clientHeap s)" for c
    using ch_wf_index [OF cinvD(3) [OF assms] that] by blast
  show set: "set (SnapshotClients s) = set (clientHeap s)"
    using cinvD(5,7) [OF assms] ix unfolding f by fastforce
  show "distinct (map (cli_id (jsm_mem s)) (SnapshotClients s))" unfolding f using ids by (simp add: distinct_map_filter)
  then have d: "distinct (SnapshotClients s)" by (simp add: distinct_map)
  moreover have "distinct (clientHeap s)" using cinvD(3) [OF assms] by (simp add: ch_defs)
  ultimately show "length (SnapshotClients s) = length (clientHeap s)" using set by (metis distinct_card)
  show "distinct (map (\<lambda>c. HeapIndex (cli_at s c)) (SnapshotClients s))"
    using d ix set by (simp add: distinct_map inj_on_def) (metis of_nat_eq_iff)
  show "0 \<le> HeapIndex (cli_at s c) \<and> HeapIndex (cli_at s c) < int (length (clientHeap s))" if "c \<in> set (SnapshotClients s)"
    using ix [of c] that set by auto
qed

text \<open>The entry that a client has after it was restored.\<close>

definition lost_tubes :: "ClientResvEntry \<Rightarrow> int \<Rightarrow> ClientResvEntry" where
  "lost_tubes c x = c\<lparr>WatchedTubes := [], HeapIndex := x\<rparr>"

lemma entry_of_snapshot: "entry_of_proto (proto_of_entry c) = lost_tubes c (wrap32 (HeapIndex c))"
  by (simp add: entry_of_proto_def proto_of_entry_def lost_tubes_def)

lemma snapshot_restorable:
  assumes "cinv s" and "int (length (clientHeap s)) \<le> 2 ^ 31"
  shows "restorable (length (clientHeap s)) (map (entry_of_proto \<circ> proto_of_entry \<circ> cli_at s) (SnapshotClients s))"
proof -
  have w: "wrap32 (HeapIndex (cli_at s c)) = HeapIndex (cli_at s c)" if "c \<in> set (SnapshotClients s)" for c
    using SnapshotClients_heap(5) [OF assms(1) that] assms(2) by (intro wrap32_id) (simp add: in_int32_def)
  have eq: "map (\<lambda>c. wrap32 (HeapIndex (cli_at s c))) (SnapshotClients s) = map (\<lambda>c. HeapIndex (cli_at s c)) (SnapshotClients s)"
    using w by simp
  have "distinct (map (\<lambda>c. wrap32 (HeapIndex (cli_at s c))) (SnapshotClients s))"
    unfolding eq by (rule SnapshotClients_heap(4) [OF assms(1)])
  then show ?thesis
    using SnapshotClients_heap(3,5) [OF assms(1)] w
    by (simp add: restorable_def entry_of_snapshot lost_tubes_def comp_def)
qed

text \<open>
  A state whose clients are the restored ones: they are all in the heap, wait for no tube, and
  are otherwise as in \<open>s\<close>.
\<close>

definition clients_of :: "localJSM \<Rightarrow> localJSM \<Rightarrow> bool" where
  "clients_of s t \<longleftrightarrow>
     q_wf (jsm_mem t) (clients t) \<and> waits_wf (jsm_mem t) (tubes t) \<and> ch_wf (jsm_mem t, clientHeap t) \<and>
     ch_ordered (jsm_mem t, clientHeap t) \<and> set (clientHeap t) = set (q_items (clients t)) \<and>
     (\<forall>c \<in> set (clientHeap t). c < m_next (jsm_mem t) \<and>
        (\<exists>d \<in> set (clientHeap s). \<exists>x. cli_at t c = lost_tubes (cli_at s d) x)) \<and>
     (\<forall>d \<in> set (clientHeap s). \<exists>c \<in> set (clientHeap t). \<exists>x. cli_at t c = lost_tubes (cli_at s d) x) \<and>
     (\<forall>u. waiters (tubes t) u = [])"

lemma clients_of_cinv:
  assumes "clients_of s t" and "cinv s"
  shows "cinv t"
proof -
  have "ResvDeadlineAt (cli_at t c) < maxTime" if c: "c \<in> set (clientHeap t)" "IsWaitingForResv (cli_at t c)" for c
  proof -
    obtain d x where d: "d \<in> set (clientHeap s)" "cli_at t c = lost_tubes (cli_at s d) x"
      using assms(1) c(1) unfolding clients_of_def by blast
    then show ?thesis using cinvD(8) [OF assms(2), of d] cinvD(5) [OF assms(2)] c(2) by (auto simp: lost_tubes_def)
  qed
  moreover have "WatchedTubes (cli_at t c) = []" if "c \<in> set (clientHeap t)" for c
    using assms(1) that unfolding clients_of_def by (fastforce simp: lost_tubes_def)
  ultimately show ?thesis using assms(1) unfolding clients_of_def cinv_def by simp
qed

lemma clients_of_waiting:
  assumes c: "clients_of s t" and inv: "cinv s" "tinv s {}"
  shows "waiting_on t i = map_option (\<lambda>(r, ts, d). (r, [], d)) (waiting_on s i)"
proof -
  have eq: "a = b" if "\<And>x. a = Some x \<longleftrightarrow> b = Some x" for a b :: "'x option" using that by (metis option.exhaust)
  note ct = clients_of_cinv [OF c inv(1)]
  show ?thesis
  proof (rule eq)
    fix x
    have "waiting_on t i = Some x \<longleftrightarrow>
        (\<exists>c \<in> set (clientHeap t). CliID (cli_at t c) = i \<and> IsWaitingForResv (cli_at t c) \<and>
          x = (ReqID (cli_at t c), WatchedTubes (cli_at t c), ResvDeadlineAt (cli_at t c)))"
      using waiting_on_iff [OF ct] c by (simp add: clients_of_def)
    also have "\<dots> \<longleftrightarrow> (\<exists>d \<in> set (clientHeap s). CliID (cli_at s d) = i \<and> IsWaitingForResv (cli_at s d) \<and>
          x = (ReqID (cli_at s d), [], ResvDeadlineAt (cli_at s d)))" (is "?l = ?r")
    proof
      assume ?l
      then obtain c' where c': "c' \<in> set (clientHeap t)" "CliID (cli_at t c') = i" "IsWaitingForResv (cli_at t c')"
          "x = (ReqID (cli_at t c'), WatchedTubes (cli_at t c'), ResvDeadlineAt (cli_at t c'))" by blast
      moreover obtain d y where "d \<in> set (clientHeap s)" "cli_at t c' = lost_tubes (cli_at s d) y"
        using c c'(1) unfolding clients_of_def by blast
      ultimately show ?r by (intro bexI [of _ d]) (simp_all add: lost_tubes_def)
    next
      assume ?r
      then obtain d where d: "d \<in> set (clientHeap s)" "CliID (cli_at s d) = i" "IsWaitingForResv (cli_at s d)"
          "x = (ReqID (cli_at s d), [], ResvDeadlineAt (cli_at s d))" by blast
      moreover obtain c' y where "c' \<in> set (clientHeap t)" "cli_at t c' = lost_tubes (cli_at s d) y"
        using c d(1) unfolding clients_of_def by blast
      ultimately show ?l by (intro bexI [of _ c']) (simp_all add: lost_tubes_def)
    qed
    also have "\<dots> \<longleftrightarrow> (\<exists>d \<in> set (q_items (clients s)). CliID (cli_at s d) = i \<and> IsWaitingForResv (cli_at s d) \<and>
          x = (ReqID (cli_at s d), [], ResvDeadlineAt (cli_at s d)))"
      using inv(2) cinvD(5) [OF inv(1)] unfolding tinv_def by blast
    also have "\<dots> \<longleftrightarrow> map_option (\<lambda>(r, ts, d). (r, [], d)) (waiting_on s i) = Some x"
      using waiting_on_iff [OF inv(1)] by fastforce
    finally show "waiting_on t i = Some x \<longleftrightarrow> map_option (\<lambda>(r, ts, d). (r, [], d)) (waiting_on s i) = Some x" .
  qed
qed

lemma clients_of_ticking:
  assumes c: "clients_of s t" and ok: "jsm_ok s {}" and inv: "jobs_inv t {}"
    and v: "job_views t = (\<lambda>i. map_option snap_view (job_views s i))"
  shows "ticking t"
proof -
  have s: "cinv s" "tinv s {}" "sane s" using ok by (simp_all add: jsm_ok_def)
  have "sane_ttr (wrap32 x)" for x
    using wrap32_range [of x] by (simp add: sane_ttr_def in_int32_def)
  then have "sane t" using s(3) unfolding sane_def v by (auto simp: snap_view_def)
  moreover have "tinv t {}"
    unfolding tinv_def
  proof (intro conjI ballI allI impI)
    fix c' assume "c' \<in> set (q_items (clients t)) - {}" and w: "IsWaitingForResv (cli_at t c')"
    then show "c' \<in> set (clientHeap t)" using c by (simp add: clients_of_def)
    then obtain d y where "d \<in> set (clientHeap s)" "cli_at t c' = lost_tubes (cli_at s d) y"
      using c unfolding clients_of_def by blast
    then show "TickAt (cli_at t c') \<le> ResvDeadlineAt (cli_at t c')"
      using s(2) w cinvD(5) [OF s(1)] by (auto simp: tinv_def lost_tubes_def)
  next
    fix i x assume "job_views t i = Some x \<and> state x = Reserved"
    then obtain u where u: "job_views s i = Some u" "state u = Reserved" "reservedBy x = reservedBy u" "expiresAt x = expiresAt u"
      by (auto simp: v snap_view_def)
    then obtain d where d: "d \<in> set (clientHeap s)" "CliID (cli_at s d) = reservedBy u" "TickAt (cli_at s d) \<le> expiresAt u"
      using s(2) unfolding tinv_def by blast
    then obtain c' y where "c' \<in> set (clientHeap t)" "cli_at t c' = lost_tubes (cli_at s d) y"
      using c unfolding clients_of_def by blast
    then show "reservedBy x \<in> cli_id (jsm_mem t) ` {} \<or>
        (\<exists>c\<in>set (clientHeap t). cli_id (jsm_mem t) c = reservedBy x \<and> TickAt (cli_at t c) \<le> expiresAt x)"
      using u(3,4) d(2,3) by (intro disjI2 bexI [of _ c']) (simp_all add: lost_tubes_def)
  qed
  ultimately show ?thesis using clients_of_cinv [OF c s(1)] inv by (simp add: ticking_def)
qed

lemma snapshot_job_views:
  assumes "distinct ord" and "set ord = set (mkeys (ji_m (jobs s)))" and "jobs_inv s {}"
  defines "jps \<equiv> map (JobToJobProto \<circ> job_at s) (SnapshotJobs s ord)"
  shows "map proto_ID jps = ord"
    and "map_of (map (\<lambda>jp. (proto_ID jp, proto_view jp)) jps) = (\<lambda>i. map_option snap_view (job_views s i))"
    and "jp \<in> set jps \<Longrightarrow> loc_of (proto_view jp) \<noteq> None"
proof -
  let ?e = "\<lambda>i. the (mget (ji_m (jobs s)) i)"
  have e: "mget (ji_m (jobs s)) i = Some (?e i)" if "i \<in> set ord" for i
    using that assms(2) mget_mkeys [of "ji_m (jobs s)" i] by auto
  have id: "ID (job_at s (ie_job (?e i))) = i" and loc: "loc_of (view (job_at s (ie_job (?e i)))) \<noteq> None" if "i \<in> set ord" for i
    using jinv_index [OF _ e [OF that]] assms(3) by (fastforce simp: jobs_inv_def)+
  have js: "jps = map (\<lambda>i. JobToJobProto (job_at s (ie_job (?e i)))) ord"
    by (simp add: jps_def SnapshotJobs_eq [OF assms(2)])
  show "map proto_ID jps = ord" unfolding js map_map comp_def proto_view_eq by (rule map_idI) (rule id)
  have ps: "map (\<lambda>jp. (proto_ID jp, proto_view jp)) jps = map (\<lambda>i. (i, snap_view (view (job_at s (ie_job (?e i)))))) ord"
    unfolding js map_map comp_def proto_view_eq using id by simp
  show "map_of (map (\<lambda>jp. (proto_ID jp, proto_view jp)) jps) = (\<lambda>i. map_option snap_view (job_views s i))"
  proof
    fix i
    show "map_of (map (\<lambda>jp. (proto_ID jp, proto_view jp)) jps) i = map_option snap_view (job_views s i)"
    proof (cases "i \<in> set ord")
      case True
      obtain ie where "mget (ji_m (jobs s)) i = Some ie" using e [OF True] by blast
      then show ?thesis unfolding ps using True by (simp add: map_of_map_restrict job_views_def)
    next
      case False
      then have "mget (ji_m (jobs s)) i = None" using assms(2) mget_mkeys [of "ji_m (jobs s)" i] by auto
      then show ?thesis unfolding ps using False by (simp add: map_of_map_restrict job_views_def)
    qed
  qed
  show "loc_of (proto_view jp) \<noteq> None" if jp: "jp \<in> set jps"
  proof -
    obtain i where i: "i \<in> set ord" "jp = JobToJobProto (job_at s (ie_job (?e i)))" using jp unfolding js by auto
    show ?thesis unfolding i(2) proto_view_eq loc_of_snap_view by (rule loc [OF i(1)])
  qed
qed

lemma restoreTo_ok:
  assumes nc: "\<And>k. \<not> cancelled k" "\<And>k. \<not> cancelled' k"
    and ok: "jsm_ok s {}" and keys: "distinct ord" "set ord = set (mkeys (ji_m (jobs s)))"
    and few: "int (length (clientHeap s)) \<le> 2 ^ 31"
  shows "\<exists>t'. restoreTo cancelled cancelled' (NewSnapshotFrom s ord) t = Some (t', Inr ()) \<and>
           clients_of s t' \<and> jobs_inv t' {} \<and> job_views t' = (\<lambda>i. map_option snap_view (job_views s i)) \<and>
           nextDelayTickAt t' = nextDelayTickAt t \<and> maxJobID t' = foldl max 0 ord"
proof -
  have s: "cinv s" "jobs_inv s {}" using ok by (simp_all add: jsm_ok_def)
  let ?rs = "map (proto_of_entry \<circ> cli_at s) (SnapshotClients s)"
  let ?jps = "map (JobToJobProto \<circ> job_at s) (SnapshotJobs s ord)"
  note N = SnapshotClients_heap(2) [OF s(1)] and set = SnapshotClients_heap(1) [OF s(1)]
  have "restorable (length ?rs) (map entry_of_proto ?rs)"
    using snapshot_restorable [OF s(1) few] N by (simp add: comp_def)
  from RestoreClients_ok [where t = t and cancelled = cancelled, OF nc(1) this]
  obtain l m q h where l: "RestoreClients cancelled (newLocalSnapshot t) ?rs = Some (l, Inr ())"
      "sn_new l = NewJSM\<lparr>jsm_mem := m, clients := q\<rparr>" "sn_clientHeap l = map Some h" "q_wf m q"
      "q_items q = [m_next (jsm_mem t)..<m_next (jsm_mem t) + length (SnapshotClients s)]"
      "set h = set (q_items q)" "ch_wf (m, h)" "ch_ordered (m, h)"
      "m_next m = m_next (jsm_mem t) + length (SnapshotClients s)"
      "\<And>i. i < length (SnapshotClients s) \<Longrightarrow>
         \<exists>x. m_clients m (m_next (jsm_mem t) + i) = (entry_of_proto (proto_of_entry (cli_at s (SnapshotClients s ! i))))\<lparr>HeapIndex := x\<rparr>"
    by auto
  note f = fresh_jobs [where m = m and q = q, folded l(2)] and j = snapshot_job_views [OF keys s(2)]
  have "job_views (sn_new l) (proto_ID jp) = None \<and> loc_of (proto_view jp) \<noteq> None" if "jp \<in> set ?jps" for jp
    using f(2) j(3) [OF that] by simp
  from RestoreJobs_ok [where k = 0 and cancelled = cancelled' and jps = ?jps, OF nc(2) f(1) _ this, unfolded j(1)] keys(1)
  obtain s' where s': "RestoreJobs cancelled' 0 (sn_new l) ?jps = Some (s', Inr ())" "jobs_inv s' {}"
      "same_clients (sn_new l) s'" "job_views s' = job_views (sn_new l) ++ map_of (map (\<lambda>jp. (proto_ID jp, proto_view jp)) ?jps)"
      "maxJobID s' = foldl max (maxJobID (sn_new l)) ord" by blast
  define t' where "t' = FinalizeRestore t (l\<lparr>sn_new := s'\<rparr>)"
  have t': "jsm_mem t' = jsm_mem s'" "clients t' = q" "clientHeap t' = h" "tubes t' = tubes s'"
      "jobs t' = jobs s'" "reservedJobs t' = reservedJobs s'" "nextDelayTickAt t' = nextDelayTickAt t" "maxJobID t' = maxJobID s'"
    using s'(3) l(2,3) by (simp_all add: t'_def FinalizeRestore_def same_clients_def NewJSM_def)
  have "restoreTo cancelled cancelled' (NewSnapshotFrom s ord) t = Some (t', Inr ())"
    using l(1) s'(1) by (simp add: restoreTo_def restoreCliRevEntries_def restoreJobs_def NewSnapshotFrom_eq t'_def)
  moreover have ji: "jobs_inv t' {}" using s'(2) t' by (simp add: jobs_inv_def)
  moreover have "job_views t' = (\<lambda>i. map_option snap_view (job_views s i))"
    using s'(4) t'(1,5) unfolding j(2) f(2) by (simp add: job_views_def)
  moreover have "maxJobID t' = foldl max 0 ord" using s'(5) t'(8) l(2) by (simp add: NewJSM_def)
  moreover have "clients_of s t'"
  proof -
    have mc: "m_clients (jsm_mem t') = m_clients m" "m_next m \<le> m_next (jsm_mem t')" "\<And>u. waiters (tubes t') u = []"
      using s'(3) l(2) t'(1,4)
      by (simp_all add: same_clients_def NewJSM_def waiters_def tube_at_def new_tubeState_def)
    have e: "\<exists>x. cli_at t' (m_next (jsm_mem t) + i) = lost_tubes (cli_at s (SnapshotClients s ! i)) x"
      if "i < length (SnapshotClients s)" for i
      using l(10) [OF that] mc(1) by (auto simp: entry_of_snapshot lost_tubes_def)
    have "q_wf (jsm_mem t') q" using l(4) mc(1) q_wf_cong by metis
    moreover have "ch_wf (jsm_mem t', h)" "ch_ordered (jsm_mem t', h)" using l(7,8) ch_cong [of h "jsm_mem t'" m] mc(1) by simp_all
    moreover have "c < m_next (jsm_mem t') \<and> (\<exists>d \<in> set (clientHeap s). \<exists>x. cli_at t' c = lost_tubes (cli_at s d) x)"
      if c: "c \<in> set h" for c
    proof -
      obtain i where i: "c = m_next (jsm_mem t) + i" "i < length (SnapshotClients s)"
        using c l(5,6) by (auto simp: le_iff_add)
      then show ?thesis using e [OF i(2)] l(9) mc(2) set nth_mem [OF i(2)] by auto
    qed
    moreover have "\<exists>c \<in> set h. \<exists>x. cli_at t' c = lost_tubes (cli_at s d) x" if d: "d \<in> set (clientHeap s)" for d
    proof -
      obtain i where i: "i < length (SnapshotClients s)" "SnapshotClients s ! i = d"
        using d set by (metis in_set_conv_nth)
      then show ?thesis using e [OF i(1)] l(5,6) by (intro bexI [of _ "m_next (jsm_mem t) + i"]) auto
    qed
    ultimately show ?thesis
      using mc(3) l(6) jobs_inv_waits [OF ji] unfolding clients_of_def t'(2,3) by blast
  qed
  ultimately show ?thesis using t'(7) by blast
qed

end
