(* ===== verification/Go_Regexp.thy ===== *)
theory Go_Regexp
  imports Prelude
begin

text \<open>
  What the front end uses of two packages of the Go standard library: \<^verbatim>\<open>regexp\<close>, with the
  leftmost-first choice of a match, and the decimal conversions of \<^verbatim>\<open>strconv\<close> and \<^verbatim>\<open>fmt\<close>.
  The regular expressions of the program only have classes of ASCII characters, so that a
  text is a list of bytes, and every one of them needs at least one character to match.
\<close>

section \<open>Regular expressions\<close>

text \<open>
  A class, a sequence, a choice, a greedy repetition up to a number of times, the beginning
  and the end of the text, and a named group.
\<close>

datatype re =
    Cls "char \<Rightarrow> bool"
  | Seq re re
  | Alt re re
  | Upto "nat option" re
  | Bol
  | Eol
  | Grp string re

abbreviation Lit :: "char \<Rightarrow> re" where
  "Lit c \<equiv> Cls (\<lambda>x. x = c)"

abbreviation Many1 :: "re \<Rightarrow> re" where
  "Many1 r \<equiv> Seq r (Upto None r)"

type_synonym captures = "(string \<times> string) list"

text \<open>
  All ways to match at the front of a text, best first: what the groups captured and what is
  left of the text. The number is the length of the whole text.
\<close>

fun iter :: "nat \<Rightarrow> (string \<Rightarrow> (captures \<times> string) list) \<Rightarrow> string \<Rightarrow> (captures \<times> string) list" where
  "iter 0 f s = [([], s)]"
| "iter (Suc k) f s =
     concat (map (\<lambda>(c, s'). if length s' < length s then map (\<lambda>(c', s''). (c @ c', s'')) (iter k f s') else []) (f s))
     @ [([], s)]"

primrec ends :: "re \<Rightarrow> nat \<Rightarrow> string \<Rightarrow> (captures \<times> string) list" where
  "ends (Cls P) n s = (case s of [] \<Rightarrow> [] | c # s' \<Rightarrow> if P c then [([], s')] else [])"
| "ends (Seq a b) n s = concat (map (\<lambda>(c, s'). map (\<lambda>(c', s''). (c @ c', s'')) (ends b n s')) (ends a n s))"
| "ends (Alt a b) n s = ends a n s @ ends b n s"
| "ends (Upto m r) n s = iter (case m of None \<Rightarrow> length s | Some k \<Rightarrow> k) (ends r n) s"
| "ends Bol n s = (if length s = n then [([], s)] else [])"
| "ends Eol n s = (if s = [] then [([], s)] else [])"
| "ends (Grp x r) n s = map (\<lambda>(c, s'). ((x, take (length s - length s') s) # c, s')) (ends r n s)"

text \<open>
  The leftmost match: the text before it, the captures, and the text after it.
\<close>

primrec find_match :: "re \<Rightarrow> nat \<Rightarrow> string \<Rightarrow> (string \<times> captures \<times> string) option" where
  "find_match r n [] = (case ends r n [] of [] \<Rightarrow> None | (c, s') # _ \<Rightarrow> Some ([], c, s'))"
| "find_match r n (x # xs) =
     (case ends r n (x # xs) of
        [] \<Rightarrow> map_option (\<lambda>(pre, c, post). (x # pre, c, post)) (find_match r n xs)
      | (c, s') # _ \<Rightarrow> Some ([], c, s'))"

lemma find_match_shorter:
  assumes "find_match r n s = Some (pre, c, post)" and "\<And>s c s'. (c, s') \<in> set (ends r n s) \<Longrightarrow> length s' < length s"
  shows "length pre + length post < length s"
  using assms(1)
proof (induction s arbitrary: pre)
  case Nil
  then show ?case using assms(2) [of _ _ "[]"] by (auto split: list.splits)
next
  case (Cons x xs)
  then show ?case using assms(2) [of _ _ "x # xs"] by (fastforce split: list.splits)
qed

text \<open>All matches from left to right; an expression that matches nothing at all ends the search.\<close>

function find_all :: "re \<Rightarrow> nat \<Rightarrow> string \<Rightarrow> (string \<times> captures \<times> string) list" where
  "find_all r n s =
     (case find_match r n s of
        None \<Rightarrow> []
      | Some (pre, c, post) \<Rightarrow> (pre, c, post) # (if length post < length s then find_all r n post else []))"
  by auto
termination by (relation "measure (\<lambda>(r, n, s). length s)") auto

declare find_all.simps [simp del]

definition MatchString :: "re \<Rightarrow> string \<Rightarrow> bool" where
  "MatchString r s = (find_match r (length s) s \<noteq> None)"

definition FindAllStringSubmatch :: "re \<Rightarrow> string \<Rightarrow> captures list" where
  "FindAllStringSubmatch r s = map (\<lambda>(pre, c, post). c) (find_all r (length s) s)"

function replace_from :: "re \<Rightarrow> nat \<Rightarrow> string \<Rightarrow> string \<Rightarrow> string" where
  "replace_from r n repl s =
     (case find_match r n s of
        None \<Rightarrow> s
      | Some (pre, c, post) \<Rightarrow>
          pre @ repl @ (if length post < length s then replace_from r n repl post else post))"
  by auto
termination by (relation "measure (\<lambda>(r, n, repl, s). length s)") auto

declare replace_from.simps [simp del]

definition ReplaceAllLiteralString :: "re \<Rightarrow> string \<Rightarrow> string \<Rightarrow> string" where
  "ReplaceAllLiteralString r src repl = replace_from r (length src) repl src"

text \<open>\<^verbatim>\<open>re.Split(s, 2)\<close>.\<close>

definition Split2 :: "re \<Rightarrow> string \<Rightarrow> string list" where
  "Split2 r s = (case find_match r (length s) s of None \<Rightarrow> [s] | Some (pre, c, post) \<Rightarrow> [pre, post])"

subsection \<open>Runs of a class\<close>

lemma map_Suc_rev_upt: "map Suc (rev [0..<m]) = rev [Suc 0..<Suc m]"
  by (simp only: rev_map [symmetric] map_Suc_upt)

lemma iter_Cls:
  "iter k (ends (Cls P) n) s = map (\<lambda>i. ([], drop i s)) (rev [0..<Suc (min k (length (takeWhile P s)))])"
proof (induction k arbitrary: s)
  case (Suc k)
  show ?case
  proof (cases s)
    case (Cons c s')
    show ?thesis
    proof (cases "P c")
      case True
      let ?m = "min k (length (takeWhile P s'))"
      have "rev [0..<Suc (Suc ?m)] = map Suc (rev [0..<Suc ?m]) @ [0]"
        unfolding map_Suc_rev_upt by (simp only: upt_conv_Cons [of 0 "Suc (Suc ?m)"] rev.simps zero_less_Suc One_nat_def)
      then show ?thesis using Cons True Suc [of s'] by (simp add: comp_def del: upt_Suc)
    qed (use Cons in simp)
  qed simp
qed simp

lemma ends_Many1_Cls:
  "ends (Many1 (Cls P)) n s = map (\<lambda>i. ([], drop i s)) (rev [1..<Suc (length (takeWhile P s))])"
proof (cases s)
  case (Cons c s')
  show ?thesis
  proof (cases "P c")
    case True
    have "min (length s') (length (takeWhile P s')) = length (takeWhile P s')"
      by (simp add: length_takeWhile_le min_absorb2)
    then have "ends (Many1 (Cls P)) n s = map (\<lambda>i. ([], drop i s')) (rev [0..<Suc (length (takeWhile P s'))])"
      using Cons True iter_Cls [of "length s'" P n s'] by simp
    also have "\<dots> = map (\<lambda>i. ([], drop i s)) (map Suc (rev [0..<Suc (length (takeWhile P s'))]))"
      using Cons by simp
    also have "map Suc (rev [0..<Suc (length (takeWhile P s'))]) = rev [1..<Suc (length (takeWhile P s))]"
      using Cons True by (simp add: map_Suc_rev_upt del: upt_Suc)
    finally show ?thesis .
  qed (use Cons in simp)
qed simp

lemma drop_takeWhile_less: "i < length (takeWhile P s) \<Longrightarrow> \<exists>c s'. drop i s = c # s' \<and> P c"
  using nth_mem [of i "takeWhile P s"] set_takeWhileD [of _ P s] length_takeWhile_le [of P s] takeWhile_nth [of i P s]
  by (metis Cons_nth_drop_Suc order_less_le_trans)

text \<open>A named run of a class that something else follows is the whole run.\<close>

lemma ends_run_Seq:
  assumes "\<And>c s'. P c \<Longrightarrow> ends R n (c # s') = []"
  shows "ends (Seq (Grp x (Many1 (Cls P))) R) n s =
    (if takeWhile P s = [] then []
     else map (\<lambda>(c, s'). ((x, takeWhile P s) # c, s')) (ends R n (dropWhile P s)))"
proof -
  let ?m = "length (takeWhile P s)"
  let ?f = "\<lambda>i. map (\<lambda>(c, s'). ((x, take i s) # c, s')) (ends R n (drop i s))"
  have z: "?f i = []" if "i < ?m" for i using drop_takeWhile_less [OF that] assms by auto
  have le: "i \<le> length s" if "i < Suc ?m" for i using that length_takeWhile_le [of P s] by simp
  have "ends (Seq (Grp x (Many1 (Cls P))) R) n s = concat (map ?f (rev [1..<Suc ?m]))"
    unfolding ends.simps(2) [of "Grp x (Many1 (Cls P))"] ends.simps(7) ends_Many1_Cls map_map
    by (rule arg_cong [where f = concat], rule map_cong [OF refl]) (use le in \<open>auto simp: comp_def case_prod_unfold\<close>)
  also have "\<dots> = (if ?m = 0 then [] else ?f ?m)"
  proof (cases "?m = 0")
    case False
    have "concat (map ?f (rev [1..<?m])) = []" using z by (simp add: concat_eq_Nil_conv)
    moreover have "rev [1..<Suc ?m] = ?m # rev [1..<?m]" using False by (simp add: Suc_le_eq)
    ultimately show ?thesis using False by (simp only: list.map concat.simps append_Nil2 if_False)
  qed simp
  also have "take ?m s = takeWhile P s" by (metis takeWhile_eq_take)
  also have "drop ?m s = dropWhile P s" by (metis dropWhile_eq_drop)
  finally show ?thesis by simp
qed

lemma ends_anchored: "length s \<noteq> n \<Longrightarrow> ends (Seq Bol r) n s = []"
  by simp

lemma find_anchored:
  assumes "\<And>s'. length s' < n \<Longrightarrow> ends r n s' = []" and "length s = n"
  shows "find_match r n s = (case ends r n s of [] \<Rightarrow> None | (c, s') # _ \<Rightarrow> Some ([], c, s'))"
proof -
  have "find_match r n s' = None" if "length s' < n" for s'
    using that by (induction s') (use assms(1) in auto)
  then show ?thesis using assms(2) by (cases s) (auto split: list.splits)
qed

section \<open>Decimal numbers\<close>

definition isDigit :: "char \<Rightarrow> bool" where
  "isDigit c \<longleftrightarrow> 48 \<le> (of_char c :: nat) \<and> (of_char c :: nat) \<le> 57"

definition digit_value :: "char \<Rightarrow> nat" where
  "digit_value c = of_char c - 48"

definition digits_value :: "string \<Rightarrow> nat" where
  "digits_value s = foldl (\<lambda>n c. n * 10 + digit_value c) 0 s"

text \<open>\<^verbatim>\<open>strconv.ParseUint(s, 10, bits)\<close>, \<^verbatim>\<open>strconv.ParseInt(s, 10, bits)\<close> and \<^verbatim>\<open>strconv.Atoi(s)\<close>.\<close>

definition ParseUint :: "string \<Rightarrow> nat \<Rightarrow> nat option" where
  "ParseUint s bits =
     (if s = [] \<or> \<not> list_all isDigit s then None
      else if digits_value s < 2 ^ bits then Some (digits_value s) else None)"

definition ParseInt :: "string \<Rightarrow> nat \<Rightarrow> int option" where
  "ParseInt s bits =
     (let neg = (s \<noteq> [] \<and> hd s = CHR ''-'');
          s = (if s \<noteq> [] \<and> (hd s = CHR ''-'' \<or> hd s = CHR ''+'') then tl s else s)
      in case ParseUint s bits of
           None \<Rightarrow> None
         | Some un \<Rightarrow>
             if \<not> neg \<and> un \<ge> 2 ^ (bits - 1) then None
             else if neg \<and> un > 2 ^ (bits - 1) then None
             else Some (if neg then - int un else int un))"

definition Atoi :: "string \<Rightarrow> int option" where
  "Atoi s = ParseInt s 64"

text \<open>The verb \<^verbatim>\<open>%d\<close>.\<close>

definition digit_char :: "nat \<Rightarrow> char" where
  "digit_char d = char_of (48 + d)"

fun dec :: "nat \<Rightarrow> string" where
  "dec n = (if n < 10 then [digit_char n] else dec (n div 10) @ [digit_char (n mod 10)])"

declare dec.simps [simp del]

definition dec_int :: "int \<Rightarrow> string" where
  "dec_int i = (if i < 0 then CHR ''-'' # dec (nat (- i)) else dec (nat i))"

lemma digit_char_value: "d < 10 \<Longrightarrow> isDigit (digit_char d) \<and> digit_value (digit_char d) = d"
  by (simp add: isDigit_def digit_char_def digit_value_def of_char_of)

lemma dec_digits: "list_all isDigit (dec n) \<and> dec n \<noteq> []"
proof (induction n rule: dec.induct)
  case (1 n)
  then show ?case by (subst (1 2) dec.simps) (simp add: digit_char_value)
qed

lemma dec_value [simp]: "digits_value (dec n) = n"
proof (induction n rule: dec.induct)
  case (1 n)
  show ?case
  proof (cases "n < 10")
    case True
    then show ?thesis by (subst dec.simps) (simp add: digits_value_def digit_char_value)
  next
    case False
    then have "digits_value (dec (n div 10)) = n div 10" using 1 by simp
    then show ?thesis using False by (subst dec.simps) (simp add: digits_value_def digit_char_value)
  qed
qed

lemma ParseUint_dec: "ParseUint (dec n) bits = (if n < 2 ^ bits then Some n else None)"
  using dec_digits [of n] by (simp add: ParseUint_def)

lemma isDigit_no_sign: "isDigit c \<Longrightarrow> c \<noteq> CHR ''-'' \<and> c \<noteq> CHR ''+''"
  by (auto simp: isDigit_def)

lemma ParseInt_digits:
  assumes "list_all isDigit s" and "0 < bits"
  shows "ParseInt s bits = (if s \<noteq> [] \<and> digits_value s < 2 ^ (bits - 1) then Some (int (digits_value s)) else None)"
proof -
  have "s \<noteq> [] \<Longrightarrow> hd s \<noteq> CHR ''-'' \<and> hd s \<noteq> CHR ''+''"
    using assms(1) isDigit_no_sign by (cases s) auto
  moreover have "digits_value s < 2 ^ (bits - 1) \<Longrightarrow> digits_value s < 2 ^ bits"
    by (meson diff_le_self less_le_trans one_le_numeral power_increasing)
  ultimately show ?thesis using assms(1) by (auto simp: ParseInt_def ParseUint_def Let_def)
qed

end
