(* ===== verification/Cmd_Parse.thy ===== *)
theory Cmd_Parse
  imports Go_Regexp
begin

text \<open>
  Reading lines from a connection: \<^verbatim>\<open>beanstalkd/core/parse.go\<close>, with the constants and errors
  of \<^verbatim>\<open>beanstalkd/core/core.go\<close>. A line ends with a carriage return and a newline; what a
  read delivers can end anywhere, also between the two.
\<close>

section \<open>Constants and errors\<close>

definition MaxCmdSizeBytes :: int where
  "MaxCmdSizeBytes = 226"

definition MaxJobDataSizeBytes :: int where
  "MaxJobDataSizeBytes = 128 * 1024 + 2"

definition readBufferSizeBytes :: int where
  "readBufferSizeBytes = 4 * 1024"

datatype io_error = EOF | IOError string

datatype core_error = ErrNoData | ErrDelimiterMissing | ErrBadFormat | ErrJobSizeTooBig
  | ErrCmdTokensMissing | ErrCmdNotFound | ReadErr io_error

abbreviation CR :: char where "CR \<equiv> CHR 0x0D"
abbreviation LF :: char where "LF \<equiv> CHR 0x0A"
abbreviation CRLF :: bytes where "CRLF \<equiv> [CR, LF]"

definition DelimRe :: re where
  "DelimRe = Seq (Lit CR) (Lit LF)"

section \<open>Readers\<close>

text \<open>
  An \<^verbatim>\<open>io.Reader\<close> is what its reads deliver one after the other, bytes and perhaps an error,
  and then the end of the file. A buffer that is too small for the bytes gets as many as fit,
  and the next read continues there.
\<close>

type_synonym reader = "(bytes \<times> io_error option) list"

fun Read :: "nat \<Rightarrow> reader \<Rightarrow> reader \<times> bytes \<times> io_error option" where
  "Read k [] = ([], [], Some EOF)"
| "Read k ((d, e) # rs) =
     (if length d \<le> k then (rs, d, e) else ((drop k d, e) # rs, take k d, None))"

section \<open>Scanning\<close>

definition split :: "bytes \<Rightarrow> (bytes \<times> bytes) option" where
  "split b =
     (case find_match DelimRe (length b) b of
        None \<Rightarrow> None
      | Some (pre, _, post) \<Rightarrow> Some (pre, post))"

text \<open>
  \<^verbatim>\<open>Scan\<close> returns the line, the bytes after it, and an error. The loop has the buffer size, the
  bytes so far and whether the last of them is a carriage return.
\<close>

function Scan_loop :: "int \<Rightarrow> nat \<Rightarrow> reader \<Rightarrow> bytes \<Rightarrow> bool \<Rightarrow> reader \<times> bytes \<times> bytes \<times> core_error option" where
  "Scan_loop limitBytes bufSize rdr buf isLastByteCarriageReturn =
     (if int (length buf) < limitBytes
      then (case Read bufSize rdr of
              (rdr, b, Some err) \<Rightarrow> (rdr, [], [], Some (ReadErr err))
            | (rdr, b, None) \<Rightarrow>
                if b = [] then (rdr, [], buf, Some ErrNoData)
                else if isLastByteCarriageReturn \<and> hd b = LF then (rdr, butlast buf, tl b, None)
                else (case split b of
                        Some (left, right) \<Rightarrow> (rdr, buf @ left, right, None)
                      | None \<Rightarrow> Scan_loop limitBytes bufSize rdr (buf @ b) (last b = CR)))
      else (rdr, [], [], Some ErrDelimiterMissing))"
  by pat_completeness auto
termination
  by (relation "measure (\<lambda>(limitBytes, bufSize, rdr, buf, cr). nat limitBytes - length buf)")
    (auto simp: neq_Nil_conv)

declare Scan_loop.simps [simp del]

definition Scan :: "reader \<Rightarrow> bytes \<Rightarrow> int \<Rightarrow> reader \<times> bytes \<times> bytes \<times> core_error option" where
  "Scan rdr b limitBytes =
     (case (if b \<noteq> [] then split b else None) of
        Some (left, right) \<Rightarrow> (rdr, left, right, None)
      | None \<Rightarrow>
          Scan_loop limitBytes (nat (min readBufferSizeBytes limitBytes)) rdr b (b \<noteq> [] \<and> last b = CR))"

definition ScanJobData :: "reader \<Rightarrow> bytes \<Rightarrow> int \<Rightarrow> reader \<times> bytes \<times> bytes \<times> core_error option" where
  "ScanJobData rdr b maxJobDataSizeBytes = Scan rdr b maxJobDataSizeBytes"

definition ScanCmdLine :: "reader \<Rightarrow> bytes \<Rightarrow> reader \<times> bytes \<times> bytes \<times> core_error option" where
  "ScanCmdLine rdr b = Scan rdr b MaxCmdSizeBytes"


definition reader_size :: "reader \<Rightarrow> nat" where
  "reader_size rdr = (\<Sum>(d, e) \<leftarrow> rdr. Suc (length d))"

lemma reader_size_simps [simp]:
  "reader_size [] = 0" "reader_size ((d, e) # rs) = Suc (length d) + reader_size rs"
  by (simp_all add: reader_size_def)






section \<open>The first delimiter\<close>

fun has_delim :: "bytes \<Rightarrow> bool" where
  "has_delim (x # y # zs) = (x = CR \<and> y = LF \<or> has_delim (y # zs))"
| "has_delim _ = False"

lemma has_delim_append:
  "has_delim (a @ b) \<longleftrightarrow> has_delim a \<or> has_delim b \<or> (a \<noteq> [] \<and> b \<noteq> [] \<and> last a = CR \<and> hd b = LF)"
proof (induction a)
  case (Cons x a)
  then show ?case by (cases a; cases b) auto
qed simp

lemma has_delim_CRLF [simp]: "has_delim (l @ CR # LF # r)"
  using has_delim_append [of l "CR # LF # r"] by simp

lemma delim_unique:
  assumes "l @ CRLF @ r = l' @ CRLF @ r'" and "\<not> has_delim l" and "\<not> has_delim l'"
  shows "l = l' \<and> r = r'"
proof -
  have no: "l' = l \<or> has_delim l'"
    if "l' = l @ u" "u @ CRLF @ r' = CRLF @ r" for l r l' r' u :: bytes
  proof (cases u)
    case (Cons x v)
    then have v: "x = CR" "v @ CRLF @ r' = LF # r" using that(2) by auto
    then obtain w where "v = LF # w" by (cases v) auto
    then show ?thesis using that(1) Cons v(1) has_delim_CRLF [of l w] by simp
  qed (use that(1) in simp)
  have "l = l'"
    using assms no [of l' l] no [of l l'] unfolding append_eq_append_conv2 by (metis (no_types))
  then show ?thesis using assms(1) by simp
qed

lemma ends_DelimRe: "ends DelimRe n s = (case s of x # y # zs \<Rightarrow> if x = CR \<and> y = LF then [([], zs)] else [] | _ \<Rightarrow> [])"
  by (auto simp: DelimRe_def split: list.split)

lemma find_DelimRe:
  "(case find_match DelimRe n b of
      None \<Rightarrow> \<not> has_delim b
    | Some (l, c, r) \<Rightarrow> b = l @ CRLF @ r \<and> \<not> has_delim l)"
proof (induction b rule: has_delim.induct)
  case (1 x y zs)
  show ?case
  proof (cases "x = CR \<and> y = LF")
    case False
    then have e: "find_match DelimRe n (x # y # zs) = map_option (\<lambda>(l, c, r). (x # l, c, r)) (find_match DelimRe n (y # zs))"
      by (auto simp: ends_DelimRe)
    show ?thesis
    proof (cases "find_match DelimRe n (y # zs)")
      case (Some p)
      obtain l c r where p: "p = (l, c, r)" by (cases p)
      have "y # zs = l @ CRLF @ r" "\<not> has_delim l" using 1 Some p by auto
      moreover from this have "\<not> has_delim (x # l)" using False by (cases l) auto
      ultimately show ?thesis using e Some p by simp
    qed (use 1 e False in auto)
  qed (simp add: ends_DelimRe)
qed (simp_all add: ends_DelimRe)

lemma split_iff: "split b = Some (l, r) \<longleftrightarrow> b = l @ CRLF @ r \<and> \<not> has_delim l"
proof
  assume "split b = Some (l, r)"
  then show "b = l @ CRLF @ r \<and> \<not> has_delim l"
    using find_DelimRe [where n = "length b" and b = b] by (auto simp: split_def split: option.splits)
next
  assume b: "b = l @ CRLF @ r \<and> \<not> has_delim l"
  then obtain l' c r' where f: "find_match DelimRe (length b) b = Some (l', c, r')" "b = l' @ CRLF @ r'" "\<not> has_delim l'"
    using find_DelimRe [where n = "length b" and b = b] by (auto split: option.splits)
  then show "split b = Some (l, r)" using delim_unique [of l r l' r'] b by (simp add: split_def)
qed

lemma split_None: "split b = None \<longleftrightarrow> \<not> has_delim b"
  using find_DelimRe [where n = "length b" and b = b] by (auto simp: split_def split: option.splits)

section \<open>Scanning is reading the first line\<close>

definition flow :: "reader \<Rightarrow> bytes" where
  "flow rdr = concat (map fst rdr)"

text \<open>A connection that delivers at least one byte with every read until it is closed.\<close>

definition steady :: "reader \<Rightarrow> bool" where
  "steady rdr \<longleftrightarrow> (\<forall>(d, e) \<in> set rdr. d \<noteq> [] \<and> e = None)"

lemma Read_flow: "Read k rdr = (rdr', b, None) \<Longrightarrow> flow rdr = b @ flow rdr'"
  by (cases "(k, rdr)" rule: Read.cases) (auto simp: flow_def split: if_splits)


lemma Read_steady:
  assumes "steady rdr" and "flow rdr \<noteq> []" and "0 < k"
  shows "\<exists>rdr' b. Read k rdr = (rdr', b, None) \<and> b \<noteq> [] \<and> steady rdr'"
  using assms by (cases "(k, rdr)" rule: Read.cases) (auto simp: steady_def flow_def)

definition scanning :: "bytes \<Rightarrow> bool \<Rightarrow> bool" where
  "scanning buf cr \<longleftrightarrow> \<not> has_delim buf \<and> (cr \<longleftrightarrow> buf \<noteq> [] \<and> last buf = CR)"

lemma scanning_step:
  assumes "scanning buf cr" and "b \<noteq> []"
  shows "cr \<and> hd b = LF \<Longrightarrow> buf @ b = butlast buf @ CRLF @ tl b \<and> \<not> has_delim (butlast buf)"
    and "\<not> (cr \<and> hd b = LF) \<Longrightarrow> split b = Some (l, r) \<Longrightarrow> buf @ b = (buf @ l) @ CRLF @ r \<and> \<not> has_delim (buf @ l)"
    and "\<not> (cr \<and> hd b = LF) \<Longrightarrow> split b = None \<Longrightarrow> scanning (buf @ b) (last b = CR)"
proof -
  have nd: "\<not> has_delim buf" and cr: "cr \<longleftrightarrow> buf \<noteq> [] \<and> last buf = CR" using assms(1) by (auto simp: scanning_def)
  show "buf @ b = butlast buf @ CRLF @ tl b \<and> \<not> has_delim (butlast buf)" if "cr \<and> hd b = LF"
  proof -
    have "buf = butlast buf @ [CR]" using that cr by (metis append_butlast_last_id)
    moreover have "b = LF # tl b" using that assms(2) by (metis list.collapse)
    moreover have "\<not> has_delim (butlast buf)" using nd has_delim_append [of "butlast buf" "[CR]"] calculation(1) by metis
    ultimately show ?thesis by (metis append_Cons append_Nil append_assoc)
  qed
  show "buf @ b = (buf @ l) @ CRLF @ r \<and> \<not> has_delim (buf @ l)" if "\<not> (cr \<and> hd b = LF)" "split b = Some (l, r)"
  proof -
    have b: "b = l @ CRLF @ r" "\<not> has_delim l" using that(2) by (simp_all add: split_iff)
    have "\<not> (buf \<noteq> [] \<and> l \<noteq> [] \<and> last buf = CR \<and> hd l = LF)" using that(1) cr b(1) by (cases l) auto
    then show ?thesis using b nd by (simp add: has_delim_append)
  qed
  show "scanning (buf @ b) (last b = CR)" if "\<not> (cr \<and> hd b = LF)" "split b = None"
    using that nd cr assms(2) by (auto simp: scanning_def has_delim_append split_None)
qed


lemma Scan_loop_complete:
  assumes "steady rdr" and "scanning buf cr" and "buf @ flow rdr = l @ CRLF @ rest" and "\<not> has_delim l"
    and "int (length l) + 2 \<le> limitBytes" and "0 < k"
  shows "\<exists>rdr' r. Scan_loop limitBytes k rdr buf cr = (rdr', l, r, None) \<and> r @ flow rdr' = rest \<and> steady rdr'"
  using assms
proof (induction limitBytes k rdr buf cr rule: Scan_loop.induct)
  case (1 limitBytes k rdr buf cr)
  have nd: "\<not> has_delim buf" using 1(3) by (simp add: scanning_def)
  have len: "length buf < length l + 2"
  proof (rule ccontr)
    assume "\<not> length buf < length l + 2"
    then have "take (length l + 2) buf = take (length l + 2) (buf @ flow rdr)" by simp
    also have "\<dots> = l @ CRLF" unfolding 1(4) by simp
    finally obtain u where "buf = (l @ CRLF) @ u" by (metis append_take_drop_id)
    then show False using nd has_delim_CRLF [of l u] by simp
  qed
  then have lt: "int (length buf) < limitBytes" using 1(6) by simp
  have "flow rdr \<noteq> []" using 1(4) nd has_delim_CRLF [of l rest] by auto
  from Read_steady [OF 1(2) this 1(7)]
  obtain rdr1 b where rd: "Read k rdr = (rdr1, b, None)" "b \<noteq> []" "steady rdr1" by blast
  have all: "(buf @ b) @ flow rdr1 = l @ CRLF @ rest" using 1(4) Read_flow [OF rd(1)] by simp
  note step = scanning_step [OF 1(3) rd(2)]
  have sc: "Scan_loop limitBytes k rdr buf cr =
      (if cr \<and> hd b = LF then (rdr1, butlast buf, tl b, None)
       else (case split b of Some (left, right) \<Rightarrow> (rdr1, buf @ left, right, None)
             | None \<Rightarrow> Scan_loop limitBytes k rdr1 (buf @ b) (last b = CR)))"
    using lt rd by (subst Scan_loop.simps) simp
  have found: ?case if "Scan_loop limitBytes k rdr buf cr = (rdr1, l0, r0, None)" "buf @ b = l0 @ CRLF @ r0" "\<not> has_delim l0" for l0 r0
  proof -
    have "l0 @ CRLF @ (r0 @ flow rdr1) = l @ CRLF @ rest" using all that(2) by simp
    then show ?thesis using delim_unique [OF _ that(3) 1(5)] that(1) rd(3) by blast
  qed
  show ?case
  proof (cases "cr \<and> hd b = LF")
    case True
    then show ?thesis using found [of "butlast buf" "tl b"] sc step(1) [OF True] by simp
  next
    case False
    show ?thesis
    proof (cases "split b")
      case None
      from 1(1) [OF lt rd(1) [symmetric] refl refl rd(2) False None rd(3) step(3) [OF False None] all 1(5-7)]
      show ?thesis using sc False None by simp
    next
      case (Some p)
      obtain l0 r0 where p: "p = (l0, r0)" by (cases p)
      then show ?thesis using found [of "buf @ l0" r0] sc False Some step(2) [OF False Some [unfolded p]] by simp
    qed
  qed
qed

lemma scanning_start: "split b = None \<Longrightarrow> scanning b (b \<noteq> [] \<and> last b = CR)"
  by (auto simp: scanning_def split_None)

lemma Scan_cases:
  "Scan rdr b limitBytes =
     (case split b of
        Some (left, right) \<Rightarrow> (rdr, left, right, None)
      | None \<Rightarrow> Scan_loop limitBytes (nat (min readBufferSizeBytes limitBytes)) rdr b (b \<noteq> [] \<and> last b = CR))"
proof (cases "b = []")
  case True
  have "split [] = None" by (simp add: split_None)
  with True show ?thesis by (simp add: Scan_def)
qed (simp add: Scan_def)

section \<open>Discarding\<close>



section \<open>Properties\<close>

text \<open>
  C12: a line is read the same way however the connection delivers its bytes, also when a read
  ends between the two characters of the delimiter: if the bytes left over from before and
  those still to come start with a line that fits the limit with its delimiter, \<^verbatim>\<open>Scan\<close>
  returns this line, and what it hands back together with what it did not read is the rest.
\<close>

theorem Scan_reads_line:
  assumes "steady rdr" and "b @ flow rdr = l @ CRLF @ rest" and "\<not> has_delim l" and "int (length l) + 2 \<le> limitBytes"
  shows "\<exists>rdr' r. Scan rdr b limitBytes = (rdr', l, r, None) \<and> r @ flow rdr' = rest \<and> steady rdr'"
proof (cases "split b")
  case None
  have "0 < nat (min readBufferSizeBytes limitBytes)" using assms(4) by (simp add: readBufferSizeBytes_def)
  then show ?thesis
    using Scan_loop_complete [OF assms(1) scanning_start [OF None] assms(2-4)] None by (simp add: Scan_cases)
next
  case (Some p)
  obtain l0 r0 where p: "p = (l0, r0)" by (cases p)
  then have b: "b = l0 @ CRLF @ r0" "\<not> has_delim l0" using Some by (simp_all add: split_iff)
  then have "l0 @ CRLF @ (r0 @ flow rdr) = l @ CRLF @ rest" using assms(2) by simp
  then show ?thesis using delim_unique [OF _ b(2) assms(3)] Some p assms(1) by (auto simp: Scan_cases)
qed

theorem Scan_reads_line_witness:
  "steady [(''us'', None), (''e t'' @ [CR], None), ([LF] @ ''de'', None)] \<and> \<not> has_delim ''use t'' \<and>
   (\<exists>rdr' r. Scan [(''us'', None), (''e t'' @ [CR], None), ([LF] @ ''de'', None)] [] 226 = (rdr', ''use t'', r, None) \<and>
      r @ flow rdr' = ''de'' \<and> steady rdr')"
proof -
  have h: "steady [(''us'', None), (''e t'' @ [CR], None), ([LF] @ ''de'', None)]" "\<not> has_delim ''use t''"
    by (simp_all add: steady_def)
  show ?thesis
    using Scan_reads_line [OF h(1) _ h(2), of "[]" "''de''" 226] h by (simp add: flow_def)
qed





end
