(* ===== verification/Cmd_Data.thy ===== *)
theory Cmd_Data
  imports Cmd_Parse
begin

text \<open>
  Commands and their arguments: \<^verbatim>\<open>beanstalkd/core/cmd_type.go\<close>, \<^verbatim>\<open>cmd_type_string.go\<close> and
  \<^verbatim>\<open>cmd_data.go\<close>. A command line is a word and its arguments; the arguments of every command
  have a regular expression, whose named groups are converted to numbers.
\<close>

section \<open>Command types\<close>

datatype CmdType = UnknownCmd | BuryCmd | DeleteCmd | IgnoreCmd | KickCmd | KickJobCmd | ListTubesCmd
  | ListTubeUserCmd | PauseTubeCmd | PeekCmd | PeekBuriedCmd | PeekDelayedCmd | PeekReadyCmd | PutCmd
  | QuitCmd | ReleaseCmd | ReserveCmd | ReserveJobCmd | ReserveWithTimeoutCmd | StatsCmd | StatsJobCmd
  | StatsTubeCmd | TouchCmd | UseCmd | WatchCmd | MaxCmd

text \<open>The constants in the order of \<^verbatim>\<open>iota\<close>.\<close>

definition CmdTypes :: "CmdType list" where
  "CmdTypes = [UnknownCmd, BuryCmd, DeleteCmd, IgnoreCmd, KickCmd, KickJobCmd, ListTubesCmd,
     ListTubeUserCmd, PauseTubeCmd, PeekCmd, PeekBuriedCmd, PeekDelayedCmd, PeekReadyCmd, PutCmd,
     QuitCmd, ReleaseCmd, ReserveCmd, ReserveJobCmd, ReserveWithTimeoutCmd, StatsCmd, StatsJobCmd,
     StatsTubeCmd, TouchCmd, UseCmd, WatchCmd, MaxCmd]"

definition CmdType_name :: string where
  "CmdType_name = ''UnknownBuryDeleteIgnoreKickKickJobListTubesListTubeUserPauseTubePeekPeekBuriedPeekDelayedPeekReadyPutQuitReleaseReserveReserveJobReserveWithTimeoutStatsStatsJobStatsTubeTouchUseWatchMax''"

definition CmdType_index :: "nat list" where
  "CmdType_index = [0, 7, 11, 17, 23, 27, 34, 43, 55, 64, 68, 78, 89, 98, 101, 105, 112, 119, 129, 147,
     152, 160, 169, 174, 177, 182, 185]"

text \<open>\<^verbatim>\<open>String\<close> of the command type with the value \<open>i\<close>, which is never negative here.\<close>

definition CmdType_String :: "nat \<Rightarrow> string" where
  "CmdType_String i =
     (if i \<ge> length CmdType_index - 1 then ''CmdType('' @ dec i @ '')''
      else drop (CmdType_index ! i) (take (CmdType_index ! Suc i) CmdType_name))"

text \<open>\<^verbatim>\<open>kebabCase\<close>, for names of ASCII characters as those of the command types.\<close>

definition isUpper :: "char \<Rightarrow> bool" where
  "isUpper c \<longleftrightarrow> 65 \<le> (of_char c :: nat) \<and> (of_char c :: nat) \<le> 90"

definition toLower :: "char \<Rightarrow> char" where
  "toLower c = (if isUpper c then char_of ((of_char c :: nat) + 32) else c)"

fun kebab_loop :: "nat \<Rightarrow> string \<Rightarrow> string" where
  "kebab_loop i [] = []"
| "kebab_loop i (ch # s) = (if isUpper ch \<and> i > 0 then ''-'' else []) @ toLower ch # kebab_loop (Suc i) s"

definition kebabCase :: "string \<Rightarrow> string" where
  "kebabCase s = kebab_loop 0 s"

definition commandTypeStrings :: "(string, CmdType) gomap" where
  "commandTypeStrings =
     foldl (\<lambda>m i. mput m (kebabCase (CmdType_String i)) (CmdTypes ! i)) [] [1..<length CmdTypes - 1]"

section \<open>Regular expressions of the arguments\<close>

text \<open>The class \<^verbatim>\<open>\s\<close>.\<close>

definition isSpace :: "char \<Rightarrow> bool" where
  "isSpace c \<longleftrightarrow> c = CHR '' '' \<or> c = CHR 0x09 \<or> c = CHR 0x0A \<or> c = CHR 0x0C \<or> c = CHR 0x0D"

definition isAlnum :: "char \<Rightarrow> bool" where
  "isAlnum c \<longleftrightarrow> (let n = (of_char c :: nat) in 97 \<le> n \<and> n \<le> 122 \<or> 65 \<le> n \<and> n \<le> 90 \<or> 48 \<le> n \<and> n \<le> 57)"

definition isTubeFirst :: "char \<Rightarrow> bool" where
  "isTubeFirst c \<longleftrightarrow> isAlnum c \<or> c \<in> set ''+/;.$_()''"

definition isTubeRest :: "char \<Rightarrow> bool" where
  "isTubeRest c \<longleftrightarrow> isTubeFirst c \<or> c = CHR ''-''"

abbreviation digits :: re where
  "digits \<equiv> Many1 (Cls isDigit)"

abbreviation blank :: re where
  "blank \<equiv> Lit (CHR '' '')"

definition spaceRe :: re where
  "spaceRe = Alt (Seq (Cls isSpace) (Many1 (Cls isSpace))) (Seq (Many1 (Cls isSpace)) (Alt Bol Eol))"

definition splitRe :: re where
  "splitRe = Cls isSpace"

definition putRe :: re where
  "putRe = Seq Bol (Seq (Grp ''pri'' digits) (Seq blank (Seq (Grp ''delay'' digits) (Seq blank
     (Seq (Grp ''ttr'' digits) (Seq blank (Seq (Grp ''bytes'' digits) Eol)))))))"

definition tubeArgRe :: re where
  "tubeArgRe = Grp ''tube'' (Seq Bol (Seq (Cls isTubeFirst) (Seq (Upto (Some 199) (Cls isTubeRest)) Eol)))"

definition idArgRe :: re where
  "idArgRe = Grp ''id'' (Seq Bol (Seq digits Eol))"

definition reserveWithTimeoutRe :: re where
  "reserveWithTimeoutRe = Grp ''seconds'' (Seq Bol (Seq digits Eol))"

definition buryArgRe :: re where
  "buryArgRe = Seq Bol (Seq (Grp ''id'' (Seq Bol digits)) (Seq blank (Seq (Grp ''pri'' digits) Eol)))"

definition kickNArgRe :: re where
  "kickNArgRe = Grp ''bound'' (Seq Bol (Seq digits Eol))"

definition releaseArgRe :: re where
  "releaseArgRe = Seq Bol (Seq (Grp ''id'' (Seq Bol digits)) (Seq blank (Seq (Grp ''pri'' digits)
     (Seq blank (Seq (Grp ''delay'' digits) Eol)))))"

section \<open>Arguments\<close>

type_synonym tokenMap = "(string, string) gomap"

definition matchNamedGroups :: "string \<Rightarrow> re \<Rightarrow> tokenMap option" where
  "matchNamedGroups args r =
     (if \<not> MatchString r args then None
      else Some (foldl (\<lambda>res e. foldl (\<lambda>res (name, f). mput res name f) res e) [] (FindAllStringSubmatch r args)))"

text \<open>\<^verbatim>\<open>tm[name]\<close>, the empty string if there is no such name.\<close>

definition tok :: "tokenMap \<Rightarrow> string \<Rightarrow> string" where
  "tok tm name = (case mget tm name of None \<Rightarrow> [] | Some f \<Rightarrow> f)"

record CmdData =
  cd_CmdType :: CmdType
  cd_Args :: string
  cd_Data :: bytes
  cd_NeedData :: bool

record putArg =
  pa_pri :: uint32
  pa_delay :: int64
  pa_ttr :: int
  pa_size :: int
  pa_data :: bytes

definition NewPutArg :: "CmdData \<Rightarrow> core_error + putArg" where
  "NewPutArg data =
     (case matchNamedGroups (cd_Args data) putRe of
        None \<Rightarrow> Inl ErrBadFormat
      | Some tm \<Rightarrow>
     (case ParseUint (tok tm ''pri'') 32 of
        None \<Rightarrow> Inl ErrBadFormat
      | Some pri \<Rightarrow>
     (case ParseInt (tok tm ''delay'') 64 of
        None \<Rightarrow> Inl ErrBadFormat
      | Some delay \<Rightarrow>
     (case Atoi (tok tm ''ttr'') of
        None \<Rightarrow> Inl ErrBadFormat
      | Some ttr \<Rightarrow>
     (case Atoi (tok tm ''bytes'') of
        None \<Rightarrow> Inl ErrBadFormat
      | Some bytes \<Rightarrow>
          Inr \<lparr>pa_pri = of_nat pri, pa_delay = delay, pa_ttr = ttr, pa_size = bytes, pa_data = cd_Data data\<rparr>)))))"

definition NewTubeArg :: "CmdData \<Rightarrow> core_error + string" where
  "NewTubeArg data =
     (case matchNamedGroups (cd_Args data) tubeArgRe of
        None \<Rightarrow> Inl ErrBadFormat
      | Some tm \<Rightarrow> Inr (tok tm ''tube''))"

definition NewIDArg :: "CmdData \<Rightarrow> core_error + uint64" where
  "NewIDArg data =
     (case matchNamedGroups (cd_Args data) idArgRe of
        None \<Rightarrow> Inl ErrBadFormat
      | Some tm \<Rightarrow>
     (case ParseUint (tok tm ''id'') 64 of
        None \<Rightarrow> Inl ErrBadFormat
      | Some i \<Rightarrow> Inr (of_nat i)))"

definition NewReserveWithTimeoutArg :: "CmdData \<Rightarrow> core_error + int" where
  "NewReserveWithTimeoutArg data =
     (case matchNamedGroups (cd_Args data) reserveWithTimeoutRe of
        None \<Rightarrow> Inl ErrBadFormat
      | Some tm \<Rightarrow>
     (case Atoi (tok tm ''seconds'') of
        None \<Rightarrow> Inl ErrBadFormat
      | Some timeoutSeconds \<Rightarrow> Inr timeoutSeconds))"

record buryArg =
  ba_id :: uint64
  ba_pri :: uint32

definition NewBuryArg :: "CmdData \<Rightarrow> core_error + buryArg" where
  "NewBuryArg data =
     (case matchNamedGroups (cd_Args data) buryArgRe of
        None \<Rightarrow> Inl ErrBadFormat
      | Some tm \<Rightarrow>
     (case ParseUint (tok tm ''id'') 64 of
        None \<Rightarrow> Inl ErrBadFormat
      | Some i \<Rightarrow>
     (case ParseUint (tok tm ''pri'') 32 of
        None \<Rightarrow> Inl ErrBadFormat
      | Some pri \<Rightarrow> Inr \<lparr>ba_id = of_nat i, ba_pri = of_nat pri\<rparr>)))"

definition NewKickNArg :: "CmdData \<Rightarrow> core_error + int" where
  "NewKickNArg data =
     (case matchNamedGroups (cd_Args data) kickNArgRe of
        None \<Rightarrow> Inl ErrBadFormat
      | Some tm \<Rightarrow>
     (case Atoi (tok tm ''bound'') of
        None \<Rightarrow> Inl ErrBadFormat
      | Some bound \<Rightarrow> Inr bound))"

record releaseArg =
  ra_id :: uint64
  ra_pri :: uint32
  ra_delay :: int64

definition NewReleaseArg :: "CmdData \<Rightarrow> core_error + releaseArg" where
  "NewReleaseArg data =
     (case matchNamedGroups (cd_Args data) releaseArgRe of
        None \<Rightarrow> Inl ErrBadFormat
      | Some tm \<Rightarrow>
     (case ParseUint (tok tm ''id'') 64 of
        None \<Rightarrow> Inl ErrBadFormat
      | Some i \<Rightarrow>
     (case ParseUint (tok tm ''pri'') 32 of
        None \<Rightarrow> Inl ErrBadFormat
      | Some pri \<Rightarrow>
     (case ParseInt (tok tm ''delay'') 64 of
        None \<Rightarrow> Inl ErrBadFormat
      | Some delay \<Rightarrow> Inr \<lparr>ra_id = of_nat i, ra_pri = of_nat pri, ra_delay = delay\<rparr>))))"

section \<open>Command lines\<close>

definition ParseCommandLine :: "string \<Rightarrow> int \<Rightarrow> core_error + CmdData" where
  "ParseCommandLine cmdLine maxJobDataSizeBytes =
     (let s = ReplaceAllLiteralString spaceRe cmdLine [];
          tokens = Split2 splitRe s
      in if tokens = [] \<or> tokens = [[]] then Inl ErrCmdTokensMissing
         else (case mget commandTypeStrings (tokens ! 0) of
                 None \<Rightarrow> Inl ErrCmdNotFound
               | Some c \<Rightarrow>
                   let args = (if length tokens = 2 then tokens ! 1 else []);
                       cd = \<lparr>cd_CmdType = c, cd_Args = args, cd_Data = [], cd_NeedData = False\<rparr>
                   in if c = PutCmd
                      then (let cd = cd\<lparr>cd_Data := [], cd_NeedData := True\<rparr>
                            in case NewPutArg cd of
                                 Inl err \<Rightarrow> Inl err
                               | Inr arg \<Rightarrow>
                                   if pa_size arg > maxJobDataSizeBytes then Inl ErrJobSizeTooBig else Inr cd)
                      else Inr cd))"

section \<open>The words of the commands\<close>

lemma commandTypeStrings_eq:
  "commandTypeStrings =
     [(''bury'', BuryCmd), (''delete'', DeleteCmd), (''ignore'', IgnoreCmd), (''kick'', KickCmd),
      (''kick-job'', KickJobCmd), (''list-tubes'', ListTubesCmd), (''list-tube-user'', ListTubeUserCmd),
      (''pause-tube'', PauseTubeCmd), (''peek'', PeekCmd), (''peek-buried'', PeekBuriedCmd),
      (''peek-delayed'', PeekDelayedCmd), (''peek-ready'', PeekReadyCmd), (''put'', PutCmd), (''quit'', QuitCmd),
      (''release'', ReleaseCmd), (''reserve'', ReserveCmd), (''reserve-job'', ReserveJobCmd),
      (''reserve-with-timeout'', ReserveWithTimeoutCmd), (''stats'', StatsCmd), (''stats-job'', StatsJobCmd),
      (''stats-tube'', StatsTubeCmd), (''touch'', TouchCmd), (''use'', UseCmd), (''watch'', WatchCmd)]"
  by code_simp

text \<open>No word has a blank or a digit.\<close>

definition is_word :: "string \<Rightarrow> bool" where
  "is_word w \<longleftrightarrow> list_all (\<lambda>c. \<not> isSpace c \<and> \<not> isDigit c) w"

lemma command_is_word: "mget commandTypeStrings w = Some c \<Longrightarrow> is_word w"
  unfolding commandTypeStrings_eq
  by (auto simp: is_word_def isSpace_def isDigit_def split: if_splits)

section \<open>Fields of digits\<close>





lemma matchNamedGroups_anchored:
  assumes "\<And>s'. length s' < length s \<Longrightarrow> ends r (length s) s' = []" and "ends r (length s) s = [(c, [])]" and "s \<noteq> []"
  shows "matchNamedGroups s r = Some (foldl (\<lambda>res (name, f). mput res name f) [] c)"
proof -
  have f: "find_match r (length s) s = Some ([], c, [])"
    using find_anchored [of "length s" r s] assms(1,2) by simp
  have "find_match r (length s) [] = None" using assms(1) [of "[]"] assms(3) by simp
  then have "find_all r (length s) [] = []" by (subst find_all.simps) simp
  then have "find_all r (length s) s = [([], c, [])]" using f assms(3) by (subst find_all.simps) simp
  then show ?thesis using f by (simp add: matchNamedGroups_def MatchString_def FindAllStringSubmatch_def)
qed

section \<open>Blanks\<close>

text \<open>No two blanks next to each other and none at the end.\<close>

fun tidy :: "string \<Rightarrow> bool" where
  "tidy [] = True"
| "tidy [c] = (\<not> isSpace c)"
| "tidy (c # d # s) = ((\<not> isSpace c \<or> \<not> isSpace d) \<and> tidy (d # s))"

lemma tidy_no_space: "\<forall>c \<in> set s. \<not> isSpace c \<Longrightarrow> tidy s"
  by (induction s rule: tidy.induct) auto


lemma tidy_field:
  assumes "\<forall>c \<in> set d. \<not> isSpace c" and "s \<noteq> []" and "\<not> isSpace (hd s)" and "tidy s"
  shows "tidy (d @ CHR '' '' # s)"
  using assms(1)
proof (induction d rule: tidy.induct)
  case 1
  then show ?case using assms(2-) by (cases s) auto
next
  case (2 c)
  then show ?case using assms(2-) by (cases s) auto
qed simp

lemma tidy_ends:
  assumes "tidy s" and "length s \<le> n"
  shows "ends spaceRe n s = []"
proof (cases s)
  case (Cons c s')
  show ?thesis
  proof (cases "isSpace c")
    case True
    then obtain d u where s': "s' = d # u" "\<not> isSpace d" using assms(1) Cons by (cases s') auto
    then have "takeWhile isSpace s = [c]" using Cons True by simp
    then have "ends (Many1 (Cls isSpace)) n s = [([], s')]" unfolding ends_Many1_Cls by (simp add: Cons)
    moreover have "ends (Many1 (Cls isSpace)) n s' = []" unfolding ends_Many1_Cls using s' by simp
    moreover have "length s' \<noteq> n" using assms(2) Cons by simp
    ultimately show ?thesis
      unfolding spaceRe_def ends.simps(3) [of "Seq (Cls isSpace) (Many1 (Cls isSpace))"]
        ends.simps(2) [of "Cls isSpace" "Many1 (Cls isSpace)"] ends.simps(2) [of "Many1 (Cls isSpace)" "Alt Bol Eol"]
      using Cons s' by (simp del: ends.simps(2,4) add: ends.simps(1,3,5,6))
  qed (simp add: Cons spaceRe_def)
qed (simp add: spaceRe_def)

lemma tidy_find: "tidy s \<Longrightarrow> length s \<le> n \<Longrightarrow> find_match spaceRe n s = None"
proof (induction s)
  case (Cons c s)
  have "tidy s" using Cons.prems(1) by (cases s) auto
  then show ?case using Cons tidy_ends [OF Cons.prems] by simp
qed (use tidy_ends [of "[]" n] in simp)

lemma tidy_unchanged:
  assumes "tidy s"
  shows "ReplaceAllLiteralString spaceRe s [] = s"
proof -
  have "find_match spaceRe (length s) s = None" using tidy_find [OF assms] by simp
  then show ?thesis unfolding ReplaceAllLiteralString_def by (subst replace_from.simps) simp
qed

lemma Split2_word:
  assumes "\<forall>c \<in> set w. \<not> isSpace c"
  shows "Split2 splitRe (w @ CHR '' '' # s) = [w, s]"
proof -
  have "find_match splitRe n (w @ CHR '' '' # s) = Some (w, [], s)" for n
    using assms by (induction w) (simp_all add: splitRe_def isSpace_def)
  then show ?thesis by (simp add: Split2_def)
qed

lemma dec_no_space: "\<forall>c \<in> set (dec n). \<not> isSpace c"
  using dec_digits [of n] by (auto simp: list_all_iff isDigit_def isSpace_def)

lemma hd_dec_no_space: "\<not> isSpace (hd (dec n @ s))"
  using dec_no_space [of n] dec_digits [of n] by (cases "dec n") auto

section \<open>A command with an id\<close>

lemma id_line_tidy: "\<forall>c \<in> set w. \<not> isSpace c \<Longrightarrow> tidy (w @ '' '' @ dec n)"
  using tidy_field [of w "dec n"] hd_dec_no_space [of n "[]"] dec_digits [of n] tidy_no_space [OF dec_no_space]
  by simp

lemma Split2_none: "\<forall>c \<in> set s. \<not> isSpace c \<Longrightarrow> Split2 splitRe s = [s]"
proof -
  assume "\<forall>c \<in> set s. \<not> isSpace c"
  then have "find_match splitRe n s = None" for n by (induction s) (simp_all add: splitRe_def)
  then show ?thesis by (simp add: Split2_def)
qed

lemma two_blanks_removed:
  assumes "\<forall>c \<in> set w. \<not> isSpace c"
  shows "ReplaceAllLiteralString spaceRe (w @ ''  '' @ dec n) [] = w @ dec n"
proof -
  have sp: "isSpace (CHR '' '')" by (simp add: isSpace_def)
  have d: "takeWhile isSpace (dec n) = []" using dec_no_space [of n] by (cases "dec n") auto
  have "takeWhile isSpace (CHR '' '' # dec n) = '' ''" using sp d by simp
  then have m: "ends (Many1 (Cls isSpace)) k (CHR '' '' # dec n) = [([], dec n)]" for k
    unfolding ends_Many1_Cls by simp
  have e: "ends spaceRe k (''  '' @ dec n) = ([], dec n) # ends (Seq (Many1 (Cls isSpace)) (Alt Bol Eol)) k (''  '' @ dec n)" for k
    unfolding spaceRe_def ends.simps(3) [of "Seq (Cls isSpace) (Many1 (Cls isSpace))"]
      ends.simps(2) [of "Cls isSpace" "Many1 (Cls isSpace)"] ends.simps(1) using m sp by simp
  have f: "find_match spaceRe k (w @ ''  '' @ dec n) = Some (w, [], dec n)" for k
    using assms
  proof (induction w)
    case Nil
    then show ?case using e [of k] by simp
  next
    case (Cons c w)
    then have "ends spaceRe k (c # w @ ''  '' @ dec n) = []" by (simp add: spaceRe_def)
    then show ?case using Cons by simp
  qed
  have "find_match spaceRe (length (w @ ''  '' @ dec n)) (dec n) = None"
    by (rule tidy_find) (use tidy_no_space [OF dec_no_space] in auto)
  then have "replace_from spaceRe (length (w @ ''  '' @ dec n)) [] (dec n) = dec n" by (subst replace_from.simps) simp
  then show ?thesis unfolding ReplaceAllLiteralString_def by (subst replace_from.simps) (simp add: f [simplified])
qed

lemma ends_digits_end:
  assumes "list_all isDigit d" and "d \<noteq> []"
  shows "ends (Seq digits Eol) n d = [([], [])]"
proof -
  have t: "takeWhile isDigit d = d" using assms(1) by (simp add: list_all_iff)
  have "rev [1..<Suc (length d)] = length d # rev [1..<length d]" using assms(2) by (simp add: Suc_le_eq)
  then have "ends digits n d = ([], []) # map (\<lambda>i. ([], drop i d)) (rev [1..<length d])"
    unfolding ends_Many1_Cls t by simp
  then show ?thesis unfolding ends.simps(2) [of digits Eol] by (simp add: concat_eq_Nil_conv del: ends.simps(2,4))
qed

lemma matchNamedGroups_id: "matchNamedGroups (dec n) idArgRe = Some [(''id'', dec n)]"
proof -
  note dg = dec_digits [of n, THEN conjunct1] dec_digits [of n, THEN conjunct2]
  have e: "ends idArgRe (length (dec n)) (dec n) = [([(''id'', dec n)], [])]"
    unfolding idArgRe_def ends.simps(7) ends.simps(2) [of Bol] ends.simps(5) by (simp add: ends_digits_end [OF dg] del: ends.simps)
  have "ends idArgRe (length (dec n)) s' = []" if "length s' < length (dec n)" for s'
    unfolding idArgRe_def ends.simps(7) using ends_anchored [of s'] that by simp
  then show ?thesis using matchNamedGroups_anchored [OF _ e dg(2)] by simp
qed

section \<open>The put command\<close>





section \<open>Properties\<close>


text \<open>
  C36: every command that takes the id of a job, written with one blank before a decimal
  number, is parsed, and its argument is that number if it fits 64 bits. With a second blank
  the command is not found: both blanks are removed and the number becomes part of the word.
\<close>

theorem id_line_parsed:
  assumes "mget commandTypeStrings w = Some c" and "c \<noteq> PutCmd"
  shows "ParseCommandLine (w @ '' '' @ dec n) maxSize =
           Inr \<lparr>cd_CmdType = c, cd_Args = dec n, cd_Data = [], cd_NeedData = False\<rparr> \<and>
         NewIDArg \<lparr>cd_CmdType = c, cd_Args = dec n, cd_Data = [], cd_NeedData = False\<rparr> =
           (if n < 2 ^ 64 then Inr (of_nat n) else Inl ErrBadFormat) \<and>
         ParseCommandLine (w @ ''  '' @ dec n) maxSize = Inl ErrCmdNotFound"
proof (intro conjI)
  have w: "\<forall>c \<in> set w. \<not> isSpace c" "\<forall>c \<in> set w. \<not> isDigit c"
    using command_is_word [OF assms(1)] by (auto simp: is_word_def list_all_iff)
  have sp: "Split2 splitRe (w @ '' '' @ dec n) = [w, dec n]" using Split2_word [OF w(1)] by simp
  show "ParseCommandLine (w @ '' '' @ dec n) maxSize = Inr \<lparr>cd_CmdType = c, cd_Args = dec n, cd_Data = [], cd_NeedData = False\<rparr>"
    unfolding ParseCommandLine_def tidy_unchanged [OF id_line_tidy [OF w(1)]] sp Let_def using assms by simp
  show "NewIDArg \<lparr>cd_CmdType = c, cd_Args = dec n, cd_Data = [], cd_NeedData = False\<rparr> =
      (if n < 2 ^ 64 then Inr (of_nat n) else Inl ErrBadFormat)"
    by (simp add: NewIDArg_def matchNamedGroups_id tok_def ParseUint_dec)
  have sp2: "Split2 splitRe (w @ dec n) = [w @ dec n]"
    by (rule Split2_none) (use w(1) dec_no_space in auto)
  have "mget commandTypeStrings (w @ dec n) = None"
  proof (cases "mget commandTypeStrings (w @ dec n)")
    case (Some c')
    then show ?thesis using command_is_word [OF Some] dec_digits [of n] by (cases "dec n") (auto simp: is_word_def)
  qed
  then show "ParseCommandLine (w @ ''  '' @ dec n) maxSize = Inl ErrCmdNotFound"
    unfolding ParseCommandLine_def two_blanks_removed [OF w(1)] sp2 Let_def using dec_digits [of n] by simp
qed

theorem id_line_parsed_witness:
  "mget commandTypeStrings ''delete'' = Some DeleteCmd \<and>
   ParseCommandLine (''delete'' @ '' '' @ dec 5) 10 = Inr \<lparr>cd_CmdType = DeleteCmd, cd_Args = dec 5, cd_Data = [], cd_NeedData = False\<rparr> \<and>
   ParseCommandLine (''delete'' @ ''  '' @ dec 5) 10 = Inl ErrCmdNotFound"
proof -
  have w: "mget commandTypeStrings ''delete'' = Some DeleteCmd" by (simp add: commandTypeStrings_eq)
  show ?thesis using id_line_parsed [OF w, of 5 10] w by blast
qed

end
