(* ===== verification/Cmd_Proc.thy ===== *)
theory Cmd_Proc
  imports Cmd_Data FSM_Correct
begin

text \<open>
  The command processor of the beanstalkd front end: \<^verbatim>\<open>beanstalkd/core/client.go\<close> and
  \<^verbatim>\<open>cmd_proc.go\<close>. It has the connected clients, and carries out their commands on a job state
  machine, which it knows only by the interface \<^verbatim>\<open>state.JSM\<close>. What is sent on the response
  channel of a client is the list of responses that a step returns; \<open>None\<close> is a panic.
\<close>

section \<open>Clients\<close>

type_synonym tubeSet = "(TubeName, bool) gomap"

definition newTubeSet :: tubeSet where
  "newTubeSet = []"

definition tubeSet_Set :: "tubeSet \<Rightarrow> TubeName \<Rightarrow> tubeSet \<times> error option" where
  "tubeSet_Set t name = (if mget t name \<noteq> None then (t, Some ErrEntryExists) else (mput t name True, None))"

definition tubeSet_Remove :: "tubeSet \<Rightarrow> TubeName \<Rightarrow> tubeSet \<times> error option" where
  "tubeSet_Remove t name = (if mget t name = None then (t, Some ErrEntryMissing) else (mdel t name, None))"

definition tubeSet_Len :: "tubeSet \<Rightarrow> nat" where
  "tubeSet_Len t = length t"

record client =
  cl_id :: ClientID
  cl_useTube :: TubeName
  cl_watchingTubes :: tubeSet

definition defaultTubeName :: TubeName where
  "defaultTubeName = ''default''"

text \<open>The id comes from the package \<^verbatim>\<open>uuid\<close>.\<close>

definition NewClient :: "ClientID \<Rightarrow> TubeName \<Rightarrow> client option" where
  "NewClient uid useTube =
     (case tubeSet_Set newTubeSet defaultTubeName of
        (ts, Some err) \<Rightarrow> None
      | (ts, None) \<Rightarrow> Some \<lparr>cl_id = uid, cl_useTube = useTube, cl_watchingTubes = ts\<rparr>)"

type_synonym ClientSet = "(ClientID, client) gomap"

definition ClientSet_Contains :: "ClientSet \<Rightarrow> client \<Rightarrow> bool" where
  "ClientSet_Contains cs c = (mget cs (cl_id c) \<noteq> None)"

definition ClientSet_Set :: "ClientSet \<Rightarrow> client \<Rightarrow> ClientSet \<times> error option" where
  "ClientSet_Set cs c =
     (if ClientSet_Contains cs c then (cs, Some ErrEntryExists) else (mput cs (cl_id c) c, None))"

definition ClientSet_Remove :: "ClientSet \<Rightarrow> client \<Rightarrow> ClientSet \<times> error option" where
  "ClientSet_Remove cs c =
     (if \<not> ClientSet_Contains cs c then (cs, Some ErrEntryMissing) else (mdel cs (cl_id c), None))"

definition ClientSet_Find :: "ClientSet \<Rightarrow> ClientID \<Rightarrow> error + client" where
  "ClientSet_Find cs i = (case mget cs i of None \<Rightarrow> Inl ErrEntryMissing | Some cli \<Rightarrow> Inr cli)"

definition ClientSet_Len :: "ClientSet \<Rightarrow> nat" where
  "ClientSet_Len cs = length cs"

text \<open>The first entry that the loop over the map meets; \<open>ord\<close> is its order.\<close>

definition ClientSet_Random :: "ClientSet \<Rightarrow> ClientID list \<Rightarrow> error + client" where
  "ClientSet_Random cs ord =
     (case List.map_filter (mget cs) ord of [] \<Rightarrow> Inl ErrContainerEmpty | v # _ \<Rightarrow> Inr v)"

section \<open>Requests and responses\<close>

datatype cmd_arg = PutArg putArg | TubeArg TubeName | IdArg JobID | ReserveWithTimeoutArg int
  | BuryArg buryArg | KickNArg int | ReleaseArg releaseArg

record CmdRequest =
  rq_ID :: string
  rq_ClientID :: ClientID
  rq_CmdType :: CmdType
  rq_cmd :: "cmd_arg option"

definition cmd_of :: "('a \<Rightarrow> cmd_arg) \<Rightarrow> core_error + 'a \<Rightarrow> cmd_arg option \<times> core_error option" where
  "cmd_of f r = (case r of Inl err \<Rightarrow> (None, Some err) | Inr a \<Rightarrow> (Some (f a), None))"

definition NewCmdRequest :: "string \<Rightarrow> CmdData \<Rightarrow> ClientID \<Rightarrow> CmdRequest \<times> core_error option" where
  "NewCmdRequest uid cmdData i =
     (let (cmd, err) =
        (case cd_CmdType cmdData of
           BuryCmd \<Rightarrow> cmd_of BuryArg (NewBuryArg cmdData)
         | DeleteCmd \<Rightarrow> cmd_of IdArg (NewIDArg cmdData)
         | KickJobCmd \<Rightarrow> cmd_of IdArg (NewIDArg cmdData)
         | KickCmd \<Rightarrow> cmd_of KickNArg (NewKickNArg cmdData)
         | PutCmd \<Rightarrow> cmd_of PutArg (NewPutArg cmdData)
         | PeekCmd \<Rightarrow> cmd_of IdArg (NewIDArg cmdData)
         | IgnoreCmd \<Rightarrow> cmd_of TubeArg (NewTubeArg cmdData)
         | UseCmd \<Rightarrow> cmd_of TubeArg (NewTubeArg cmdData)
         | WatchCmd \<Rightarrow> cmd_of TubeArg (NewTubeArg cmdData)
         | ReleaseCmd \<Rightarrow> cmd_of ReleaseArg (NewReleaseArg cmdData)
         | ReserveWithTimeoutCmd \<Rightarrow> cmd_of ReserveWithTimeoutArg (NewReserveWithTimeoutArg cmdData)
         | TouchCmd \<Rightarrow> cmd_of IdArg (NewIDArg cmdData)
         | StatsJobCmd \<Rightarrow> cmd_of IdArg (NewIDArg cmdData)
         | StatsTubeCmd \<Rightarrow> cmd_of TubeArg (NewTubeArg cmdData)
         | ListTubesCmd \<Rightarrow> (None, None)
         | PeekReadyCmd \<Rightarrow> (None, None)
         | PeekDelayedCmd \<Rightarrow> (None, None)
         | PeekBuriedCmd \<Rightarrow> (None, None)
         | QuitCmd \<Rightarrow> (None, None)
         | ReserveCmd \<Rightarrow> (None, None)
         | StatsCmd \<Rightarrow> (None, None)
         | _ \<Rightarrow> (None, Some ErrCmdNotFound))
      in (\<lparr>rq_ID = uid, rq_ClientID = i, rq_CmdType = cd_CmdType cmdData, rq_cmd = cmd\<rparr>, err))"

record CmdResponse =
  rsp_RequestID :: string
  rsp_ClientID :: ClientID
  rsp_Response :: "bytes option"
  rsp_HasMore :: bool

definition NewCmdResponseFromReq :: "CmdRequest \<Rightarrow> CmdResponse" where
  "NewCmdResponseFromReq req =
     \<lparr>rsp_RequestID = rq_ID req, rsp_ClientID = rq_ClientID req, rsp_Response = None, rsp_HasMore = False\<rparr>"

definition setResponse :: "CmdResponse \<Rightarrow> string \<Rightarrow> CmdResponse" where
  "setResponse c s = c\<lparr>rsp_Response := Some s\<rparr>"

definition sendCmdResponse :: "string \<Rightarrow> client \<Rightarrow> bytes option \<Rightarrow> bool \<Rightarrow> CmdResponse" where
  "sendCmdResponse reqID cli b hasMore =
     \<lparr>rsp_RequestID = reqID, rsp_ClientID = cl_id cli, rsp_Response = b, rsp_HasMore = hasMore\<rparr>"

definition MsgInternalError :: string where "MsgInternalError = ''INTERNAL_ERROR''"
definition MsgBadFormat :: string where "MsgBadFormat = ''BAD_FORMAT''"
definition MsgUnknownCommand :: string where "MsgUnknownCommand = ''UNKNOWN_COMMAND''"
definition MsgCannotIgnoreTube :: string where "MsgCannotIgnoreTube = ''NOT_IGNORED''"
definition MsgTimedOut :: string where "MsgTimedOut = ''TIMED_OUT''"
definition MsgDeadlineSoon :: string where "MsgDeadlineSoon = ''DEADLINE_SOON''"
definition MsgNotFound :: string where "MsgNotFound = ''NOT_FOUND''"
definition MsgJobTooBig :: string where "MsgJobTooBig = ''JOB_TOO_BIG''"
definition MsgExpectCRLF :: string where "MsgExpectCRLF = ''EXPECTED_CRLF''"

section \<open>The interface of the job state machine\<close>

text \<open>
  The methods of \<^verbatim>\<open>state.JSM\<close> that the command processor calls, on a state and with errors of
  any type.
\<close>

record ('s, 'e) JSM =
  J_Put :: "'s \<Rightarrow> int64 \<Rightarrow> uint32 \<Rightarrow> int64 \<Rightarrow> int \<Rightarrow> int \<Rightarrow> bytes \<Rightarrow> TubeName \<Rightarrow> ('s, 'e, JobID) outcome"
  J_Bury :: "'s \<Rightarrow> int64 \<Rightarrow> JobID \<Rightarrow> uint32 \<Rightarrow> ClientID \<Rightarrow> ('s, 'e, unit) outcome"
  J_Delete :: "'s \<Rightarrow> JobID \<Rightarrow> ClientID \<Rightarrow> ('s, 'e, unit) outcome"
  J_Kick :: "'s \<Rightarrow> JobID \<Rightarrow> ('s, 'e, unit) outcome"
  J_KickN :: "'s \<Rightarrow> TubeName \<Rightarrow> int \<Rightarrow> ('s, 'e, int) outcome"
  J_GetTubes :: "'s \<Rightarrow> ('s, 'e, TubeName list) outcome"
  J_GetJob :: "'s \<Rightarrow> JobID \<Rightarrow> ('s, 'e, Job) outcome"
  J_PeekBuriedJob :: "'s \<Rightarrow> TubeName \<Rightarrow> ('s, 'e, Job) outcome"
  J_PeekDelayedJob :: "'s \<Rightarrow> TubeName \<Rightarrow> ('s, 'e, Job) outcome"
  J_PeekReadyJob :: "'s \<Rightarrow> TubeName \<Rightarrow> ('s, 'e, Job) outcome"
  J_ReleaseWith :: "'s \<Rightarrow> int64 \<Rightarrow> JobID \<Rightarrow> ClientID \<Rightarrow> uint32 \<Rightarrow> int64 \<Rightarrow> ('s, 'e, unit) outcome"
  J_GetStatsJobAsYaml :: "'s \<Rightarrow> int64 \<Rightarrow> JobID \<Rightarrow> ('s, 'e, bytes) outcome"
  J_GetStatsTubeAsYaml :: "'s \<Rightarrow> int64 \<Rightarrow> TubeName \<Rightarrow> ('s, 'e, bytes) outcome"
  J_GetStatsAsYaml :: "'s \<Rightarrow> int64 \<Rightarrow> ('s, 'e, bytes) outcome"
  J_Touch :: "'s \<Rightarrow> int64 \<Rightarrow> JobID \<Rightarrow> ClientID \<Rightarrow> ('s, 'e, unit) outcome"
  J_AppendReservation :: "'s \<Rightarrow> ClientID \<Rightarrow> string \<Rightarrow> TubeName list \<Rightarrow> int64 \<Rightarrow> int64 \<Rightarrow> ('s, 'e, Reservation) outcome"
  J_Tick :: "'s \<Rightarrow> int64 \<Rightarrow> ('s, 'e, Reservation list) outcome"
  J_Stop :: "'s \<Rightarrow> ('s, 'e, unit) outcome"

section \<open>The processor\<close>

record 's cmdProcessor =
  p_clients :: ClientSet
  p_jsm :: 's
  p_maxJobSizeBytes :: int
  p_maxReserveTimeoutSecs :: int

definition NewCommandProcessor :: "'s \<Rightarrow> int \<Rightarrow> int \<Rightarrow> 's cmdProcessor" where
  "NewCommandProcessor jsm maxJobSize maxReservationTimeout =
     \<lparr>p_clients = [], p_jsm = jsm, p_maxJobSizeBytes = maxJobSize, p_maxReserveTimeoutSecs = maxReservationTimeout\<rparr>"

definition MaxJobDataSize :: "'s cmdProcessor \<Rightarrow> int" where
  "MaxJobDataSize c = p_maxJobSizeBytes c"

text \<open>
  A handler returns the processor, what it has sent to the client itself, and the response
  that \<^verbatim>\<open>processRequest\<close> is to send.
\<close>

type_synonym 's handled = "('s cmdProcessor \<times> CmdResponse list \<times> CmdResponse option) option"

definition respond :: "'s cmdProcessor \<Rightarrow> CmdRequest \<Rightarrow> string \<Rightarrow> 's handled" where
  "respond c req s = Some (c, [], Some (setResponse (NewCmdResponseFromReq req) s))"

text \<open>A call of a method, with what to do on an error and on success.\<close>

definition call ::
    "'s cmdProcessor \<Rightarrow> ('s, 'e, 'a) outcome \<Rightarrow> ('s cmdProcessor \<Rightarrow> 's handled) \<Rightarrow> ('s cmdProcessor \<Rightarrow> 'a \<Rightarrow> 's handled) \<Rightarrow> 's handled" where
  "call c r onErr onOk =
     (case r of
        None \<Rightarrow> None
      | Some (s, Inl err) \<Rightarrow> onErr (c\<lparr>p_jsm := s\<rparr>)
      | Some (s, Inr a) \<Rightarrow> onOk (c\<lparr>p_jsm := s\<rparr>) a)"

definition put_cmd :: "('s, 'e) JSM \<Rightarrow> int64 \<Rightarrow> 's cmdProcessor \<Rightarrow> client \<Rightarrow> CmdRequest \<Rightarrow> 's handled" where
  "put_cmd J now c cli req =
     (case rq_cmd req of
        Some (PutArg cmd) \<Rightarrow>
          call c (J_Put J (p_jsm c) now (pa_pri cmd) (pa_delay cmd) (pa_ttr cmd) (pa_size cmd) (pa_data cmd) (cl_useTube cli))
            (\<lambda>c. respond c req MsgInternalError)
            (\<lambda>c newJobID. respond c req (''INSERTED '' @ dec (unat newJobID)))
      | _ \<Rightarrow> None)"

definition bury_cmd :: "('s, 'e) JSM \<Rightarrow> int64 \<Rightarrow> 's cmdProcessor \<Rightarrow> client \<Rightarrow> CmdRequest \<Rightarrow> 's handled" where
  "bury_cmd J now c cli req =
     (case rq_cmd req of
        Some (BuryArg cmd) \<Rightarrow>
          call c (J_Bury J (p_jsm c) now (ba_id cmd) (ba_pri cmd) (cl_id cli))
            (\<lambda>c. respond c req MsgNotFound) (\<lambda>c _. respond c req ''BURIED'')
      | _ \<Rightarrow> None)"

definition delete_cmd :: "('s, 'e) JSM \<Rightarrow> 's cmdProcessor \<Rightarrow> client \<Rightarrow> CmdRequest \<Rightarrow> 's handled" where
  "delete_cmd J c cli req =
     (case rq_cmd req of
        Some (IdArg i) \<Rightarrow>
          call c (J_Delete J (p_jsm c) i (cl_id cli))
            (\<lambda>c. respond c req MsgNotFound) (\<lambda>c _. respond c req ''DELETED'')
      | _ \<Rightarrow> None)"

text \<open>The client is changed in place, so in the set of clients too.\<close>

definition set_client :: "'s cmdProcessor \<Rightarrow> client \<Rightarrow> 's cmdProcessor" where
  "set_client c cli = c\<lparr>p_clients := mput (p_clients c) (cl_id cli) cli\<rparr>"

definition ignore_cmd :: "'s cmdProcessor \<Rightarrow> client \<Rightarrow> CmdRequest \<Rightarrow> 's handled" where
  "ignore_cmd c cli req =
     (case rq_cmd req of
        Some (TubeArg name) \<Rightarrow>
          if tubeSet_Len (cl_watchingTubes cli) > 1
          then (let (ts, err) = tubeSet_Remove (cl_watchingTubes cli) name;
                    c = set_client c (cli\<lparr>cl_watchingTubes := ts\<rparr>)
                in if err \<noteq> None \<and> err \<noteq> Some ErrEntryMissing then respond c req MsgInternalError
                   else respond c req (''WATCHING '' @ dec (tubeSet_Len ts)))
          else respond c req MsgCannotIgnoreTube
      | _ \<Rightarrow> None)"

definition kick_cmd :: "('s, 'e) JSM \<Rightarrow> 's cmdProcessor \<Rightarrow> client \<Rightarrow> CmdRequest \<Rightarrow> 's handled" where
  "kick_cmd J c cli req =
     (case rq_cmd req of
        Some (IdArg i) \<Rightarrow>
          call c (J_Kick J (p_jsm c) i) (\<lambda>c. respond c req MsgNotFound) (\<lambda>c _. respond c req ''KICKED'')
      | _ \<Rightarrow> None)"

definition kickN_cmd :: "('s, 'e) JSM \<Rightarrow> 's cmdProcessor \<Rightarrow> client \<Rightarrow> CmdRequest \<Rightarrow> 's handled" where
  "kickN_cmd J c cli req =
     (case rq_cmd req of
        Some (KickNArg bound) \<Rightarrow>
          call c (J_KickN J (p_jsm c) (cl_useTube cli) bound)
            (\<lambda>c. respond c req MsgInternalError) (\<lambda>c n. respond c req (''KICKED '' @ dec_int n))
      | _ \<Rightarrow> None)"

definition yamlHdr :: bytes where
  "yamlHdr = ''---'' @ [LF]"

definition sendYamlResponse :: "bytes \<Rightarrow> CmdRequest \<Rightarrow> client \<Rightarrow> CmdResponse list" where
  "sendYamlResponse b req cli =
     (let respBytes = yamlHdr @ b
      in [sendCmdResponse (rq_ID req) cli (Some (''OK '' @ dec (length respBytes))) True,
          sendCmdResponse (rq_ID req) cli (Some respBytes) False])"

text \<open>\<open>y\<close> is \<^verbatim>\<open>yaml.Marshal\<close> on a list of tubes.\<close>

definition listTubes_cmd ::
    "('s, 'e) JSM \<Rightarrow> (TubeName list \<Rightarrow> error + bytes) \<Rightarrow> 's cmdProcessor \<Rightarrow> client \<Rightarrow> CmdRequest \<Rightarrow> 's handled" where
  "listTubes_cmd J y c cli req =
     call c (J_GetTubes J (p_jsm c))
       (\<lambda>c. respond c req MsgInternalError)
       (\<lambda>c ts. case y ts of
          Inl err \<Rightarrow> respond c req MsgInternalError
        | Inr b \<Rightarrow> Some (c, sendYamlResponse b req cli, None))"

text \<open>The job that was found, or nil and an error.\<close>

definition replyPeek :: "'s cmdProcessor \<Rightarrow> Job option \<Rightarrow> client \<Rightarrow> CmdRequest \<Rightarrow> 's handled" where
  "replyPeek c j cli req =
     (case j of
        None \<Rightarrow> respond c req MsgNotFound
      | Some j \<Rightarrow>
          Some (c,
            [sendCmdResponse (rq_ID req) cli (Some (''FOUND '' @ dec (unat (ID j)) @ '' '' @ dec_int (BodySize j))) True,
             sendCmdResponse (rq_ID req) cli (Some (Body j)) False], None))"

definition peek_cmd :: "('s, 'e) JSM \<Rightarrow> 's cmdProcessor \<Rightarrow> client \<Rightarrow> CmdRequest \<Rightarrow> 's handled" where
  "peek_cmd J c cli req =
     (case rq_cmd req of
        Some (IdArg i) \<Rightarrow>
          call c (J_GetJob J (p_jsm c) i)
            (\<lambda>c. replyPeek c None cli req) (\<lambda>c j. replyPeek c (Some j) cli req)
      | _ \<Rightarrow> None)"

definition callPeekFunc ::
    "('s \<Rightarrow> TubeName \<Rightarrow> ('s, 'e, Job) outcome) \<Rightarrow> 's cmdProcessor \<Rightarrow> client \<Rightarrow> CmdRequest \<Rightarrow> 's handled" where
  "callPeekFunc pf c cli req =
     call c (pf (p_jsm c) (cl_useTube cli))
       (\<lambda>c. replyPeek c None cli req) (\<lambda>c j. replyPeek c (Some j) cli req)"

definition releaseWith_cmd :: "('s, 'e) JSM \<Rightarrow> int64 \<Rightarrow> 's cmdProcessor \<Rightarrow> client \<Rightarrow> CmdRequest \<Rightarrow> 's handled" where
  "releaseWith_cmd J now c cli req =
     (case rq_cmd req of
        Some (ReleaseArg cmd) \<Rightarrow>
          call c (J_ReleaseWith J (p_jsm c) now (ra_id cmd) (cl_id cli) (ra_pri cmd) (ra_delay cmd))
            (\<lambda>c. respond c req MsgNotFound) (\<lambda>c _. respond c req ''RELEASED'')
      | _ \<Rightarrow> None)"

definition statsJob_cmd :: "('s, 'e) JSM \<Rightarrow> int64 \<Rightarrow> 's cmdProcessor \<Rightarrow> client \<Rightarrow> CmdRequest \<Rightarrow> 's handled" where
  "statsJob_cmd J now c cli req =
     (case rq_cmd req of
        Some (IdArg i) \<Rightarrow>
          call c (J_GetStatsJobAsYaml J (p_jsm c) now i)
            (\<lambda>c. respond c req MsgNotFound) (\<lambda>c b. Some (c, sendYamlResponse b req cli, None))
      | _ \<Rightarrow> None)"

definition statsTube_cmd :: "('s, 'e) JSM \<Rightarrow> int64 \<Rightarrow> 's cmdProcessor \<Rightarrow> client \<Rightarrow> CmdRequest \<Rightarrow> 's handled" where
  "statsTube_cmd J now c cli req =
     (case rq_cmd req of
        Some (TubeArg name) \<Rightarrow>
          call c (J_GetStatsTubeAsYaml J (p_jsm c) now name)
            (\<lambda>c. respond c req MsgNotFound) (\<lambda>c b. Some (c, sendYamlResponse b req cli, None))
      | _ \<Rightarrow> None)"

definition stats_cmd :: "('s, 'e) JSM \<Rightarrow> int64 \<Rightarrow> 's cmdProcessor \<Rightarrow> client \<Rightarrow> CmdRequest \<Rightarrow> 's handled" where
  "stats_cmd J now c cli req =
     call c (J_GetStatsAsYaml J (p_jsm c) now)
       (\<lambda>c. respond c req MsgNotFound) (\<lambda>c b. Some (c, sendYamlResponse b req cli, None))"

definition touch_cmd :: "('s, 'e) JSM \<Rightarrow> int64 \<Rightarrow> 's cmdProcessor \<Rightarrow> client \<Rightarrow> CmdRequest \<Rightarrow> 's handled" where
  "touch_cmd J now c cli req =
     (case rq_cmd req of
        Some (IdArg i) \<Rightarrow>
          call c (J_Touch J (p_jsm c) now i (rq_ClientID req))
            (\<lambda>c. respond c req MsgNotFound) (\<lambda>c _. respond c req ''TOUCHED'')
      | _ \<Rightarrow> None)"

definition use_cmd :: "'s cmdProcessor \<Rightarrow> client \<Rightarrow> CmdRequest \<Rightarrow> 's handled" where
  "use_cmd c cli req =
     (case rq_cmd req of
        Some (TubeArg name) \<Rightarrow>
          respond (set_client c (cli\<lparr>cl_useTube := name\<rparr>)) req (''USING '' @ name)
      | _ \<Rightarrow> None)"

definition watch_cmd :: "'s cmdProcessor \<Rightarrow> client \<Rightarrow> CmdRequest \<Rightarrow> 's handled" where
  "watch_cmd c cli req =
     (case rq_cmd req of
        Some (TubeArg name) \<Rightarrow>
          let (ts, err) = tubeSet_Set (cl_watchingTubes cli) name
          in respond (set_client c (cli\<lparr>cl_watchingTubes := ts\<rparr>)) req (''WATCHING '' @ dec (tubeSet_Len ts))
      | _ \<Rightarrow> None)"

text \<open>The tubes of the removed client, which nothing refers to any more, are not kept.\<close>

definition quit_cmd :: "'s cmdProcessor \<Rightarrow> client \<Rightarrow> CmdRequest \<Rightarrow> 's handled" where
  "quit_cmd c cli req =
     (case ClientSet_Remove (p_clients c) cli of
        (cs, Some err) \<Rightarrow> None
      | (cs, None) \<Rightarrow> Some (c\<lparr>p_clients := cs\<rparr>, [], Some (NewCmdResponseFromReq req)))"

text \<open>
  \<open>r\<close> is nil or a reservation, \<open>cli\<close> the client or nil; every branch uses the client, at least
  to log its id.
\<close>

definition replyReservation :: "Reservation option \<Rightarrow> client option \<Rightarrow> string \<Rightarrow> CmdResponse list option" where
  "replyReservation r cli reqID =
     (case cli of
        None \<Rightarrow> None
      | Some cli \<Rightarrow>
          (case r of
             None \<Rightarrow> Some [sendCmdResponse reqID cli (Some MsgInternalError) False]
           | Some r \<Rightarrow>
               if rv_Status r = Matched
               then Some [sendCmdResponse (rv_RequestId r) cli
                            (Some (''RESERVED '' @ dec (unat (rv_JobId r)) @ '' '' @ dec_int (rv_BodySize r))) True,
                          sendCmdResponse (rv_RequestId r) cli (rv_Body r) False]
               else if rv_Status r = Timeout then Some [sendCmdResponse (rv_RequestId r) cli (Some MsgTimedOut) False]
               else if rv_Status r = DeadlineSoon then Some [sendCmdResponse (rv_RequestId r) cli (Some MsgDeadlineSoon) False]
               else if rv_Status r = Queued then Some []
               else Some [sendCmdResponse (rv_RequestId r) cli (Some MsgInternalError) False]))"

text \<open>
  The order of a loop over a map is not determined: \<open>ord\<close> chooses it, and a choice that is not
  an order of the keys stands for the order in which they are stored.
\<close>

definition map_order :: "'k list \<Rightarrow> ('k, 'v) gomap \<Rightarrow> 'k list" where
  "map_order ord m = (if distinct ord \<and> set ord = set (mkeys m) then ord else mkeys m)"

definition appendReservation_cmd ::
    "('s, 'e) JSM \<Rightarrow> TubeName list \<Rightarrow> 's cmdProcessor \<Rightarrow> client \<Rightarrow> string \<Rightarrow> int64 \<Rightarrow> int64 \<Rightarrow> 's handled" where
  "appendReservation_cmd J ord c cli reqID nowSecs deadlineAt =
     call c (J_AppendReservation J (p_jsm c) (cl_id cli) reqID (map_order ord (cl_watchingTubes cli)) nowSecs deadlineAt)
       (\<lambda>c. map_option (\<lambda>rs. (c, rs, None)) (replyReservation None (Some cli) reqID))
       (\<lambda>c r. map_option (\<lambda>rs. (c, rs, None)) (replyReservation (Some r) (Some cli) reqID))"

text \<open>The clock is read twice: \<open>now\<close> and then \<open>now'\<close>, to which \<^verbatim>\<open>addToNow\<close> adds.\<close>

definition addToNow :: "int64 \<Rightarrow> int \<Rightarrow> int64" where
  "addToNow now delaySeconds = wrap64 (now + delaySeconds)"

definition reserveWithTimeout_cmd ::
    "('s, 'e) JSM \<Rightarrow> int64 \<Rightarrow> int64 \<Rightarrow> TubeName list \<Rightarrow> 's cmdProcessor \<Rightarrow> client \<Rightarrow> CmdRequest \<Rightarrow> 's handled" where
  "reserveWithTimeout_cmd J now now' ord c cli req =
     (case rq_cmd req of
        Some (ReserveWithTimeoutArg timeoutSeconds) \<Rightarrow>
          if timeoutSeconds > p_maxReserveTimeoutSecs c then respond c req MsgBadFormat
          else appendReservation_cmd J ord c cli (rq_ID req) now (addToNow now' timeoutSeconds)
      | _ \<Rightarrow> None)"

definition reserve_cmd ::
    "('s, 'e) JSM \<Rightarrow> int64 \<Rightarrow> int64 \<Rightarrow> TubeName list \<Rightarrow> 's cmdProcessor \<Rightarrow> client \<Rightarrow> CmdRequest \<Rightarrow> 's handled" where
  "reserve_cmd J now now' ord c cli req =
     appendReservation_cmd J ord c cli (rq_ID req) now (addToNow now' (p_maxReserveTimeoutSecs c))"

text \<open>What happens outside of the program during a request: the clock, the order of a map, the package \<^verbatim>\<open>yaml\<close>.\<close>

record env =
  e_now :: int64
  e_now' :: int64
  e_ord :: "TubeName list"
  e_yaml :: "TubeName list \<Rightarrow> error + bytes"

definition handle :: "('s, 'e) JSM \<Rightarrow> env \<Rightarrow> 's cmdProcessor \<Rightarrow> client \<Rightarrow> CmdRequest \<Rightarrow> 's handled" where
  "handle J e c cli req =
     (case rq_CmdType req of
        BuryCmd \<Rightarrow> bury_cmd J (e_now e) c cli req
      | DeleteCmd \<Rightarrow> delete_cmd J c cli req
      | IgnoreCmd \<Rightarrow> ignore_cmd c cli req
      | KickCmd \<Rightarrow> kickN_cmd J c cli req
      | KickJobCmd \<Rightarrow> kick_cmd J c cli req
      | ListTubesCmd \<Rightarrow> listTubes_cmd J (e_yaml e) c cli req
      | PeekCmd \<Rightarrow> peek_cmd J c cli req
      | PeekBuriedCmd \<Rightarrow> callPeekFunc (J_PeekBuriedJob J) c cli req
      | PeekDelayedCmd \<Rightarrow> callPeekFunc (J_PeekDelayedJob J) c cli req
      | PeekReadyCmd \<Rightarrow> callPeekFunc (J_PeekReadyJob J) c cli req
      | PutCmd \<Rightarrow> put_cmd J (e_now e) c cli req
      | ReleaseCmd \<Rightarrow> releaseWith_cmd J (e_now e) c cli req
      | ReserveCmd \<Rightarrow> reserve_cmd J (e_now e) (e_now' e) (e_ord e) c cli req
      | ReserveWithTimeoutCmd \<Rightarrow> reserveWithTimeout_cmd J (e_now e) (e_now' e) (e_ord e) c cli req
      | StatsJobCmd \<Rightarrow> statsJob_cmd J (e_now e) c cli req
      | StatsTubeCmd \<Rightarrow> statsTube_cmd J (e_now e) c cli req
      | StatsCmd \<Rightarrow> stats_cmd J (e_now e) c cli req
      | TouchCmd \<Rightarrow> touch_cmd J (e_now e) c cli req
      | UseCmd \<Rightarrow> use_cmd c cli req
      | WatchCmd \<Rightarrow> watch_cmd c cli req
      | QuitCmd \<Rightarrow> quit_cmd c cli req
      | _ \<Rightarrow> respond c req MsgUnknownCommand)"

text \<open>The processor, what the client receives, and whether its channel is closed.\<close>

definition processRequest ::
    "('s, 'e) JSM \<Rightarrow> env \<Rightarrow> 's cmdProcessor \<Rightarrow> CmdRequest \<Rightarrow> ('s cmdProcessor \<times> CmdResponse list \<times> bool) option" where
  "processRequest J e c req =
     (case ClientSet_Find (p_clients c) (rq_ClientID req) of
        Inl err \<Rightarrow> None
      | Inr cli \<Rightarrow>
          (case handle J e c cli req of
             None \<Rightarrow> None
           | Some (c, sent, resp) \<Rightarrow>
               Some (c, sent @ (case resp of None \<Rightarrow> [] | Some r \<Rightarrow> [r]), rq_CmdType req = QuitCmd)))"

text \<open>The other cases of the loop of \<^verbatim>\<open>Run\<close>: a new client, and the clock.\<close>

definition run_new_client :: "ClientID \<Rightarrow> 's cmdProcessor \<Rightarrow> ('s cmdProcessor \<times> ClientID \<times> error option) option" where
  "run_new_client uid c =
     (case NewClient uid defaultTubeName of
        None \<Rightarrow> None
      | Some nc \<Rightarrow>
          (case ClientSet_Set (p_clients c) nc of
             (cs, err) \<Rightarrow> Some (c\<lparr>p_clients := cs\<rparr>, cl_id nc, err)))"

fun reply_all :: "ClientSet \<Rightarrow> Reservation list \<Rightarrow> CmdResponse list option" where
  "reply_all cs [] = Some []"
| "reply_all cs (r # resv) =
     (case replyReservation (Some r) (mget cs (rv_ClientId r)) (rv_RequestId r) of
        None \<Rightarrow> None
      | Some rs \<Rightarrow> map_option ((@) rs) (reply_all cs resv))"

definition run_tick :: "('s, 'e) JSM \<Rightarrow> int64 \<Rightarrow> 's cmdProcessor \<Rightarrow> ('s cmdProcessor \<times> CmdResponse list) option" where
  "run_tick J now c =
     (case J_Tick J (p_jsm c) now of
        None \<Rightarrow> None
      | Some (s, Inl err) \<Rightarrow> Some (c\<lparr>p_jsm := s\<rparr>, [])
      | Some (s, Inr resv) \<Rightarrow> map_option (\<lambda>rs. (c\<lparr>p_jsm := s\<rparr>, rs)) (reply_all (p_clients c) resv))"

section \<open>The local job state machine\<close>

text \<open>
  The methods of \<^verbatim>\<open>localJSM\<close>. \<open>y\<close> is \<^verbatim>\<open>yaml.Marshal\<close>; \<open>o1\<close>, \<open>o2\<close> and \<open>o3\<close> choose the orders of
  the loops over the map of tubes in \<^verbatim>\<open>Tick\<close> and \<^verbatim>\<open>GetTubes\<close>.
\<close>

definition loop_order :: "(localJSM \<Rightarrow> TubeName list) \<Rightarrow> localJSM \<Rightarrow> TubeName list" where
  "loop_order f s = map_order (f s) (tubes s)"

definition peeked :: "localJSM \<times> (error + ref) \<Rightarrow> Job jsm_result" where
  "peeked r = Some (fst r, map_sum id (job_of (jsm_mem (fst r))) (snd r))"

definition local_JSM ::
    "marshal \<Rightarrow> (localJSM \<Rightarrow> TubeName list) \<Rightarrow> (localJSM \<Rightarrow> TubeName list) \<Rightarrow> (localJSM \<Rightarrow> TubeName list) \<Rightarrow> (localJSM, error) JSM" where
  "local_JSM y o1 o2 o3 =
     \<lparr>J_Put = Put, J_Bury = Bury, J_Delete = Delete, J_Kick = Kick, J_KickN = KickN,
      J_GetTubes = (\<lambda>s. GetTubes s (loop_order o3 s)),
      J_GetJob = (\<lambda>s i. and_then (GetJob s i) (\<lambda>s j. Some (s, Inr (job_at s j)))),
      J_PeekBuriedJob = (\<lambda>s t. peeked (PeekBuriedJob s t)),
      J_PeekDelayedJob = (\<lambda>s t. peeked (PeekDelayedJob s t)),
      J_PeekReadyJob = (\<lambda>s t. peeked (PeekReadyJob s t)),
      J_ReleaseWith = ReleaseWith,
      J_GetStatsJobAsYaml = GetStatsJobAsYaml y,
      J_GetStatsTubeAsYaml = (\<lambda>s now t. GetStatsTubeAsYaml y s t),
      J_GetStatsAsYaml = (\<lambda>s now. GetStatsAsYaml y s),
      J_Touch = Touch, J_AppendReservation = AppendReservation,
      J_Tick = (\<lambda>s now. Tick s now (loop_order o1 s) (loop_order o2 s)), J_Stop = Stop\<rparr>"

end
