(* ===== verification/Cmd_Proc_Correct.thy ===== *)
theory Cmd_Proc_Correct
  imports Cmd_Proc
begin

text \<open>
  What the command processor relies on: the contract of a job state machine, as a locale that
  the local one fulfils. What it gives in turn: no request of a registered client and no run
  of the clock makes it panic, and every request is answered completely, at once or, for a
  reservation, when the clock runs after its deadline at the latest.
\<close>

section \<open>The contract\<close>

text \<open>\<open>serves ok waits s r\<close>: the call returns, keeps the invariant and lets the same clients wait.\<close>

definition serves :: "('s \<Rightarrow> bool) \<Rightarrow> ('s \<Rightarrow> 'w) \<Rightarrow> 's \<Rightarrow> ('s, 'e, 'a) outcome \<Rightarrow> bool" where
  "serves ok waits s r \<longleftrightarrow> (\<exists>s' x. r = Some (s', x) \<and> ok s' \<and> waits s' = waits s)"

text \<open>The request and the deadline of every waiting client.\<close>

type_synonym waits = "ClientID \<Rightarrow> (string \<times> int64) option"

definition reserved_as :: "('s \<Rightarrow> bool) \<Rightarrow> ('s \<Rightarrow> waits) \<Rightarrow> 's \<Rightarrow> ClientID \<Rightarrow> string \<Rightarrow> int64 \<Rightarrow> ('s, 'e, Reservation) outcome \<Rightarrow> bool" where
  "reserved_as ok waits s i req dl r \<longleftrightarrow>
     (\<exists>s' x. r = Some (s', x) \<and> ok s' \<and>
        (case x of
           Inl _ \<Rightarrow> waits s' = waits s
         | Inr v \<Rightarrow> rv_RequestId v = req \<and>
             (rv_Status v = Queued \<and> waits s' = (waits s)(i \<mapsto> (req, dl)) \<or> rv_Status v = Matched \<and> waits s' = waits s)))"

definition ticked_as :: "('s \<Rightarrow> bool) \<Rightarrow> ('s \<Rightarrow> waits) \<Rightarrow> 's \<Rightarrow> int64 \<Rightarrow> ('s, 'e, Reservation list) outcome \<Rightarrow> bool" where
  "ticked_as ok waits s now r \<longleftrightarrow>
     (\<exists>s' rs. r = Some (s', Inr rs) \<and> ok s' \<and> distinct (map rv_ClientId rs) \<and>
        (\<forall>v \<in> set rs. (\<exists>d. waits s (rv_ClientId v) = Some (rv_RequestId v, d)) \<and>
           rv_Status v \<in> {Matched, Timeout, DeadlineSoon} \<and> waits s' (rv_ClientId v) = None) \<and>
        (\<forall>i. i \<notin> rv_ClientId ` set rs \<longrightarrow> waits s' i = waits s i) \<and>
        (\<forall>i q d. waits s' i = Some (q, d) \<longrightarrow> now \<le> d))"

locale jsm_service =
  fixes J :: "('s, 'e) JSM"
    and ok :: "'s \<Rightarrow> bool"
    and waits :: "'s \<Rightarrow> waits"
  assumes Put_serves: "ok s \<Longrightarrow> sane_ttr t \<Longrightarrow> serves ok waits s (J_Put J s now p d t z b tube)"
    and Bury_serves: "ok s \<Longrightarrow> serves ok waits s (J_Bury J s now k p i)"
    and Delete_serves: "ok s \<Longrightarrow> serves ok waits s (J_Delete J s k i)"
    and Kick_serves: "ok s \<Longrightarrow> serves ok waits s (J_Kick J s k)"
    and KickN_serves: "ok s \<Longrightarrow> serves ok waits s (J_KickN J s tube n)"
    and ReleaseWith_serves: "ok s \<Longrightarrow> serves ok waits s (J_ReleaseWith J s now k i p d)"
    and Touch_serves: "ok s \<Longrightarrow> sane_time now \<Longrightarrow> i \<noteq> [] \<Longrightarrow> serves ok waits s (J_Touch J s now k i)"
    and GetTubes_serves: "ok s \<Longrightarrow> serves ok waits s (J_GetTubes J s)"
    and GetJob_serves: "ok s \<Longrightarrow> serves ok waits s (J_GetJob J s k)"
    and PeekBuried_serves: "ok s \<Longrightarrow> serves ok waits s (J_PeekBuriedJob J s tube)"
    and PeekDelayed_serves: "ok s \<Longrightarrow> serves ok waits s (J_PeekDelayedJob J s tube)"
    and PeekReady_serves: "ok s \<Longrightarrow> serves ok waits s (J_PeekReadyJob J s tube)"
    and StatsJob_serves: "ok s \<Longrightarrow> serves ok waits s (J_GetStatsJobAsYaml J s now k)"
    and StatsTube_serves: "ok s \<Longrightarrow> serves ok waits s (J_GetStatsTubeAsYaml J s now tube)"
    and Stats_serves: "ok s \<Longrightarrow> serves ok waits s (J_GetStatsAsYaml J s now)"
    and AppendReservation_serves: "ok s \<Longrightarrow> sane_time now \<Longrightarrow> distinct ts \<Longrightarrow> waits s i = None \<Longrightarrow>
      reserved_as ok waits s i req dl (J_AppendReservation J s i req ts now dl)"
    and Tick_serves: "ok s \<Longrightarrow> sane_time now \<Longrightarrow> ticked_as ok waits s now (J_Tick J s now)"

section \<open>Requests and answers\<close>

text \<open>The argument that \<^verbatim>\<open>NewCmdRequest\<close> makes for a type of command.\<close>

fun fits :: "CmdType \<Rightarrow> cmd_arg option \<Rightarrow> bool" where
  "fits t (Some (PutArg a)) = (t = PutCmd)"
| "fits t (Some (TubeArg a)) = (t \<in> {IgnoreCmd, UseCmd, WatchCmd, StatsTubeCmd})"
| "fits t (Some (IdArg a)) = (t \<in> {DeleteCmd, KickJobCmd, PeekCmd, TouchCmd, StatsJobCmd})"
| "fits t (Some (ReserveWithTimeoutArg a)) = (t = ReserveWithTimeoutCmd)"
| "fits t (Some (BuryArg a)) = (t = BuryCmd)"
| "fits t (Some (KickNArg a)) = (t = KickCmd)"
| "fits t (Some (ReleaseArg a)) = (t = ReleaseCmd)"
| "fits t None = (t \<in> {ListTubesCmd, PeekReadyCmd, PeekDelayedCmd, PeekBuriedCmd, QuitCmd, ReserveCmd, StatsCmd})"

lemma NewCmdRequest_fits:
  assumes "NewCmdRequest uid cd i = (req, None)"
  shows "fits (rq_CmdType req) (rq_cmd req) \<and> rq_ID req = uid \<and> rq_ClientID req = i \<and> rq_CmdType req = cd_CmdType cd"
  using assms by (cases "cd_CmdType cd") (auto simp: NewCmdRequest_def cmd_of_def split: sum.splits)

definition request_ok :: "CmdRequest \<Rightarrow> bool" where
  "request_ok req \<longleftrightarrow>
     fits (rq_CmdType req) (rq_cmd req) \<and> (\<forall>a. rq_cmd req = Some (PutArg a) \<longrightarrow> sane_ttr (pa_ttr a))"

text \<open>
  A complete answer: responses of this request to this client, all but the last announcing
  another one.
\<close>

definition complete :: "string \<Rightarrow> ClientID \<Rightarrow> CmdResponse list \<Rightarrow> bool" where
  "complete q i rs \<longleftrightarrow>
     rs \<noteq> [] \<and> (\<forall>r \<in> set rs. rsp_RequestID r = q \<and> rsp_ClientID r = i) \<and>
     \<not> rsp_HasMore (last rs) \<and> (\<forall>r \<in> set (butlast rs). rsp_HasMore r)"

lemmas response_defs = NewCmdResponseFromReq_def setResponse_def sendCmdResponse_def

lemma complete_one: "complete (rq_ID req) (rq_ClientID req) [setResponse (NewCmdResponseFromReq req) s]"
  "complete (rq_ID req) (rq_ClientID req) [NewCmdResponseFromReq req]"
  by (simp_all add: complete_def response_defs)

lemma complete_yaml: "cl_id cli = rq_ClientID req \<Longrightarrow> complete (rq_ID req) (rq_ClientID req) (sendYamlResponse b req cli)"
  by (simp add: complete_def sendYamlResponse_def response_defs Let_def)

lemma complete_reservation:
  assumes "rv_Status r \<in> {Matched, Timeout, DeadlineSoon}"
  shows "\<exists>rs. replyReservation (Some r) (Some cli) q = Some rs \<and> complete (rv_RequestId r) (cl_id cli) rs"
  using assms by (auto simp: replyReservation_def complete_def response_defs)

definition env_ok :: "env \<Rightarrow> bool" where
  "env_ok e \<longleftrightarrow> sane_time (e_now e)"

section \<open>The processor\<close>

lemma distinct_map_order: "mwf m \<Longrightarrow> distinct (map_order ord m)"
  by (simp add: map_order_def mwf_def)

lemma set_map_order [simp]: "set (map_order ord m) = set (mkeys m)"
  by (simp add: map_order_def)

lemma mwf_tubeSet:
  "tubeSet_Set t n = (t', e) \<Longrightarrow> mwf t \<Longrightarrow> mwf t'" "tubeSet_Remove t n = (t', e) \<Longrightarrow> mwf t \<Longrightarrow> mwf t'"
  by (auto simp: tubeSet_Set_def tubeSet_Remove_def split: if_splits)

definition proc_ok :: "('s \<Rightarrow> bool) \<Rightarrow> ('s \<Rightarrow> waits) \<Rightarrow> 's cmdProcessor \<Rightarrow> bool" where
  "proc_ok ok waits c \<longleftrightarrow>
     ok (p_jsm c) \<and> (\<forall>i cli. mget (p_clients c) i = Some cli \<longrightarrow> cl_id cli = i \<and> i \<noteq> [] \<and> mwf (cl_watchingTubes cli)) \<and>
     dom (waits (p_jsm c)) \<subseteq> dom (mget (p_clients c))"

text \<open>
  \<open>answered\<close>: a handler has returned and given a complete answer; only the clients of the set
  are gone.
\<close>

definition answered ::
    "('s \<Rightarrow> bool) \<Rightarrow> ('s \<Rightarrow> waits) \<Rightarrow> 's cmdProcessor \<Rightarrow> CmdRequest \<Rightarrow> 's handled \<Rightarrow> bool" where
  "answered ok waits c req h \<longleftrightarrow>
     (\<exists>c' sent resp. h = Some (c', sent, resp) \<and> proc_ok ok waits c' \<and> waits (p_jsm c') = waits (p_jsm c) \<and>
        complete (rq_ID req) (rq_ClientID req) (sent @ (case resp of None \<Rightarrow> [] | Some r \<Rightarrow> [r])))"

lemma answered_respond: "proc_ok ok waits c' \<Longrightarrow> waits (p_jsm c') = waits (p_jsm c) \<Longrightarrow> answered ok waits c req (respond c' req s)"
  by (simp add: answered_def respond_def complete_one)

lemma answered_sent:
  "proc_ok ok waits c' \<Longrightarrow> waits (p_jsm c') = waits (p_jsm c) \<Longrightarrow> complete (rq_ID req) (rq_ClientID req) rs \<Longrightarrow>
     answered ok waits c req (Some (c', rs, None))"
  by (simp add: answered_def)

lemma answered_peek:
  "proc_ok ok waits c' \<Longrightarrow> waits (p_jsm c') = waits (p_jsm c) \<Longrightarrow> cl_id cli = rq_ClientID req \<Longrightarrow>
     answered ok waits c req (replyPeek c' j cli req)"
  by (cases j) (auto simp: replyPeek_def respond_def answered_def complete_def response_defs)

lemma proc_ok_jsm: "proc_ok ok waits c \<Longrightarrow> ok s' \<Longrightarrow> waits s' = waits (p_jsm c) \<Longrightarrow> proc_ok ok waits (c\<lparr>p_jsm := s'\<rparr>)"
  by (simp add: proc_ok_def)

lemma proc_ok_set_client:
  "proc_ok ok waits c \<Longrightarrow> cl_id cli \<noteq> [] \<Longrightarrow> mwf (cl_watchingTubes cli) \<Longrightarrow> proc_ok ok waits (set_client c cli)"
  by (auto simp: proc_ok_def set_client_def)

lemma p_jsm_set_client [simp]: "p_jsm (set_client c cli) = p_jsm c"
  by (simp add: set_client_def)

lemma answered_call:
  assumes "proc_ok ok waits c" and "serves ok waits (p_jsm c) r"
    and "\<And>c'. proc_ok ok waits c' \<Longrightarrow> waits (p_jsm c') = waits (p_jsm c) \<Longrightarrow> answered ok waits c req (f c')"
    and "\<And>c' a. proc_ok ok waits c' \<Longrightarrow> waits (p_jsm c') = waits (p_jsm c) \<Longrightarrow> answered ok waits c req (g c' a)"
  shows "answered ok waits c req (call c r f g)"
proof -
  obtain s' x where r: "r = Some (s', x)" "ok s'" "waits s' = waits (p_jsm c)"
    using assms(2) by (auto simp: serves_def)
  have "proc_ok ok waits (c\<lparr>p_jsm := s'\<rparr>)" using proc_ok_jsm [OF assms(1) r(2,3)] .
  then show ?thesis using r(1,3) assms(3,4) [of "c\<lparr>p_jsm := s'\<rparr>"] by (cases x) (simp_all add: call_def)
qed

text \<open>The deadline of a reservation.\<close>

definition deadline_of :: "env \<Rightarrow> 's cmdProcessor \<Rightarrow> CmdRequest \<Rightarrow> int64" where
  "deadline_of e c req =
     addToNow (e_now' e) (case rq_cmd req of Some (ReserveWithTimeoutArg t) \<Rightarrow> t | _ \<Rightarrow> p_maxReserveTimeoutSecs c)"

abbreviation to_client :: "ClientID \<Rightarrow> CmdResponse list \<Rightarrow> CmdResponse list" where
  "to_client i \<equiv> filter (\<lambda>r. rsp_ClientID r = i)"

context jsm_service
begin

lemma proc_okD: "proc_ok ok waits c \<Longrightarrow> ok (p_jsm c)"
  by (simp add: proc_ok_def)

lemmas laws = Put_serves Bury_serves Delete_serves Kick_serves KickN_serves ReleaseWith_serves
  Touch_serves GetTubes_serves GetJob_serves PeekBuried_serves PeekDelayed_serves PeekReady_serves
  StatsJob_serves StatsTube_serves Stats_serves

lemma handle_answers:
  assumes p: "proc_ok ok waits c" and cli: "mget (p_clients c) (rq_ClientID req) = Some cli"
    and w: "waits (p_jsm c) (rq_ClientID req) = None" and req: "request_ok req" and e: "env_ok e"
    and t: "rq_CmdType req \<notin> {ReserveCmd, ReserveWithTimeoutCmd}"
  shows "answered ok waits c req (handle J e c cli req)"
proof -
  have i: "cl_id cli = rq_ClientID req" "rq_ClientID req \<noteq> []" "mwf (cl_watchingTubes cli)" using p cli by (auto simp: proc_ok_def)
  note ok = proc_okD [OF p]
  note answers = answered_call [OF p] answered_respond answered_sent complete_yaml answered_peek proc_ok_set_client
  have now: "sane_time (e_now e)" using e by (simp add: env_ok_def)
  have quit: "answered ok waits c req (quit_cmd c cli req)"
  proof -
    have "dom (waits (p_jsm c)) \<subseteq> dom (mget (mdel (p_clients c) (rq_ClientID req)))"
      using p w by (auto simp: proc_ok_def subset_iff domIff)
    then show ?thesis using p cli i
      by (auto simp: quit_cmd_def ClientSet_Remove_def ClientSet_Contains_def answered_def proc_ok_def complete_one)
  qed
  show ?thesis
  proof (cases "rq_cmd req")
    case None
    then show ?thesis
      using req t quit
      by (cases "rq_CmdType req")
        (auto simp: request_ok_def handle_def listTubes_cmd_def callPeekFunc_def stats_cmd_def
          intro!: answers laws ok p i split: sum.split)
  next
    case (Some a)
    then show ?thesis
      using req t now i
      by (cases a; cases "rq_CmdType req")
        (auto simp: request_ok_def handle_def put_cmd_def bury_cmd_def delete_cmd_def ignore_cmd_def kick_cmd_def kickN_cmd_def
          peek_cmd_def releaseWith_cmd_def statsJob_cmd_def statsTube_cmd_def touch_cmd_def use_cmd_def watch_cmd_def Let_def
          intro!: answers laws ok p dest: mwf_tubeSet split: prod.split)
  qed
qed

text \<open>A reservation is answered, or the client waits and its channel is silent.\<close>

definition waiting_for :: "'s cmdProcessor \<Rightarrow> CmdRequest \<Rightarrow> int64 \<Rightarrow> 's handled \<Rightarrow> bool" where
  "waiting_for c req dl h \<longleftrightarrow>
     (\<exists>c'. h = Some (c', [], None) \<and> proc_ok ok waits c' \<and>
        waits (p_jsm c') = (waits (p_jsm c))(rq_ClientID req \<mapsto> (rq_ID req, dl)))"

lemma appendReservation_answers:
  assumes p: "proc_ok ok waits c" and cli: "mget (p_clients c) (rq_ClientID req) = Some cli"
    and w: "waits (p_jsm c) (rq_ClientID req) = None" and now: "sane_time now"
  shows "answered ok waits c req (appendReservation_cmd J ord c cli (rq_ID req) now dl) \<or>
         waiting_for c req dl (appendReservation_cmd J ord c cli (rq_ID req) now dl)"
proof -
  have i: "cl_id cli = rq_ClientID req" and ord: "distinct (map_order ord (cl_watchingTubes cli))"
    using p cli by (auto simp: proc_ok_def distinct_map_order)
  obtain s' x where r: "J_AppendReservation J (p_jsm c) (rq_ClientID req) (rq_ID req)
        (map_order ord (cl_watchingTubes cli)) now dl = Some (s', x)" "ok s'"
      "case x of Inl _ \<Rightarrow> waits s' = waits (p_jsm c)
       | Inr v \<Rightarrow> rv_RequestId v = rq_ID req \<and>
           (rv_Status v = Queued \<and> waits s' = (waits (p_jsm c))(rq_ClientID req \<mapsto> (rq_ID req, dl)) \<or>
            rv_Status v = Matched \<and> waits s' = waits (p_jsm c))"
    using AppendReservation_serves [OF proc_okD [OF p] now ord w] unfolding reserved_as_def by blast
  show ?thesis
  proof (cases x)
    case (Inl err)
    then show ?thesis using r i proc_ok_jsm [OF p r(2)]
      by (auto simp: appendReservation_cmd_def call_def replyReservation_def answered_def complete_def response_defs)
  next
    case (Inr v)
    show ?thesis
    proof (cases "rv_Status v = Queued")
      case True
      then have w': "waits s' = (waits (p_jsm c))(rq_ClientID req \<mapsto> (rq_ID req, dl))" using r(3) Inr by simp
      then have "proc_ok ok waits (c\<lparr>p_jsm := s'\<rparr>)" using p r(2) cli by (auto simp: proc_ok_def)
      then show ?thesis using r(1) Inr True w' i
        by (auto simp: appendReservation_cmd_def call_def replyReservation_def waiting_for_def)
    next
      case False
      then have v: "rv_Status v = Matched" "waits s' = waits (p_jsm c)" "rv_RequestId v = rq_ID req" using r(3) Inr by auto
      obtain rs where rs: "replyReservation (Some v) (Some cli) (rq_ID req) = Some rs" "complete (rq_ID req) (rq_ClientID req) rs"
        using complete_reservation [of v cli "rq_ID req"] v i by auto
      then show ?thesis using r(1) Inr v(2) i proc_ok_jsm [OF p r(2) v(2)]
        by (auto simp: appendReservation_cmd_def call_def answered_def)
    qed
  qed
qed

lemma processRequest_answers:
  assumes p: "proc_ok ok waits c" and cli: "mget (p_clients c) (rq_ClientID req) = Some cli"
    and w: "waits (p_jsm c) (rq_ClientID req) = None" and req: "request_ok req" and e: "env_ok e"
  shows "\<exists>c' rs. processRequest J e c req = Some (c', rs, rq_CmdType req = QuitCmd) \<and> proc_ok ok waits c' \<and>
           (complete (rq_ID req) (rq_ClientID req) rs \<and> waits (p_jsm c') = waits (p_jsm c) \<or>
            rs = [] \<and> rq_CmdType req \<in> {ReserveCmd, ReserveWithTimeoutCmd} \<and>
            waits (p_jsm c') = (waits (p_jsm c))(rq_ClientID req \<mapsto> (rq_ID req, deadline_of e c req)))"
proof -
  have fnd: "ClientSet_Find (p_clients c) (rq_ClientID req) = Inr cli" using cli by (simp add: ClientSet_Find_def)
  have now: "sane_time (e_now e)" using e by (simp_all add: env_ok_def)
  have h: "answered ok waits c req (handle J e c cli req) \<or>
      rq_CmdType req \<in> {ReserveCmd, ReserveWithTimeoutCmd} \<and> waiting_for c req (deadline_of e c req) (handle J e c cli req)"
  proof (cases "rq_CmdType req \<in> {ReserveCmd, ReserveWithTimeoutCmd}")
    case False
    then show ?thesis using handle_answers [OF assms] by blast
  next
    case True
    note app = appendReservation_answers [OF p cli w now]
    show ?thesis
    proof (cases "rq_cmd req")
      case None
      then have "rq_CmdType req = ReserveCmd" using True req by (auto simp: request_ok_def)
      then show ?thesis using app [where dl = "deadline_of e c req"] None by (simp add: handle_def reserve_cmd_def deadline_of_def)
    next
      case (Some a)
      then obtain t where a: "a = ReserveWithTimeoutArg t" "rq_CmdType req = ReserveWithTimeoutCmd"
        using True req by (cases a) (auto simp: request_ok_def)
      then show ?thesis using app [where dl = "deadline_of e c req"] Some answered_respond [OF p refl]
        by (simp add: handle_def reserveWithTimeout_cmd_def deadline_of_def)
    qed
  qed
  then show ?thesis
  proof
    assume "answered ok waits c req (handle J e c cli req)"
    then show ?thesis using fnd unfolding answered_def processRequest_def by fastforce
  next
    assume "rq_CmdType req \<in> {ReserveCmd, ReserveWithTimeoutCmd} \<and> waiting_for c req (deadline_of e c req) (handle J e c cli req)"
    then show ?thesis using fnd unfolding waiting_for_def processRequest_def by fastforce
  qed
qed

subsection \<open>The clock\<close>

lemma complete_to_client:
  assumes "complete q i rs"
  shows "to_client i rs = rs" and "j \<noteq> i \<Longrightarrow> to_client j rs = []"
  using assms by (auto simp: complete_def filter_id_conv filter_empty_conv)

lemma reply_all_ok:
  assumes "\<And>i cli. mget cs i = Some cli \<Longrightarrow> cl_id cli = i" and "distinct (map rv_ClientId resv)"
    and "\<And>v. v \<in> set resv \<Longrightarrow> rv_ClientId v \<in> dom (mget cs) \<and> rv_Status v \<in> {Matched, Timeout, DeadlineSoon}"
  shows "\<exists>rs. reply_all cs resv = Some rs \<and>
           (\<forall>v \<in> set resv. complete (rv_RequestId v) (rv_ClientId v) (to_client (rv_ClientId v) rs)) \<and>
           (\<forall>i. i \<notin> rv_ClientId ` set resv \<longrightarrow> to_client i rs = [])"
  using assms(2,3)
proof (induction resv)
  case (Cons r resv)
  obtain rs where rs: "reply_all cs resv = Some rs"
      "\<forall>v \<in> set resv. complete (rv_RequestId v) (rv_ClientId v) (to_client (rv_ClientId v) rs)"
      "\<forall>i. i \<notin> rv_ClientId ` set resv \<longrightarrow> to_client i rs = []"
    using Cons by auto
  obtain cli where cli: "mget cs (rv_ClientId r) = Some cli" "cl_id cli = rv_ClientId r"
    using Cons.prems(2) [of r] assms(1) by auto
  obtain qs where qs: "replyReservation (Some r) (Some cli) (rv_RequestId r) = Some qs" "complete (rv_RequestId r) (rv_ClientId r) qs"
    using complete_reservation [of r cli "rv_RequestId r"] Cons.prems(2) [of r] cli(2) by auto
  have r: "rv_ClientId r \<notin> rv_ClientId ` set resv" using Cons.prems(1) by auto
  show ?case
  proof (intro exI [of _ "qs @ rs"] conjI ballI allI impI)
    show "reply_all cs (r # resv) = Some (qs @ rs)" using rs(1) cli(1) qs(1) by simp
    show "complete (rv_RequestId v) (rv_ClientId v) (to_client (rv_ClientId v) (qs @ rs))" if "v \<in> set (r # resv)" for v
    proof (cases "v = r")
      case True
      then show ?thesis using complete_to_client(1) [OF qs(2)] qs(2) rs(3) r by simp
    next
      case False
      then have v: "v \<in> set resv" "rv_ClientId v \<noteq> rv_ClientId r" using that r by (auto simp: image_iff)
      then show ?thesis using complete_to_client(2) [OF qs(2) v(2)] rs(2) by simp
    qed
    show "to_client i (qs @ rs) = []" if "i \<notin> rv_ClientId ` set (r # resv)" for i
      using complete_to_client(2) [OF qs(2), of i] rs(3) that by auto
  qed
qed simp

lemma run_tick_answers:
  assumes p: "proc_ok ok waits c" and now: "sane_time now"
  shows "\<exists>c' rs. run_tick J now c = Some (c', rs) \<and> proc_ok ok waits c' \<and> p_clients c' = p_clients c \<and>
           (\<forall>i. case waits (p_jsm c) i of
                 None \<Rightarrow> waits (p_jsm c') i = None \<and> to_client i rs = []
               | Some (q, d) \<Rightarrow>
                   (if waits (p_jsm c') i = None then complete q i (to_client i rs)
                    else waits (p_jsm c') i = Some (q, d) \<and> now \<le> d \<and> to_client i rs = []))"
proof -
  obtain s' resv where t: "J_Tick J (p_jsm c) now = Some (s', Inr resv)" "ok s'" "distinct (map rv_ClientId resv)"
      "\<And>v. v \<in> set resv \<Longrightarrow> (\<exists>d. waits (p_jsm c) (rv_ClientId v) = Some (rv_RequestId v, d)) \<and>
           rv_Status v \<in> {Matched, Timeout, DeadlineSoon} \<and> waits s' (rv_ClientId v) = None"
      "\<And>i. i \<notin> rv_ClientId ` set resv \<Longrightarrow> waits s' i = waits (p_jsm c) i"
      "\<And>i q d. waits s' i = Some (q, d) \<Longrightarrow> now \<le> d"
    using Tick_serves [OF proc_okD [OF p] now] unfolding ticked_as_def by blast
  have cl: "\<And>i cli. mget (p_clients c) i = Some cli \<Longrightarrow> cl_id cli = i" and sub: "dom (waits (p_jsm c)) \<subseteq> dom (mget (p_clients c))"
    using p by (auto simp: proc_ok_def)
  have "rv_ClientId v \<in> dom (mget (p_clients c)) \<and> rv_Status v \<in> {Matched, Timeout, DeadlineSoon}" if "v \<in> set resv" for v
    using t(4) [OF that] sub by blast
  from reply_all_ok [OF cl t(3) this]
  obtain rs where rs: "reply_all (p_clients c) resv = Some rs"
      "\<forall>v \<in> set resv. complete (rv_RequestId v) (rv_ClientId v) (to_client (rv_ClientId v) rs)"
      "\<forall>i. i \<notin> rv_ClientId ` set resv \<longrightarrow> to_client i rs = []" by blast
  have each: "case waits (p_jsm c) i of
                 None \<Rightarrow> waits s' i = None \<and> to_client i rs = []
               | Some (q, d) \<Rightarrow>
                   (if waits s' i = None then complete q i (to_client i rs)
                    else waits s' i = Some (q, d) \<and> now \<le> d \<and> to_client i rs = [])" for i
  proof (cases "i \<in> rv_ClientId ` set resv")
    case True
    then obtain v d where v: "v \<in> set resv" "i = rv_ClientId v" "waits (p_jsm c) i = Some (rv_RequestId v, d)" "waits s' i = None"
      using t(4) by blast
    then show ?thesis using rs(2) by simp
  next
    case False
    then have eq: "waits s' i = waits (p_jsm c) i" "to_client i rs = []" using t(5) rs(3) by auto
    then show ?thesis using t(6) [of i] by (cases "waits (p_jsm c) i") auto
  qed
  have "dom (waits s') \<subseteq> dom (waits (p_jsm c))"
  proof
    fix i assume "i \<in> dom (waits s')"
    then show "i \<in> dom (waits (p_jsm c))" using each [of i] by (cases "waits (p_jsm c) i") auto
  qed
  then have "dom (waits s') \<subseteq> dom (mget (p_clients c))" using sub by blast
  then have pok: "proc_ok ok waits (c\<lparr>p_jsm := s'\<rparr>)" using p t(2) by (simp add: proc_ok_def)
  have run: "run_tick J now c = Some (c\<lparr>p_jsm := s'\<rparr>, rs)" using t(1) rs(1) by (simp add: run_tick_def)
  have jsm: "p_jsm (c\<lparr>p_jsm := s'\<rparr>) = s'" by simp
  show ?thesis
    by (rule exI [of _ "c\<lparr>p_jsm := s'\<rparr>"], rule exI [of _ rs], unfold jsm) (intro conjI allI run pok each, simp)
qed

end

end
