(* ===== verification/Examples.thy ===== *)
theory Examples
  imports JSM_Cmds
begin

text \<open>
  Concrete states of the job state machine, at which properties are applied: a new one, one
  with a ready job, and one in which a client waits.
\<close>

text \<open>The state after a call, a tube with one ready job, and a client that waits for another tube.\<close>

definition after :: "(localJSM \<times> 'a) option \<Rightarrow> localJSM" where
  "after r = fst (the r)"

definition demo :: localJSM where
  "demo = after (Put NewJSM 100 7 0 60 3 ''abc'' ''t'')"

definition demo_wait :: localJSM where
  "demo_wait = after (AppendReservation demo ''c'' ''r'' [''u''] 100 110)"

lemma demo_facts:
  "jsm_ok demo {}" "job_views demo = [1 \<mapsto> spec_new_job 1 100 7 0 60 3 ''abc'' ''t'']"
  "waiting_on demo = Map.empty"
proof -
  have v: "job_views NewJSM = Map.empty" by (simp add: NewJSM_def job_views_def NewJobIndex_def)
  have w: "waiting_on NewJSM = Map.empty"
    by (rule ext) (simp add: NewJSM_def waiting_on_def clientResvQueue_Find_def newClientResvQueue_def list_New_def)
  have m: "maxJobID NewJSM + 1 = 1" by (simp add: NewJSM_def)
  obtain s' where s': "Put NewJSM 100 7 0 60 3 ''abc'' ''t'' = Some (s', Inr 1)" "jsm_ok s' {}"
      "seen_of s' = ([1 \<mapsto> spec_new_job 1 100 7 0 60 3 ''abc'' ''t''], waiting_on NewJSM, wait_line NewJSM)"
    using Put_ok [OF NewJSM_ok, of 60 100 7 0 3 "''abc''" "''t''"] unfolding m v
    by (auto simp: sane_ttr_def)
  show "jsm_ok demo {}" "job_views demo = [1 \<mapsto> spec_new_job 1 100 7 0 60 3 ''abc'' ''t'']"
    "waiting_on demo = Map.empty"
    using s' w by (simp_all add: demo_def after_def seen_of_def)
qed

lemma demo_wait_facts:
  "jsm_ok demo_wait {}" "job_views demo_wait = job_views demo" "waiting_on demo_wait = [''c'' \<mapsto> (''r'', [''u''], 110)]"
proof -
  have h: "sane_time 100" "distinct [''u'']" "waiting_on demo ''c'' = None" by (simp_all add: sane_time_def demo_facts(3))
  have none: "\<not> most_urgent (job_views demo) ''u'' k v" for k v
    by (auto simp: most_urgent_def ids_at_def demo_facts(2) loc_of_def spec_new_job_def split: if_splits)
  have "\<exists>s'. AppendReservation demo ''c'' ''r'' [''u''] 100 110 = Some (s', Inr (queued_reply ''r'' ''c'')) \<and>
      jsm_ok s' {} \<and> job_views s' = job_views demo \<and> waiting_on s' = (waiting_on demo)(''c'' \<mapsto> (''r'', [''u''], 110))"
    by (rule AppendReservation_accepted [OF demo_facts(1) h(1,2) _ _ h(3), of 110 "''r''"]) (use none in \<open>auto simp: Cons_eq_append_conv\<close>)
  then show "jsm_ok demo_wait {}" "job_views demo_wait = job_views demo"
    "waiting_on demo_wait = [''c'' \<mapsto> (''r'', [''u''], 110)]"
    by (auto simp: demo_wait_def after_def demo_facts(3))
qed

end
