(* ===== verification/Cmd_Proc_Local.thy ===== *)
theory Cmd_Proc_Local
  imports Cmd_Proc_Correct Examples
begin

text \<open>
  The local job state machine keeps the contract of the command processor, so that what the
  processor gives its clients holds when it runs on it.
\<close>

section \<open>The local job state machine keeps the contract\<close>

definition local_waits :: "localJSM \<Rightarrow> waits" where
  "local_waits s = (\<lambda>i. map_option (\<lambda>(req, ts, dl). (req, dl)) (waiting_on s i))"

abbreviation local_ok :: "localJSM \<Rightarrow> bool" where
  "local_ok s \<equiv> jsm_ok s {}"

lemma serves_does: "does s r spec \<Longrightarrow> serves local_ok local_waits s r"
  by (auto simp: does_def serves_def seen_of_def local_waits_def)

lemma serves_tally: "local_ok s \<Longrightarrow> serves local_ok local_waits s (Some (tally f s, x))"
  by (simp add: serves_def local_waits_def)

lemma serves_same: "local_ok s \<Longrightarrow> serves local_ok local_waits s (Some (s, x))"
  by (simp add: serves_def)

lemma loop_order_keys: "set (loop_order f s) = set (mkeys (tubes s))"
  by (simp add: loop_order_def)

text \<open>\<open>took W rs W'\<close>: exactly the clients of the answers stop waiting.\<close>

definition took ::
    "(ClientID \<Rightarrow> (string \<times> TubeName list \<times> int64) option) \<Rightarrow> Reservation list \<Rightarrow>
     (ClientID \<Rightarrow> (string \<times> TubeName list \<times> int64) option) \<Rightarrow> bool" where
  "took W rs W' \<longleftrightarrow>
     distinct (map rv_ClientId rs) \<and>
     (\<forall>v \<in> set rs. (\<exists>ts d. W (rv_ClientId v) = Some (rv_RequestId v, ts, d)) \<and>
        rv_Status v \<in> {Matched, Timeout, DeadlineSoon} \<and> W' (rv_ClientId v) = None) \<and>
     (\<forall>i. i \<notin> rv_ClientId ` set rs \<longrightarrow> W' i = W i)"

lemma tookD:
  "took W rs W' \<Longrightarrow> v \<in> set rs \<Longrightarrow> (\<exists>ts d. W (rv_ClientId v) = Some (rv_RequestId v, ts, d)) \<and>
     rv_Status v \<in> {Matched, Timeout, DeadlineSoon} \<and> W' (rv_ClientId v) = None"
  unfolding took_def by blast

lemma took_Nil: "took W [] W"
  by (simp add: took_def)

lemma took_Cons:
  assumes "W (rv_ClientId v) = Some (rv_RequestId v, ts, d)" and "rv_Status v \<in> {Matched, Timeout, DeadlineSoon}"
    and t: "took (W(rv_ClientId v := None)) rs W'"
  shows "took W (v # rs) W'"
proof -
  have n: "rv_ClientId v \<notin> rv_ClientId ` set rs" using t by (auto simp: took_def)
  then have "W' (rv_ClientId v) = None" using t by (simp add: took_def)
  then show ?thesis using assms n unfolding took_def by (auto split: if_splits)
qed

lemma took_append:
  assumes "took W rs W1" and "took W1 qs W2"
  shows "took W (rs @ qs) W2"
  using assms(1)
proof (induction rs arbitrary: W)
  case Nil
  then have "W1 = W" by (auto simp: took_def)
  then show ?case using assms(2) by simp
next
  case (Cons v rs)
  have n: "rv_ClientId v \<notin> rv_ClientId ` set rs" using Cons.prems by (auto simp: took_def)
  have "rv_ClientId w \<noteq> rv_ClientId v" if "w \<in> set rs" for w using n that by (metis imageI)
  then have "took (W(rv_ClientId v := None)) rs W1" using Cons.prems by (auto simp: took_def)
  from Cons.IH [OF this] have t: "took (W(rv_ClientId v := None)) (rs @ qs) W2" .
  obtain ts d where "W (rv_ClientId v) = Some (rv_RequestId v, ts, d)" "rv_Status v \<in> {Matched, Timeout, DeadlineSoon}"
    using Cons.prems by (auto simp: took_def)
  from took_Cons [OF this t] show ?case by simp
qed

lemma served_took: "served now a rs b \<Longrightarrow> took (fst (snd a)) rs (fst (snd b))"
proof (induction rule: served.induct)
  case (served_one V t k v L i line W req ts dl rs b)
  then show ?case using took_Cons [of W "reply req i k v" ts dl rs] by (simp add: reply_def del: fun_upd_apply)
qed (simp add: took_Nil)

lemma ended_took: "ended now a rs b \<Longrightarrow> took (fst (snd a)) rs (fst (snd b))"
proof (induction rule: ended.induct)
  case (ended_timeout W i req ts dl V L rs b)
  then show ?case using took_Cons [of W "stop_reply Timeout req i" ts dl rs] by (simp add: stop_reply_def del: fun_upd_apply)
next
  case (ended_soon W i req ts dl V k v L rs b)
  then show ?case using took_Cons [of W "stop_reply DeadlineSoon req i" ts dl rs] by (simp add: stop_reply_def del: fun_upd_apply)
qed (simp_all add: took_Nil)

lemma local_Tick:
  assumes ok: "local_ok s" and now: "sane_time now"
    and ord: "set ord = set (mkeys (tubes s))" "set ord' = set (mkeys (tubes s))"
  shows "ticked_as local_ok local_waits s now (Tick s now ord ord')"
proof -
  obtain s' rs qs b where t: "Tick s now ord ord' = Some (s', Inr (rs @ qs))" "local_ok s'"
      "served now (ripen now UNIV (job_views s), waiting_on s, wait_line s) rs b"
      "ended now b qs (seen_of s')" "overdue_free now (seen_of s')"
    using Tick_ok [OF ok now ord [folded dom_mkeys]] by blast
  have tk: "took (waiting_on s) (rs @ qs) (waiting_on s')"
    using took_append [OF served_took [OF t(3)] ended_took [OF t(4)]] by (simp add: seen_of_def)
  have late: "now \<le> d" if "local_waits s' i = Some (q, d)" for i q d
    using t(5) that by (auto simp: overdue_free_def seen_of_def local_waits_def)
  have each: "(\<exists>d. local_waits s (rv_ClientId v) = Some (rv_RequestId v, d)) \<and>
      rv_Status v \<in> {Matched, Timeout, DeadlineSoon} \<and> local_waits s' (rv_ClientId v) = None" if v: "v \<in> set (rs @ qs)" for v
  proof -
    obtain ts d where "waiting_on s (rv_ClientId v) = Some (rv_RequestId v, ts, d)"
        "rv_Status v \<in> {Matched, Timeout, DeadlineSoon}" "waiting_on s' (rv_ClientId v) = None"
      using tookD [OF tk v] by blast
    then show ?thesis by (simp add: local_waits_def)
  qed
  have rest: "local_waits s' i = local_waits s i" if "i \<notin> rv_ClientId ` set (rs @ qs)" for i
    using tk that by (simp add: took_def local_waits_def)
  have "distinct (map rv_ClientId (rs @ qs))" using tk unfolding took_def by (rule conjunct1)
  then show ?thesis unfolding ticked_as_def
    by (intro exI [of _ s'] exI [of _ "rs @ qs"] conjI ballI allI impI t(1) t(2))
      (simp, rule each [THEN conjunct1], assumption, rule each [THEN conjunct2, THEN conjunct1], assumption,
       rule each [THEN conjunct2, THEN conjunct2], assumption, rule rest, assumption, rule late, assumption)
qed

lemma local_AppendReservation:
  assumes ok: "local_ok s" and now: "sane_time now" and ts: "distinct ts" and w: "local_waits s i = None"
  shows "reserved_as local_ok local_waits s i req dl (AppendReservation s i req ts now dl)"
proof (cases "dl < now \<or> now + 86400 < dl")
  case True
  then show ?thesis using AppendReservation_refused(1) [OF now, of dl s i req ts] ok by (simp add: reserved_as_def)
next
  case False
  then have dl: "now \<le> dl" "dl \<le> now + 86400" by auto
  have w': "waiting_on s i = None" using w by (simp add: local_waits_def)
  show ?thesis using ok now ts dl w'
  proof (cases rule: AppendReservation_accepted [where req = req])
    case (match s' ts1 t ts2 k v)
    then show ?thesis by (simp add: reserved_as_def local_waits_def)
  next
    case (queue s')
    have "local_waits s' = (local_waits s)(i \<mapsto> (req, dl))" using queue(5) by (auto simp: local_waits_def fun_eq_iff)
    then show ?thesis using queue by (simp add: reserved_as_def queued_reply_def)
  qed
qed

lemma local_KickN: "local_ok s \<Longrightarrow> serves local_ok local_waits s (KickN s t n)"
  using KickN_loop_ok [of "tally (\<lambda>c. c\<lparr>nCmdKickN := nCmdKickN c + 1\<rparr>) s" "nat n" t 0]
  by (auto simp: KickN_def serves_def seen_of_def local_waits_def)

lemma local_Put: "local_ok s \<Longrightarrow> sane_ttr x \<Longrightarrow> serves local_ok local_waits s (Put s now p d x z b t)"
  using Put_ok [of s x now p d z b t] by (fastforce simp: serves_def seen_of_def local_waits_def)

lemma local_GetJob: "local_ok s \<Longrightarrow> serves local_ok local_waits s (and_then (GetJob s i) (\<lambda>s j. Some (s, Inr (job_at s j))))"
  by (auto simp: GetJob_def Let_def get_entry_def JobIndex_Get_def intro!: serves_tally serves_same split: option.splits sum.splits)

lemma local_reading:
  assumes "local_ok s"
  shows "serves local_ok local_waits s (GetTubes s ord)"
    and "serves local_ok local_waits s (GetStatsJobAsYaml y s now i)" and "serves local_ok local_waits s (GetStatsTubeAsYaml y s t)"
    and "serves local_ok local_waits s (GetStatsAsYaml y s)"
    and "serves local_ok local_waits s (peeked (PeekBuriedJob s t))" and "serves local_ok local_waits s (peeked (PeekDelayedJob s t))"
    and "serves local_ok local_waits s (peeked (PeekReadyJob s t))"
  using assms
  by (auto simp: GetTubes_def GetStatsJobAsYaml_def GetStatsTubeAsYaml_def GetStatsAsYaml_def Let_def peeked_def PeekBuriedJob_def
      PeekDelayedJob_def PeekReadyJob_def get_entry_def JobIndex_Get_def intro!: serves_tally serves_same split: option.splits sum.splits)
    (cases "tubeIndex_GetStatistics (tubes s) t"; simp add: serves_tally serves_same)

interpretation local_jsm: jsm_service "local_JSM y o1 o2 o3" local_ok local_waits for y o1 o2 o3
proof unfold_locales
qed (simp_all add: local_JSM_def local_Put local_KickN local_GetJob local_reading local_AppendReservation local_Tick loop_order_keys
    serves_does [OF Delete_does] serves_does [OF Bury_does] serves_does [OF Kick_does] serves_does [OF ReleaseWith_does] serves_does [OF Touch_does])

section \<open>Commands on one job\<close>

text \<open>
  The commands that change one job, as what the specification of the job table makes of it and
  the word that tells of its success.
\<close>

definition job_command :: "int64 \<Rightarrow> job_table \<Rightarrow> CmdRequest \<Rightarrow> ((error + job_table) \<times> string) option" where
  "job_command now V req =
     (case (rq_CmdType req, rq_cmd req) of
        (DeleteCmd, Some (IdArg k)) \<Rightarrow> Some (spec_delete V k (rq_ClientID req), ''DELETED'')
      | (KickJobCmd, Some (IdArg k)) \<Rightarrow> Some (on_job V k spec_kick, ''KICKED'')
      | (TouchCmd, Some (IdArg k)) \<Rightarrow> Some (on_job V k (spec_touch now (rq_ClientID req)), ''TOUCHED'')
      | (BuryCmd, Some (BuryArg a)) \<Rightarrow> Some (on_job V (ba_id a) (spec_bury now (ba_pri a) (rq_ClientID req)), ''BURIED'')
      | (ReleaseCmd, Some (ReleaseArg a)) \<Rightarrow>
          Some (on_job V (ra_id a) (spec_release now (rq_ClientID req) (ra_pri a) (ra_delay a)), ''RELEASED'')
      | _ \<Rightarrow> None)"

lemma job_command_cases:
  assumes "job_command now V req = Some (spec, yes)"
  obtains (delete) k where "rq_CmdType req = DeleteCmd" "rq_cmd req = Some (IdArg k)"
      "spec = spec_delete V k (rq_ClientID req)" "yes = ''DELETED''"
    | (kick) k where "rq_CmdType req = KickJobCmd" "rq_cmd req = Some (IdArg k)" "spec = on_job V k spec_kick" "yes = ''KICKED''"
    | (touch) k where "rq_CmdType req = TouchCmd" "rq_cmd req = Some (IdArg k)"
      "spec = on_job V k (spec_touch now (rq_ClientID req))" "yes = ''TOUCHED''"
    | (bury) a where "rq_CmdType req = BuryCmd" "rq_cmd req = Some (BuryArg a)"
      "spec = on_job V (ba_id a) (spec_bury now (ba_pri a) (rq_ClientID req))" "yes = ''BURIED''"
    | (release) a where "rq_CmdType req = ReleaseCmd" "rq_cmd req = Some (ReleaseArg a)"
      "spec = on_job V (ra_id a) (spec_release now (rq_ClientID req) (ra_pri a) (ra_delay a))" "yes = ''RELEASED''"
  using assms that unfolding job_command_def by (auto split: CmdType.splits option.splits cmd_arg.splits)

definition reported :: "CmdRequest \<Rightarrow> error + job_table \<Rightarrow> string \<Rightarrow> CmdResponse" where
  "reported req spec yes =
     setResponse (NewCmdResponseFromReq req) (case spec of Inl _ \<Rightarrow> MsgNotFound | Inr _ \<Rightarrow> yes)"

lemma call_does:
  assumes "does (p_jsm c) r spec"
  shows "\<exists>s'. call c r (\<lambda>c. respond c req MsgNotFound) (\<lambda>c _. respond c req yes) =
            Some (c\<lparr>p_jsm := s'\<rparr>, [], Some (reported req spec yes)) \<and> local_ok s' \<and>
          seen_of s' = ((case spec of Inl _ \<Rightarrow> job_views (p_jsm c) | Inr V \<Rightarrow> V), waiting_on (p_jsm c), wait_line (p_jsm c))"
proof -
  obtain s' where s': "r = Some (s', map_sum (\<lambda>e. e) (\<lambda>_. ()) spec)" "local_ok s'"
      "seen_of s' = ((case spec of Inl _ \<Rightarrow> job_views (p_jsm c) | Inr V \<Rightarrow> V), waiting_on (p_jsm c), wait_line (p_jsm c))"
    using assms unfolding does_def by blast
  then show ?thesis by (cases spec) (auto simp: call_def respond_def reported_def)
qed

section \<open>A new client\<close>

lemma run_new_client_ok:
  assumes "proc_ok ok waits c" and "uid \<noteq> []" and "mget (p_clients c) uid = None"
  shows "\<exists>c' cli. run_new_client uid c = Some (c', uid, None) \<and> proc_ok ok waits c' \<and> p_jsm c' = p_jsm c \<and>
           mget (p_clients c') = (mget (p_clients c))(uid \<mapsto> cli)"
  using assms
  by (auto simp: run_new_client_def NewClient_def tubeSet_Set_def newTubeSet_def ClientSet_Set_def ClientSet_Contains_def proc_ok_def
      mwf_def fun_eq_iff)

lemma NewCommandProcessor_ok: "ok s \<Longrightarrow> waits s = Map.empty \<Longrightarrow> proc_ok ok waits (NewCommandProcessor s m t)"
  by (simp add: NewCommandProcessor_def proc_ok_def)

text \<open>A processor with one client.\<close>

definition front :: "localJSM \<Rightarrow> localJSM cmdProcessor" where
  "front s = fst (the (run_new_client ''c'' (NewCommandProcessor s 65535 100)))"

lemma front_facts:
  "p_jsm (front s) = s" "\<exists>cli. mget (p_clients (front s)) ''c'' = Some cli"
  "local_ok s \<Longrightarrow> dom (local_waits s) \<subseteq> {''c''} \<Longrightarrow> proc_ok local_ok local_waits (front s)"
  by (auto simp: front_def run_new_client_def NewClient_def tubeSet_Set_def newTubeSet_def ClientSet_Set_def ClientSet_Contains_def
      NewCommandProcessor_def proc_ok_def mwf_def)

definition demo_env :: env where
  "demo_env = \<lparr>e_now = 101, e_now' = 101, e_ord = [], e_yaml = (\<lambda>_. Inr [])\<rparr>"

section \<open>Properties\<close>

text \<open>
  C11: a command that changes one job (delete, kick-job, touch, bury, release) does to the
  table of jobs exactly what the specification says, for the client that sent it, and the one
  response is the word for success if the specification allows the change and
  \<^verbatim>\<open>NOT_FOUND\<close> if it does not; then nothing has changed. No client is registered or removed
  and no one starts or stops to wait.
\<close>

theorem command_refines_job_table:
  assumes "proc_ok local_ok local_waits c" and "mget (p_clients c) (rq_ClientID req) = Some cli" and "env_ok e"
    and "job_command (e_now e) (job_views (p_jsm c)) req = Some (spec, yes)"
  shows "\<exists>s'. processRequest (local_JSM y o1 o2 o3) e c req = Some (c\<lparr>p_jsm := s'\<rparr>, [reported req spec yes], False) \<and>
           local_ok s' \<and>
           seen_of s' = ((case spec of Inl _ \<Rightarrow> job_views (p_jsm c) | Inr V \<Rightarrow> V), waiting_on (p_jsm c), wait_line (p_jsm c))"
proof -
  have i: "cl_id cli = rq_ClientID req" "rq_ClientID req \<noteq> []" and ok: "local_ok (p_jsm c)"
    using assms(1,2) by (auto simp: proc_ok_def)
  have now: "sane_time (e_now e)" using assms(3) by (simp add: env_ok_def)
  note step = call_does [where req = req and yes = yes]
  have "\<exists>s'. handle (local_JSM y o1 o2 o3) e c cli req = Some (c\<lparr>p_jsm := s'\<rparr>, [], Some (reported req spec yes)) \<and>
           local_ok s' \<and>
           seen_of s' = ((case spec of Inl _ \<Rightarrow> job_views (p_jsm c) | Inr V \<Rightarrow> V), waiting_on (p_jsm c), wait_line (p_jsm c))"
    using assms(4)
  proof (cases rule: job_command_cases)
    case (delete k)
    then show ?thesis using step [OF Delete_does [OF ok]] i by (simp add: handle_def delete_cmd_def local_JSM_def)
  next
    case (kick k)
    then show ?thesis using step [OF Kick_does [OF ok]] by (simp add: handle_def kick_cmd_def local_JSM_def)
  next
    case (touch k)
    then show ?thesis using step [OF Touch_does [OF ok now i(2)]] by (simp add: handle_def touch_cmd_def local_JSM_def)
  next
    case (bury a)
    then show ?thesis using step [OF Bury_does [OF ok]] i by (simp add: handle_def bury_cmd_def local_JSM_def)
  next
    case (release a)
    then show ?thesis using step [OF ReleaseWith_does [OF ok]] i by (simp add: handle_def releaseWith_cmd_def local_JSM_def)
  qed
  then obtain s' where s': "handle (local_JSM y o1 o2 o3) e c cli req = Some (c\<lparr>p_jsm := s'\<rparr>, [], Some (reported req spec yes))"
      "local_ok s'"
      "seen_of s' = ((case spec of Inl _ \<Rightarrow> job_views (p_jsm c) | Inr V \<Rightarrow> V), waiting_on (p_jsm c), wait_line (p_jsm c))"
    by blast
  moreover have "rq_CmdType req \<noteq> QuitCmd" using assms(4) by (cases rule: job_command_cases) simp_all
  ultimately show ?thesis using assms(2) by (auto simp: processRequest_def ClientSet_Find_def)
qed

theorem command_refines_job_table_witness:
  "\<exists>s'. processRequest (local_JSM (\<lambda>_. Inr []) (\<lambda>_. []) (\<lambda>_. []) (\<lambda>_. [])) demo_env (front demo)
          \<lparr>rq_ID = ''r'', rq_ClientID = ''c'', rq_CmdType = DeleteCmd, rq_cmd = Some (IdArg 1)\<rparr> =
        Some ((front demo)\<lparr>p_jsm := s'\<rparr>,
          [\<lparr>rsp_RequestID = ''r'', rsp_ClientID = ''c'', rsp_Response = Some ''DELETED'', rsp_HasMore = False\<rparr>], False) \<and>
        local_ok s' \<and> seen_of s' = (Map.empty, waiting_on demo, wait_line demo)"
proof -
  let ?req = "\<lparr>rq_ID = ''r'', rq_ClientID = ''c'', rq_CmdType = DeleteCmd, rq_cmd = Some (IdArg 1)\<rparr>"
  obtain cli where cli: "mget (p_clients (front demo)) (rq_ClientID ?req) = Some cli" using front_facts(2) by auto
  have p: "proc_ok local_ok local_waits (front demo)" using demo_facts by (simp add: front_facts(3) local_waits_def)
  have e: "env_ok demo_env" by (simp add: env_ok_def demo_env_def sane_time_def)
  have j: "job_command (e_now demo_env) (job_views (p_jsm (front demo))) ?req = Some (Inr Map.empty, ''DELETED'')"
    by (simp add: job_command_def front_facts(1) demo_facts(2) spec_delete_def spec_new_job_def)
  show ?thesis
    using command_refines_job_table [OF p cli e j] by (simp add: front_facts(1) reported_def response_defs)
qed

text \<open>
  C9: no request of a registered client that is not already waiting makes the processor
  panic, the invariant is kept, and the client receives a complete answer: one or more
  responses to this request, each but the last announcing another. Only a reservation can be
  without an answer; then the client waits for this request until the deadline that the
  command sets. The channel is closed for \<^verbatim>\<open>quit\<close> and for no other command.
\<close>

theorem command_answered:
  assumes "proc_ok local_ok local_waits c" and "mget (p_clients c) (rq_ClientID req) = Some cli"
    and "local_waits (p_jsm c) (rq_ClientID req) = None" and "request_ok req" and "env_ok e"
  shows "\<exists>c' rs. processRequest (local_JSM y o1 o2 o3) e c req = Some (c', rs, rq_CmdType req = QuitCmd) \<and>
           proc_ok local_ok local_waits c' \<and>
           (complete (rq_ID req) (rq_ClientID req) rs \<and> local_waits (p_jsm c') = local_waits (p_jsm c) \<or>
            rs = [] \<and> rq_CmdType req \<in> {ReserveCmd, ReserveWithTimeoutCmd} \<and>
            local_waits (p_jsm c') = (local_waits (p_jsm c))(rq_ClientID req \<mapsto> (rq_ID req, deadline_of e c req)))"
  using local_jsm.processRequest_answers [OF assms] .

theorem command_answered_witness:
  "\<exists>c' rs. processRequest (local_JSM (\<lambda>_. Inr []) (\<lambda>_. []) (\<lambda>_. []) (\<lambda>_. [])) demo_env (front demo)
       \<lparr>rq_ID = ''r'', rq_ClientID = ''c'', rq_CmdType = ReserveCmd, rq_cmd = None\<rparr> = Some (c', rs, False) \<and>
     (complete ''r'' ''c'' rs \<or> rs = [] \<and> local_waits (p_jsm c') = [''c'' \<mapsto> (''r'', 201)])"
proof -
  let ?req = "\<lparr>rq_ID = ''r'', rq_ClientID = ''c'', rq_CmdType = ReserveCmd, rq_cmd = None\<rparr>"
  obtain cli where cli: "mget (p_clients (front demo)) (rq_ClientID ?req) = Some cli" using front_facts(2) by auto
  have p: "proc_ok local_ok local_waits (front demo)" using demo_facts by (simp add: front_facts(3) local_waits_def)
  have e: "env_ok demo_env" by (simp add: env_ok_def demo_env_def sane_time_def)
  have w: "local_waits (p_jsm (front demo)) = Map.empty" using demo_facts by (simp add: front_facts(1) local_waits_def)
  have r: "request_ok ?req" by (simp add: request_ok_def)
  have d: "deadline_of demo_env (front demo) ?req = 201"
    by (simp add: deadline_of_def demo_env_def addToNow_def front_def run_new_client_def NewClient_def tubeSet_Set_def newTubeSet_def
        NewCommandProcessor_def wrap64_def split: prod.split)
  show ?thesis
    using command_answered [OF p cli _ r e] unfolding w d by fastforce
qed

text \<open>
  C10: the clock ends every wait. \<^verbatim>\<open>Tick\<close> does not make the processor panic and keeps its
  invariant. A client that waited either receives a complete answer to the request for which
  it waited, or it goes on waiting for it and the deadline has not passed; so the first tick
  after the deadline answers at the latest. Clients that did not wait receive nothing.
\<close>

theorem tick_answers_waiting:
  assumes "proc_ok local_ok local_waits c" and "sane_time now"
  shows "\<exists>c' rs. run_tick (local_JSM y o1 o2 o3) now c = Some (c', rs) \<and> proc_ok local_ok local_waits c' \<and>
           p_clients c' = p_clients c \<and>
           (\<forall>i. case local_waits (p_jsm c) i of
                 None \<Rightarrow> local_waits (p_jsm c') i = None \<and> to_client i rs = []
               | Some (q, d) \<Rightarrow>
                   (if local_waits (p_jsm c') i = None then complete q i (to_client i rs)
                    else local_waits (p_jsm c') i = Some (q, d) \<and> now \<le> d \<and> to_client i rs = []))"
  using local_jsm.run_tick_answers [OF assms] .

theorem tick_answers_waiting_witness:
  "\<exists>c' rs. run_tick (local_JSM (\<lambda>_. Inr []) (\<lambda>_. []) (\<lambda>_. []) (\<lambda>_. [])) 111 (front demo_wait) = Some (c', rs) \<and>
     local_waits (p_jsm c') ''c'' = None \<and> complete ''r'' ''c'' (to_client ''c'' rs)"
proof -
  have w: "local_waits demo_wait = [''c'' \<mapsto> (''r'', 110)]" by (auto simp: local_waits_def demo_wait_facts)
  then have p: "proc_ok local_ok local_waits (front demo_wait)" using demo_wait_facts by (simp add: front_facts(3))
  have now: "sane_time 111" by (simp add: sane_time_def)
  have c: "local_waits (p_jsm (front demo_wait)) ''c'' = Some (''r'', 110)" using w by (simp add: front_facts(1))
  obtain c' rs where t: "run_tick (local_JSM (\<lambda>_. Inr []) (\<lambda>_. []) (\<lambda>_. []) (\<lambda>_. [])) 111 (front demo_wait) = Some (c', rs)"
      and each: "\<forall>i. case local_waits (p_jsm (front demo_wait)) i of
                 None \<Rightarrow> local_waits (p_jsm c') i = None \<and> to_client i rs = []
               | Some (q, d) \<Rightarrow>
                   (if local_waits (p_jsm c') i = None then complete q i (to_client i rs)
                    else local_waits (p_jsm c') i = Some (q, d) \<and> 111 \<le> d \<and> to_client i rs = [])"
    using tick_answers_waiting [OF p now, of "\<lambda>_. Inr []" "\<lambda>_. []" "\<lambda>_. []" "\<lambda>_. []"] by blast
  show ?thesis using t each [rule_format, of "''c''"] c by (cases "local_waits (p_jsm c') ''c''") auto
qed

end
