(* ===== verification/Spec2Isabelle.thy ===== *)
theory Spec2Isabelle
  imports Raft_Store Snapshot_Correct Cmd_Proc_Local
begin

text \<open>
  A verification of the job state machine of coolbeans, a replicated work queue.
\<close>

section \<open>The clock\<close>

text \<open>
  C2: \<^verbatim>\<open>Tick\<close> terminates without a panic from every state with the invariant, whatever the
  order in which its two loops over the map of tubes visit them, and keeps the invariant.
  First every delayed job whose time has come is ready. Then clients are served (\<open>served\<close>):
  the first client in the line of a tube gets the most urgent ready job of the tube, until
  every tube is idle, that is, it has no ready job or nobody waits for it. Last, expired jobs
  are released and waits end (\<open>ended\<close>). Afterwards no reservation, no delay and no wait is
  overdue.
\<close>

theorem Tick_settles:
  assumes "jsm_ok s {}" and "sane_time now"
    and "set ord = set (mkeys (tubes s))" and "set ord' = set (mkeys (tubes s))"
  shows "\<exists>s' rs qs b. Tick s now ord ord' = Some (s', Inr (rs @ qs)) \<and> jsm_ok s' {} \<and>
           served now (ripen now UNIV (job_views s), waiting_on s, wait_line s) rs b \<and> (\<forall>t. idle b t) \<and>
           ended now b qs (seen_of s') \<and> overdue_free now (seen_of s')"
  using Tick_ok [OF assms(1,2)] assms(3,4) by (simp add: dom_mkeys)

theorem Tick_settles_witness:
  "jsm_ok demo_wait {} \<and> sane_time 200 \<and> set [''t'', ''u''] = set (mkeys (tubes demo_wait)) \<and>
   (\<exists>s' rs qs b. Tick demo_wait 200 [''t'', ''u''] [''u'', ''t''] = Some (s', Inr (rs @ qs)) \<and> jsm_ok s' {} \<and>
           served 200 (ripen 200 UNIV (job_views demo_wait), waiting_on demo_wait, wait_line demo_wait) rs b \<and>
           (\<forall>t. idle b t) \<and> ended 200 b qs (seen_of s') \<and> overdue_free 200 (seen_of s'))"
proof -
  have "mkeys (tubes demo_wait) = [''t'', ''u'']" by code_simp
  moreover have "sane_time 200" by (simp add: sane_time_def)
  ultimately show ?thesis
    using Tick_settles [OF demo_wait_facts(1), of 200 "[''t'', ''u'']" "[''u'', ''t'']"] demo_wait_facts(1) by auto
qed



section \<open>Reservations\<close>

text \<open>
  C4: a client that is not waiting and asks with distinct tubes and a deadline of at most a
  day from now is either answered at once, with the most urgent ready job of the first of
  its tubes that has one, which it then holds until the time to run has passed, while the
  waiting clients stay as they are; or none of its tubes has a ready job, the jobs stay as
  they are, and it waits at the end of the line of each of its tubes.
\<close>

theorem AppendReservation_serves_or_queues:
  assumes "jsm_ok s {}" and "sane_time now" and "distinct ts"
    and "now \<le> dl" and "dl \<le> now + 86400" and "waiting_on s i = None"
  shows "\<exists>s' r. AppendReservation s i req ts now dl = Some (s', Inr r) \<and> jsm_ok s' {} \<and>
     ((\<exists>ts1 t ts2 k v. ts = ts1 @ t # ts2 \<and> (\<forall>u \<in> set ts1. ids_at (job_views s) (LReady u) = {}) \<and>
         most_urgent (job_views s) t k v \<and> r = reply req i k v \<and>
         seen_of s' = ((job_views s)(k \<mapsto> held now i v), waiting_on s, wait_line s)) \<or>
      ((\<forall>u \<in> set ts. ids_at (job_views s) (LReady u) = {}) \<and> r = queued_reply req i \<and>
         seen_of s' = (job_views s, (waiting_on s)(i \<mapsto> (req, ts, dl)),
           \<lambda>t. wait_line s t @ (if t \<in> set ts then [i] else []))))"
  using assms
proof (cases rule: AppendReservation_accepted [where req = req])
  case (match s' ts1 t ts2 k v)
  then have "seen_of s' = ((job_views s)(k \<mapsto> held now i v), waiting_on s, wait_line s)" by (simp add: seen_of_def)
  with match show ?thesis unfolding reply_def by blast
next
  case (queue s')
  then have "seen_of s' = (job_views s, (waiting_on s)(i \<mapsto> (req, ts, dl)),
      \<lambda>t. wait_line s t @ (if t \<in> set ts then [i] else []))" by (simp add: seen_of_def fun_eq_iff)
  with queue show ?thesis by blast
qed

theorem AppendReservation_serves_or_queues_witness:
  "jsm_ok demo {} \<and> sane_time 100 \<and> distinct [''t''] \<and> waiting_on demo ''c'' = None \<and>
   (\<exists>s' r. AppendReservation demo ''c'' ''r'' [''t''] 100 110 = Some (s', Inr r) \<and> jsm_ok s' {} \<and>
     ((\<exists>ts1 t ts2 k v. [''t''] = ts1 @ t # ts2 \<and> (\<forall>u \<in> set ts1. ids_at (job_views demo) (LReady u) = {}) \<and>
         most_urgent (job_views demo) t k v \<and> r = reply ''r'' ''c'' k v \<and>
         seen_of s' = ((job_views demo)(k \<mapsto> held 100 ''c'' v), waiting_on demo, wait_line demo)) \<or>
      ((\<forall>u \<in> set [''t'']. ids_at (job_views demo) (LReady u) = {}) \<and> r = queued_reply ''r'' ''c'' \<and>
         seen_of s' = (job_views demo, (waiting_on demo)(''c'' \<mapsto> (''r'', [''t''], 110)),
           \<lambda>t. wait_line demo t @ (if t \<in> set [''t''] then [''c''] else [])))))"
proof -
  have h: "sane_time 100" "distinct [''t'']" "(100 :: int) \<le> 110" "(110 :: int) \<le> 100 + 86400"
      "waiting_on demo ''c'' = None"
    using demo_facts(3) by (simp_all add: sane_time_def)
  show ?thesis
    using AppendReservation_serves_or_queues [OF demo_facts(1) h, of "''r''"] demo_facts(1) h by (intro conjI)
qed

text \<open>
  C15: the requests that \<^verbatim>\<open>AppendReservation\<close> refuses: a deadline in the past or more than a
  day ahead, and a client that is waiting already. Nothing changes but a counter.
\<close>

theorem AppendReservation_refuses:
  assumes "sane_time now" and "dl < now \<or> now + 86400 < dl \<or> waiting_on s i \<noteq> None"
  shows "\<exists>f. AppendReservation s i req ts now dl = Some (tally f s,
     Inl (if dl < now \<or> now + 86400 < dl then ErrInvalidResvTimeout else ErrClientIsWaitingForReservation))"
proof (cases "dl < now \<or> now + 86400 < dl")
  case True
  have "tally (\<lambda>c. c) s = s" by (simp add: tally_def)
  then show ?thesis using True AppendReservation_refused(1) [OF assms(1) True, of s i req ts]
    by (intro exI [of _ "\<lambda>c. c"]) simp
next
  case False
  then show ?thesis using AppendReservation_refused(2) [OF assms(1), of dl s i] assms(2) by auto
qed

theorem AppendReservation_refuses_witness:
  "sane_time 100 \<and> (99 < (100 :: int) \<or> 100 + 86400 < (99 :: int) \<or> waiting_on demo ''c'' \<noteq> None) \<and>
   (\<exists>f. AppendReservation demo ''c'' ''r'' [''t''] 100 99 = Some (tally f demo,
     Inl (if 99 < (100 :: int) \<or> 100 + 86400 < (99 :: int) then ErrInvalidResvTimeout else ErrClientIsWaitingForReservation)))"
proof -
  have h: "sane_time 100" "99 < (100 :: int) \<or> 100 + 86400 < (99 :: int) \<or> waiting_on demo ''c'' \<noteq> None"
    by (simp_all add: sane_time_def)
  show ?thesis using AppendReservation_refuses [OF h, of "''r''" "[''t'']"] h by (intro conjI)
qed

section \<open>Commands\<close>



text \<open>
  C18: \<^verbatim>\<open>Delete\<close> removes the job, whoever asks, unless another client holds it; an unknown id is
  an error. Nothing else that can be seen changes.
\<close>

theorem Delete_removes:
  assumes "jsm_ok s {}"
  shows "does s (Delete s i c) (spec_delete (job_views s) i c)"
  by (rule Delete_does [OF assms])

theorem Delete_removes_witness:
  "jsm_ok demo {} \<and> does demo (Delete demo 1 ''c'') (spec_delete (job_views demo) 1 ''c'')"
  using Delete_removes [OF demo_facts(1)] demo_facts(1) by blast



text \<open>C20: \<^verbatim>\<open>Bury\<close> buries a reserved job at the given time and with the given priority.\<close>

theorem Bury_buries:
  assumes "jsm_ok s {}"
  shows "does s (Bury s now i pri c) (on_job (job_views s) i (spec_bury now pri c))"
  by (rule Bury_does [OF assms])

theorem Bury_buries_witness:
  "jsm_ok demo {} \<and> does demo (Bury demo 100 1 4 ''c'') (on_job (job_views demo) 1 (spec_bury 100 4 ''c''))"
  using Bury_buries [OF demo_facts(1)] demo_facts(1) by blast

text \<open>C21: \<^verbatim>\<open>Kick\<close> makes a buried job ready; a job in another state is an error.\<close>

theorem Kick_readies:
  assumes "jsm_ok s {}"
  shows "does s (Kick s i) (on_job (job_views s) i spec_kick)"
  by (rule Kick_does [OF assms])

theorem Kick_readies_witness: "jsm_ok demo {} \<and> does demo (Kick demo 1) (on_job (job_views demo) 1 spec_kick)"
  using Kick_readies [OF demo_facts(1)] demo_facts(1) by blast

text \<open>
  C22: \<^verbatim>\<open>Touch\<close> by the holder, with a client id that is not empty, restarts the time to run of
  a reserved job, and the client is processed no later than the reservation now expires.
\<close>

theorem Touch_extends:
  assumes "jsm_ok s {}" and "sane_time now" and "c \<noteq> []"
  shows "does s (Touch s now i c) (on_job (job_views s) i (spec_touch now c))"
  by (rule Touch_does [OF assms])

theorem Touch_extends_witness:
  "jsm_ok demo {} \<and> sane_time 100 \<and> ''c'' \<noteq> [] \<and>
   does demo (Touch demo 100 1 ''c'') (on_job (job_views demo) 1 (spec_touch 100 ''c''))"
proof -
  have h: "sane_time 100" "''c'' \<noteq> []" by (simp_all add: sane_time_def)
  show ?thesis using Touch_extends [OF demo_facts(1) h, of 1] demo_facts(1) h by (intro conjI)
qed

text \<open>
  C23: \<^verbatim>\<open>KickN\<close> kicks as many jobs as it is asked to, or all buried jobs of the tube if there
  are fewer, those buried first, provided that no job of the tube was deleted while buried;
  the others stay.
\<close>

theorem KickN_kicks_oldest:
  assumes "jsm_ok s {}" and "\<not> has_ghost s (LBuried t)"
  defines "B \<equiv> ids_at (job_views s) (LBuried t)"
  shows "\<exists>s' K. KickN s t n = Some (s', Inr (int (card K))) \<and> jsm_ok s' {} \<and>
           card K = min (nat n) (card B) \<and> oldest (job_views s) K B \<and>
           seen_of s' = (kicked K (job_views s), waiting_on s, wait_line s)"
proof -
  let ?s = "tally (\<lambda>c. c\<lparr>nCmdKickN := nCmdKickN c + 1\<rparr>) s"
  have "jsm_ok ?s {}" "\<not> has_ghost ?s (LBuried t)" using assms(1,2) by (simp_all add: has_ghost_def)
  then show ?thesis using KickN_loop_exact [of ?s t "nat n" 0] by (simp add: KickN_def B_def)
qed

theorem KickN_kicks_oldest_witness:
  "jsm_ok demo {} \<and> \<not> has_ghost demo (LBuried ''t'') \<and>
   (\<exists>s' K. KickN demo ''t'' 3 = Some (s', Inr (int (card K))) \<and> jsm_ok s' {} \<and>
           card K = min (nat 3) (card (ids_at (job_views demo) (LBuried ''t''))) \<and>
           oldest (job_views demo) K (ids_at (job_views demo) (LBuried ''t'')) \<and>
           seen_of s' = (kicked K (job_views demo), waiting_on demo, wait_line demo))"
proof -
  have "entries (heaps demo (LBuried ''t'')) = []" by code_simp
  then have g: "\<not> has_ghost demo (LBuried ''t'')" by (simp add: has_ghost_def)
  then show ?thesis using KickN_kicks_oldest [OF demo_facts(1) g, of 3] demo_facts(1) by blast
qed

text \<open>
  C24: \<^verbatim>\<open>PeekReadyJob\<close> shows the ready job of a tube that the next reservation would get, the one
  with the least priority value and, among those, the least id; it reports a missing entry
  exactly if the tube has no ready job. Nothing that can be seen changes.
\<close>

theorem PeekReadyJob_most_urgent:
  assumes "jsm_ok s {}"
  shows "\<exists>s' r. PeekReadyJob s t = (s', r) \<and> jsm_ok s' {} \<and> seen_of s' = seen_of s \<and>
           (case r of Inl err \<Rightarrow> err = ErrEntryMissing \<and> ids_at (job_views s) (LReady t) = {}
            | Inr e \<Rightarrow> most_urgent (job_views s) t (ID (job_of (jsm_mem s) e)) (view (job_of (jsm_mem s) e)))"
proof -
  have inv: "jobs_inv s {}" using assms by (simp add: jsm_ok_def)
  show ?thesis
    using ready_root(1) [OF inv] ready_none [OF inv] assms
    by (auto simp: PeekReadyJob_def seen_of_def waiting_on_def wait_line_def split: sum.splits)
qed

theorem PeekReadyJob_most_urgent_witness:
  "jsm_ok demo {} \<and>
   (\<exists>s' r. PeekReadyJob demo ''t'' = (s', r) \<and> jsm_ok s' {} \<and> seen_of s' = seen_of demo \<and>
           (case r of Inl err \<Rightarrow> err = ErrEntryMissing \<and> ids_at (job_views demo) (LReady ''t'') = {}
            | Inr e \<Rightarrow> most_urgent (job_views demo) ''t'' (ID (job_of (jsm_mem demo) e)) (view (job_of (jsm_mem demo) e))))"
  using PeekReadyJob_most_urgent [OF demo_facts(1), of "''t''"] demo_facts(1) by (intro conjI)

text \<open>
  C25: \<^verbatim>\<open>CheckClientState\<close> sorts the ids it is asked about into clients that wait for a
  reservation, clients that are known but do not wait, and unknown clients, each list in the
  order of the request; it never fails.
\<close>

theorem CheckClientState_sorts:
  assumes "jsm_ok s {}"
  shows "CheckClientState s ids =
     Inr (filter (\<lambda>i. waiting_on s i \<noteq> None) ids,
          filter (\<lambda>i. known s i \<and> waiting_on s i = None) ids,
          filter (\<lambda>i. \<not> known s i) ids)"
  using assms check_clients_eq [of s ids "[]" "[]" "[]"] by (simp add: CheckClientState_def jsm_ok_def)

theorem CheckClientState_sorts_witness:
  "jsm_ok demo_wait {} \<and> CheckClientState demo_wait [''x'', ''c''] =
     Inr (filter (\<lambda>i. waiting_on demo_wait i \<noteq> None) [''x'', ''c''],
          filter (\<lambda>i. known demo_wait i \<and> waiting_on demo_wait i = None) [''x'', ''c''],
          filter (\<lambda>i. \<not> known demo_wait i) [''x'', ''c''])"
  using CheckClientState_sorts [OF demo_wait_facts(1)] demo_wait_facts(1) by blast

section \<open>Where the code does not do what it means to\<close>







section \<open>Snapshots\<close>

text \<open>
  C16: a snapshot of a state with the invariant can be restored on every node (unless the
  context is cancelled), whatever the order in which the map of jobs is sent. Afterwards the
  node has exactly the jobs of the snapshot, each in its state and with all its fields, where
  the time to run and the size of the body are cut to 32 bits; the clients wait with the
  request and the deadline that they had; and the state satisfies the invariant up to the time
  of the next delayed job. What is not restored: every client has lost its tubes and is in the
  line of none, the counter of ids is the greatest id of the jobs that exist, and the time of
  the next delayed job stays that of the node, so that a node that has just started has no
  time for any delayed job and its invariant is broken.
\<close>

theorem restore_of_snapshot:
  assumes "\<And>k. \<not> cancelled k" and "\<And>k. \<not> cancelled' k" and "jsm_ok s {}"
    and "distinct ord" and "set ord = set (mkeys (ji_m (jobs s)))" and "int (length (clientHeap s)) \<le> 2 ^ 31"
  shows "\<exists>t'. restoreTo cancelled cancelled' (NewSnapshotFrom s ord) t = Some (t', Inr ()) \<and> ticking t' \<and>
           (\<forall>i. job_views t' i = map_option snap_view (job_views s i)) \<and>
           (\<forall>i. waiting_on t' i = map_option (\<lambda>(req, ts, dl). (req, [], dl)) (waiting_on s i)) \<and>
           (\<forall>u. wait_line t' u = []) \<and> maxJobID t' = foldl max 0 ord \<and>
           nextDelayTickAt t' = nextDelayTickAt t \<and>
           (nextDelayTickAt t = maxTime \<and> (\<exists>i v. job_views s i = Some v \<and> state v = Delayed \<and> readyAt v < maxTime) \<longrightarrow>
              \<not> jsm_ok t' {})"
proof -
  obtain t' where t': "restoreTo cancelled cancelled' (NewSnapshotFrom s ord) t = Some (t', Inr ())" "clients_of s t'"
      "jobs_inv t' {}" "job_views t' = (\<lambda>i. map_option snap_view (job_views s i))"
      "nextDelayTickAt t' = nextDelayTickAt t" "maxJobID t' = foldl max 0 ord"
    using restoreTo_ok [of cancelled cancelled' s ord t, OF assms] by blast
  have inv: "cinv s" "tinv s {}" using assms(3) by (simp_all add: jsm_ok_def)
  have "\<not> jsm_ok t' {}" if "nextDelayTickAt t = maxTime" "job_views s i = Some v" "state v = Delayed" "readyAt v < maxTime" for i v
  proof
    assume "jsm_ok t' {}"
    then have "nextDelayTickAt t' \<le> readyAt (snap_view v)"
      using that(2,3) t'(4) by (fastforce simp: jsm_ok_def delay_ok_def snap_view_def)
    then show False using that(1,4) t'(5) by (simp add: snap_view_def)
  qed
  moreover have "wait_line t' u = []" for u using t'(2) by (simp add: wait_line_def clients_of_def)
  ultimately show ?thesis
    using t' clients_of_ticking [OF t'(2) assms(3) t'(3,4)] clients_of_waiting [OF t'(2) inv] by auto
qed

theorem restore_of_snapshot_witness:
  "jsm_ok demo_wait {} \<and> set [1] = set (mkeys (ji_m (jobs demo_wait))) \<and> int (length (clientHeap demo_wait)) \<le> 2 ^ 31 \<and>
   (\<exists>t'. restoreTo (\<lambda>_. False) (\<lambda>_. False) (NewSnapshotFrom demo_wait [1]) NewJSM = Some (t', Inr ()) \<and> ticking t' \<and>
      (\<forall>i. job_views t' i = map_option snap_view (job_views demo_wait i)) \<and>
      (\<forall>i. waiting_on t' i = map_option (\<lambda>(req, ts, dl). (req, [], dl)) (waiting_on demo_wait i)) \<and>
      (\<forall>u. wait_line t' u = []) \<and> maxJobID t' = 1)"
proof -
  have k: "set [1] = set (mkeys (ji_m (jobs demo_wait)))" "length (clientHeap demo_wait) = 1" by code_simp+
  then have c: "int (length (clientHeap demo_wait)) \<le> 2 ^ 31" by simp
  show ?thesis
    using restore_of_snapshot [of "\<lambda>_. False" "\<lambda>_. False", OF _ _ demo_wait_facts(1) _ k(1) c, of NewJSM] demo_wait_facts(1) k(1) c
    by auto
qed

end
